(* ===== verification/Prelude.thy ===== *)
theory Prelude
  imports Main "HOL-Library.Word"
begin

text \<open>
  Shared vocabulary of the development. Operations of the program that can throw are
  functions into a sum: \<open>Inl\<close> carries what was thrown, \<open>Inr\<close> the value that was
  returned. \<open>and_then\<close> is sequencing (the next statement runs only after a normal
  return), \<open>require\<close> is a guard that throws, \<open>catch_map\<close> is a \<open>try/catch\<close> that
  rethrows a translated error. An operation that also changes state is a function
  \<open>'s \<Rightarrow> ('e + 'a) \<times> 's\<close>; \<open>bind_st\<close>, \<open>catch_st\<close> and \<open>finally_st\<close> compose those.
  The named collections \<open>sum_flow\<close> and \<open>st_flow\<close> hold the rules that let
  \<open>simp\<close> and \<open>auto\<close> run such code symbolically.
\<close>

named_theorems sum_flow \<open>rules that run code over the sum type\<close>
named_theorems st_flow \<open>rules that run stateful code over the sum type\<close>

type_synonym ('e, 'a) result = "'e + 'a"
type_synonym ('s, 'e, 'a) action = "'s \<Rightarrow> ('e + 'a) \<times> 's"

section \<open>Sequencing of code that may throw\<close>

definition and_then :: "'e + 'a \<Rightarrow> ('a \<Rightarrow> 'e + 'b) \<Rightarrow> 'e + 'b" where
  "and_then m f = (case m of Inl e \<Rightarrow> Inl e | Inr a \<Rightarrow> f a)"

definition require :: "bool \<Rightarrow> 'e \<Rightarrow> 'e + unit" where
  "require c e = (if c then Inr () else Inl e)"

definition catch_map :: "('e \<Rightarrow> 'f) \<Rightarrow> 'e + 'a \<Rightarrow> 'f + 'a" where
  "catch_map h m = (case m of Inl e \<Rightarrow> Inl (h e) | Inr a \<Rightarrow> Inr a)"

lemma and_then_simps [simp, sum_flow]:
  "and_then (Inl e) f = Inl e"
  "and_then (Inr a) f = f a"
  by (simp_all add: and_then_def)

lemma and_then_eq_Inr [sum_flow]:
  "and_then m f = Inr b \<longleftrightarrow> (\<exists>a. m = Inr a \<and> f a = Inr b)"
  by (cases m) simp_all

lemma and_then_eq_Inl [sum_flow]:
  "and_then m f = Inl e \<longleftrightarrow> m = Inl e \<or> (\<exists>a. m = Inr a \<and> f a = Inl e)"
  by (cases m) simp_all

lemma and_then_cong [fundef_cong]:
  assumes "m = m'" and "\<And>a. m' = Inr a \<Longrightarrow> f a = f' a"
  shows "and_then m f = and_then m' f'"
  using assms by (cases m') simp_all

lemma and_then_assoc:
  "and_then (and_then m f) g = and_then m (\<lambda>a. and_then (f a) g)"
  by (cases m) simp_all

lemma require_simps [simp, sum_flow]:
  "require True e = Inr ()"
  "require False e = Inl e"
  by (simp_all add: require_def)

lemma require_eq [simp, sum_flow]:
  "require c e = Inr u \<longleftrightarrow> c"
  "require c e = Inl e' \<longleftrightarrow> \<not> c \<and> e' = e"
  by (auto simp: require_def)

lemma catch_map_simps [simp, sum_flow]:
  "catch_map h (Inl e) = Inl (h e)"
  "catch_map h (Inr a) = Inr a"
  by (simp_all add: catch_map_def)

lemma catch_map_eq [simp, sum_flow]:
  "catch_map h m = Inr a \<longleftrightarrow> m = Inr a"
  "catch_map h m = Inl e \<longleftrightarrow> (\<exists>e'. m = Inl e' \<and> e = h e')"
  by (cases m; auto)+

definition is_ok :: "'e + 'a \<Rightarrow> bool" where
  "is_ok m = (case m of Inl _ \<Rightarrow> False | Inr _ \<Rightarrow> True)"

lemma is_ok_simps [simp]: "is_ok (Inr a)" "\<not> is_ok (Inl e)"
  by (simp_all add: is_ok_def)

lemma is_ok_iff: "is_ok m \<longleftrightarrow> (\<exists>a. m = Inr a)"
  by (cases m) simp_all

section \<open>Sequencing of stateful code that may throw\<close>

definition return_st :: "'a \<Rightarrow> ('s, 'e, 'a) action" where
  "return_st a = (\<lambda>s. (Inr a, s))"

definition throw_st :: "'e \<Rightarrow> ('s, 'e, 'a) action" where
  "throw_st e = (\<lambda>s. (Inl e, s))"

definition bind_st :: "('s, 'e, 'a) action \<Rightarrow> ('a \<Rightarrow> ('s, 'e, 'b) action) \<Rightarrow> ('s, 'e, 'b) action" where
  "bind_st m f = (\<lambda>s. case m s of (Inl e, t) \<Rightarrow> (Inl e, t) | (Inr a, t) \<Rightarrow> f a t)"

definition catch_st :: "('s, 'e, 'a) action \<Rightarrow> ('e \<Rightarrow> ('s, 'f, 'a) action) \<Rightarrow> ('s, 'f, 'a) action" where
  "catch_st m h = (\<lambda>s. case m s of (Inl e, t) \<Rightarrow> h e t | (Inr a, t) \<Rightarrow> (Inr a, t))"

definition settle_st :: "('s, 'e, 'a) action \<Rightarrow> ('s, 'f, 'e + 'a) action" where
  "settle_st m = (\<lambda>s. case m s of (r, t) \<Rightarrow> (Inr r, t))"

definition finally_st :: "('s, 'e, 'a) action \<Rightarrow> ('s, 'e, unit) action \<Rightarrow> ('s, 'e, 'a) action" where
  "finally_st m c = (\<lambda>s. case m s of (r, t) \<Rightarrow>
     (case c t of (Inl e, u) \<Rightarrow> (Inl e, u) | (Inr _, u) \<Rightarrow> (r, u)))"

definition lift_st :: "'e + 'a \<Rightarrow> ('s, 'e, 'a) action" where
  "lift_st r = (\<lambda>s. (r, s))"

lemma return_st_apply [simp, st_flow]: "return_st a s = (Inr a, s)"
  by (simp add: return_st_def)

lemma throw_st_apply [simp, st_flow]: "throw_st e s = (Inl e, s)"
  by (simp add: throw_st_def)

lemma lift_st_apply [simp, st_flow]: "lift_st r s = (r, s)"
  by (simp add: lift_st_def)

lemma bind_st_apply [st_flow]:
  "bind_st m f s = (case m s of (Inl e, t) \<Rightarrow> (Inl e, t) | (Inr a, t) \<Rightarrow> f a t)"
  by (simp add: bind_st_def)

lemma catch_st_apply [st_flow]:
  "catch_st m h s = (case m s of (Inl e, t) \<Rightarrow> h e t | (Inr a, t) \<Rightarrow> (Inr a, t))"
  by (simp add: catch_st_def)

lemma settle_st_apply [st_flow]:
  "settle_st m s = (Inr (fst (m s)), snd (m s))"
  by (simp add: settle_st_def split: prod.splits)

lemma finally_st_apply [st_flow]:
  "finally_st m c s = (case c (snd (m s)) of (Inl e, u) \<Rightarrow> (Inl e, u) | (Inr _, u) \<Rightarrow> (fst (m s), u))"
  by (cases "m s"; cases "c (snd (m s))") (auto simp: finally_st_def split: sum.split)

lemma bind_st_eq_Inr:
  "bind_st m f s = (Inr b, u) \<longleftrightarrow> (\<exists>a t. m s = (Inr a, t) \<and> f a t = (Inr b, u))"
  by (auto simp: bind_st_def split: prod.splits sum.splits)

lemma bind_st_assoc: "bind_st (bind_st m f) g = bind_st m (\<lambda>a. bind_st (f a) g)"
  by (rule ext) (simp add: bind_st_def split: prod.split sum.split)

section \<open>Lists\<close>

lemma map_of_append_eq: "map_of (xs @ ys) k = (case map_of xs k of None \<Rightarrow> map_of ys k | Some v \<Rightarrow> Some v)"
  by (simp add: map_add_def split: option.splits)

section \<open>Reachable states of a step relation\<close>

text \<open>
  Every state machine below is a step relation; its reachable states and the invariant rule
  are shared.
\<close>

inductive reachable_from :: "('s \<Rightarrow> 's \<Rightarrow> bool) \<Rightarrow> 's \<Rightarrow> 's \<Rightarrow> bool"
  for step :: "'s \<Rightarrow> 's \<Rightarrow> bool" and s0 :: 's where
  here: "reachable_from step s0 s0"
| there: "reachable_from step s0 s \<Longrightarrow> step s t \<Longrightarrow> reachable_from step s0 t"

lemma reachable_invariant:
  assumes "reachable_from step s0 s"
    and "I s0"
    and "\<And>s t. I s \<Longrightarrow> step s t \<Longrightarrow> I t"
  shows "I s"
  using assms(1) by induction (auto intro: assms(2,3))

lemma reachable_trans:
  assumes "reachable_from step t u" and "reachable_from step s t"
  shows "reachable_from step s u"
  using assms by (induction) (auto intro: reachable_from.there)

lemma reachable_monotone:
  fixes f :: "'s \<Rightarrow> 'o::preorder"
  assumes "reachable_from step s0 s"
    and "I s0"
    and "\<And>s t. I s \<Longrightarrow> step s t \<Longrightarrow> I t \<and> f s \<le> f t"
  shows "I s \<and> f s0 \<le> f s"
  using assms(1) by induction (auto intro: assms(2) dest: assms(3) order_trans)

text \<open>
  A machine that records its first failure and one attribute of its state that no step changes:
  the contract of fail-closed supervision. Its consequences are for whole histories.
\<close>

locale fail_closed =
  fixes step :: "'s \<Rightarrow> 's \<Rightarrow> bool"
    and failure :: "'s \<Rightarrow> 'e option"
    and identity :: "'s \<Rightarrow> 'i"
    and invar :: "'s \<Rightarrow> bool"
  assumes invar_preserved: "invar s \<Longrightarrow> step s t \<Longrightarrow> invar t"
    and identity_preserved: "invar s \<Longrightarrow> step s t \<Longrightarrow> identity t = identity s"
    and failure_sticky: "invar s \<Longrightarrow> failure s = Some e \<Longrightarrow> step s t \<Longrightarrow> failure t = Some e"
begin

lemma reachable_facts:
  assumes "reachable_from step s t" and "invar s"
  shows "invar t \<and> identity t = identity s \<and> (\<forall>e. failure s = Some e \<longrightarrow> failure t = Some e)"
  using assms
  by (induction) (auto dest: invar_preserved identity_preserved failure_sticky)

lemma never_recovers:
  assumes "reachable_from step s t" and "reachable_from step t u" and "invar s" and "failure t = Some e"
  shows "failure u = Some e"
  using reachable_facts [OF assms(1,3)] reachable_facts [OF assms(2)] assms(4) by blast

end

end
