(* ===== verification/Js_Values.thy ===== *)
theory Js_Values
  imports Complex_Main Prelude
begin

text \<open>
  The part of JavaScript the program relies on: strings as sequences of 16-bit code units
  with the UTF-8 conversions of \<open>TextEncoder\<close> and of a fatal \<open>TextDecoder\<close>, numbers with
  \<open>Number.isSafeInteger\<close>, big integers with their decimal text, and the values that
  untrusted callers can pass, down to property descriptors. The lemmas are the round trips the
  components need: decimal text of a natural number, UTF-8 of a well-formed string.
\<close>

section \<open>Strings\<close>

type_synonym code_unit = "16 word"
type_synonym js_string = "code_unit list"
type_synonym byte = "8 word"

text \<open>An ASCII literal of the source as a JavaScript string.\<close>

definition js :: "string \<Rightarrow> js_string" where
  "js s = map of_char s"

lemma js_simps: "js [] = []" "js (c # s) = of_char c # js s"
  by (simp_all add: js_def)

lemma of_char_unit_inject: "(of_char c :: code_unit) = of_char d \<longleftrightarrow> c = d"
proof
  have nat_of: "unat (of_char c :: code_unit) = of_char c" for c :: char
  proof -
    have "(of_char c :: nat) < 256" by (metis of_char_mod_256 mod_less_divisor zero_less_numeral)
    then have "(of_char c :: nat) < 65536" by linarith
    moreover have "(of_char c :: code_unit) = of_nat (of_char c)" by (simp add: of_nat_of_char)
    ultimately show ?thesis by (simp add: unat_of_nat)
  qed
  assume "(of_char c :: code_unit) = of_char d"
  then have "(of_char c :: nat) = of_char d" using nat_of by metis
  then show "c = d" by simp
qed simp

lemma js_eq_iff [simp]: "js s = js t \<longleftrightarrow> s = t"
  unfolding js_def by (rule inj_map_eq_map) (simp add: inj_on_def of_char_unit_inject)

lemma js_Nil_iff [simp]: "js s = [] \<longleftrightarrow> s = []" "[] = js s \<longleftrightarrow> s = []"
  by (simp_all add: js_def)

lemma js_length [simp]: "length (js s) = length s"
  by (simp add: js_def)

text \<open>The characters removed by \<open>String.prototype.trim\<close>: white space and line terminators.\<close>

definition js_whitespace :: "code_unit \<Rightarrow> bool" where
  "js_whitespace u = ((9 \<le> u \<and> u \<le> 13) \<or> u = 32 \<or> u = 0xA0 \<or> u = 0x1680 \<or>
     (0x2000 \<le> u \<and> u \<le> 0x200A) \<or> u = 0x2028 \<or> u = 0x2029 \<or> u = 0x202F \<or>
     u = 0x205F \<or> u = 0x3000 \<or> u = 0xFEFF)"

definition js_trim :: "js_string \<Rightarrow> js_string" where
  "js_trim s = rev (dropWhile js_whitespace (rev (dropWhile js_whitespace s)))"

text \<open>\<open>js_trim s = s\<close> is a check on the two ends of the string.\<close>

lemma js_trim_id_iff:
  "js_trim s = s \<longleftrightarrow> s = [] \<or> (\<not> js_whitespace (hd s) \<and> \<not> js_whitespace (last s))"
proof (cases "s = []")
  case True
  then show ?thesis by (simp add: js_trim_def)
next
  case ne: False
  have drop_len: "length (dropWhile P xs) \<le> length xs" for P :: "code_unit \<Rightarrow> bool" and xs
    by (rule length_dropWhile_le)
  have ends: "dropWhile P xs = xs \<longleftrightarrow> \<not> P (hd xs)" if "xs \<noteq> []" for P :: "code_unit \<Rightarrow> bool" and xs
    using that drop_len [of P "tl xs"]
    by (cases xs) (auto dest: arg_cong [where f = length])
  show ?thesis
  proof (cases "js_whitespace (hd s)")
    case True
    then have "length (dropWhile js_whitespace s) < length s"
      using ne by (cases s) (auto intro: le_imp_less_Suc drop_len)
    then have "length (js_trim s) < length s"
      unfolding js_trim_def length_rev
      using drop_len [of js_whitespace "rev (dropWhile js_whitespace s)"] by simp
    with True ne show ?thesis by auto
  next
    case False
    then have "dropWhile js_whitespace s = s" using ends ne by blast
    then show ?thesis
      using ne False ends [of "rev s" js_whitespace]
      by (simp add: js_trim_def hd_rev rev_swap)
  qed
qed

section \<open>UTF-16, UTF-8\<close>

definition is_lead :: "code_unit \<Rightarrow> bool" where
  "is_lead u = (0xD800 \<le> u \<and> u \<le> 0xDBFF)"

definition is_trail :: "code_unit \<Rightarrow> bool" where
  "is_trail u = (0xDC00 \<le> u \<and> u \<le> 0xDFFF)"

definition surrogate_pair :: "code_unit \<Rightarrow> code_unit \<Rightarrow> nat" where
  "surrogate_pair u v = 0x10000 + (unat u - 0xD800) * 0x400 + (unat v - 0xDC00)"

text \<open>
  The Unicode scalar values a string stands for when it is encoded: a surrogate pair is one
  value, a lone surrogate is replaced by U+FFFD. Its length is also the length of
  \<open>Array.from(s)\<close>, which iterates code points and counts a lone surrogate as one.
\<close>

fun scalars :: "js_string \<Rightarrow> nat list" where
  "scalars [] = []"
| "scalars [u] = [if is_lead u \<or> is_trail u then 0xFFFD else unat u]"
| "scalars (u # v # us) =
     (if is_lead u then
        (if is_trail v then surrogate_pair u v # scalars us else 0xFFFD # scalars (v # us))
      else if is_trail u then 0xFFFD # scalars (v # us)
      else unat u # scalars (v # us))"

text \<open>No lone surrogate: what JavaScript calls a well-formed string.\<close>

fun well_formed :: "js_string \<Rightarrow> bool" where
  "well_formed [] = True"
| "well_formed [u] = (\<not> is_lead u \<and> \<not> is_trail u)"
| "well_formed (u # v # us) =
     (if is_lead u then is_trail v \<and> well_formed us
      else \<not> is_trail u \<and> well_formed (v # us))"

definition valid_scalar :: "nat \<Rightarrow> bool" where
  "valid_scalar c = (c < 0xD800 \<or> (0xE000 \<le> c \<and> c \<le> 0x10FFFF))"

definition utf8_scalar :: "nat \<Rightarrow> byte list" where
  "utf8_scalar c =
     (if c < 0x80 then [of_nat c]
      else if c < 0x800 then [of_nat (0xC0 + c div 64), of_nat (0x80 + c mod 64)]
      else if c < 0x10000 then
        [of_nat (0xE0 + c div 4096), of_nat (0x80 + c div 64 mod 64), of_nat (0x80 + c mod 64)]
      else
        [of_nat (0xF0 + c div 262144), of_nat (0x80 + c div 4096 mod 64),
         of_nat (0x80 + c div 64 mod 64), of_nat (0x80 + c mod 64)])"

text \<open>\<open>new TextEncoder().encode(s)\<close>.\<close>

definition text_encode :: "js_string \<Rightarrow> byte list" where
  "text_encode s = concat (map utf8_scalar (scalars s))"

definition continuation :: "nat \<Rightarrow> nat \<Rightarrow> byte \<Rightarrow> bool" where
  "continuation lo hi b = (lo \<le> unat b \<and> unat b \<le> hi)"

text \<open>The well-formed byte sequences of UTF-8; anything else is an error.\<close>

fun utf8_decode :: "byte list \<Rightarrow> nat list option" where
  "utf8_decode [] = Some []"
| "utf8_decode (b # bs) =
     (let x = unat b in
      if x < 0x80 then map_option ((#) x) (utf8_decode bs)
      else if 0xC2 \<le> x \<and> x \<le> 0xDF then
        (case bs of
           c1 # r \<Rightarrow>
             (if continuation 0x80 0xBF c1
              then map_option ((#) ((x - 0xC0) * 64 + (unat c1 - 0x80))) (utf8_decode r) else None)
         | _ \<Rightarrow> None)
      else if 0xE0 \<le> x \<and> x \<le> 0xEF then
        (case bs of
           c1 # c2 # r \<Rightarrow>
             (if continuation (if x = 0xE0 then 0xA0 else 0x80) (if x = 0xED then 0x9F else 0xBF) c1
                 \<and> continuation 0x80 0xBF c2
              then map_option
                ((#) ((x - 0xE0) * 4096 + (unat c1 - 0x80) * 64 + (unat c2 - 0x80))) (utf8_decode r)
              else None)
         | _ \<Rightarrow> None)
      else if 0xF0 \<le> x \<and> x \<le> 0xF4 then
        (case bs of
           c1 # c2 # c3 # r \<Rightarrow>
             (if continuation (if x = 0xF0 then 0x90 else 0x80) (if x = 0xF4 then 0x8F else 0xBF) c1
                 \<and> continuation 0x80 0xBF c2 \<and> continuation 0x80 0xBF c3
              then map_option
                ((#) ((x - 0xF0) * 262144 + (unat c1 - 0x80) * 4096 + (unat c2 - 0x80) * 64
                      + (unat c3 - 0x80))) (utf8_decode r)
              else None)
         | _ \<Rightarrow> None)
      else None)"

definition scalar_units :: "nat \<Rightarrow> js_string" where
  "scalar_units c =
     (if c < 0x10000 then [of_nat c]
      else [of_nat (0xD800 + (c - 0x10000) div 0x400), of_nat (0xDC00 + (c - 0x10000) mod 0x400)])"

text \<open>
  \<open>new TextDecoder("utf-8", { fatal: true }).decode(bytes)\<close>: \<open>ignoreBOM\<close> is not set, so a
  leading byte order mark is dropped. \<open>None\<close> is the \<open>TypeError\<close> of malformed input.
\<close>

definition byte_order_mark :: "byte list" where
  "byte_order_mark = [0xEF, 0xBB, 0xBF]"

definition text_decode_fatal :: "byte list \<Rightarrow> js_string option" where
  "text_decode_fatal bs =
     map_option (\<lambda>cs. concat (map scalar_units cs))
       (utf8_decode (if take 3 bs = byte_order_mark then drop 3 bs else bs))"

subsection \<open>Round trip\<close>

lemma unat_16_less: "unat (u :: code_unit) < 65536"
  using unsigned_less [of u] by simp

lemma unit_bounds:
  "is_lead u \<Longrightarrow> 0xD800 \<le> unat u \<and> unat u \<le> 0xDBFF"
  "is_trail u \<Longrightarrow> 0xDC00 \<le> unat u \<and> unat u \<le> 0xDFFF"
  by (simp_all add: is_lead_def is_trail_def word_le_nat_alt)

lemma unit_plain:
  "\<not> is_lead u \<Longrightarrow> \<not> is_trail u \<Longrightarrow> unat u < 0xD800 \<or> 0xE000 \<le> unat u"
  by (auto simp: is_lead_def is_trail_def word_le_nat_alt)

lemma surrogate_pair_bounds:
  assumes "is_lead u" and "is_trail v"
  shows "0x10000 \<le> surrogate_pair u v" and "surrogate_pair u v \<le> 0x10FFFF"
proof -
  obtain a where a: "unat u = 0xD800 + a" "a < 0x400"
    using unit_bounds(1) [OF assms(1)] le_Suc_ex by force
  obtain b where b: "unat v = 0xDC00 + b" "b < 0x400"
    using unit_bounds(2) [OF assms(2)] le_Suc_ex by force
  show "0x10000 \<le> surrogate_pair u v" and "surrogate_pair u v \<le> 0x10FFFF"
    using a b by (simp_all add: surrogate_pair_def)
qed

lemma scalars_valid: "c \<in> set (scalars s) \<Longrightarrow> valid_scalar c"
proof (induction s rule: scalars.induct)
  case (2 u)
  then show ?case
    using unit_plain [of u] unat_16_less [of u] by (auto simp: valid_scalar_def split: if_splits)
next
  case (3 u v us)
  then show ?case
    using unit_plain [of u] unat_16_less [of u] surrogate_pair_bounds [of u v]
    by (auto simp: valid_scalar_def split: if_splits)
qed simp

lemma scalar_units_plain:
  "\<not> is_lead u \<Longrightarrow> \<not> is_trail u \<Longrightarrow> scalar_units (unat u) = [u]"
  using unat_16_less [of u] by (simp add: scalar_units_def)

lemma scalar_units_pair:
  assumes "is_lead u" and "is_trail v"
  shows "scalar_units (surrogate_pair u v) = [u, v]"
proof -
  obtain a where a: "unat u = 0xD800 + a" "a < 0x400"
    using unit_bounds(1) [OF assms(1)] le_Suc_ex by force
  obtain b where b: "unat v = 0xDC00 + b" "b < 0x400"
    using unit_bounds(2) [OF assms(2)] le_Suc_ex by force
  have sp: "surrogate_pair u v - 0x10000 = a * 0x400 + b" using a b by (simp add: surrogate_pair_def)
  have "(a * 0x400 + b) div 0x400 = a" and "(a * 0x400 + b) mod 0x400 = b"
    using b by simp_all
  then have "0xD800 + (a * 0x400 + b) div 0x400 = unat u" and "0xDC00 + (a * 0x400 + b) mod 0x400 = unat v"
    using a b by simp_all
  then have "of_nat (0xD800 + (a * 0x400 + b) div 0x400) = u"
    and "of_nat (0xDC00 + (a * 0x400 + b) mod 0x400) = v"
    by (simp_all only: of_nat_unat ucast_id)
  then show ?thesis
    using surrogate_pair_bounds(1) [OF assms] unfolding scalar_units_def sp by (simp del: of_nat_add)
qed

lemma scalars_units_roundtrip: "well_formed s \<Longrightarrow> concat (map scalar_units (scalars s)) = s"
  by (induction s rule: scalars.induct)
    (auto simp: scalar_units_plain scalar_units_pair split: if_splits)

lemma unat_byte: "n < 256 \<Longrightarrow> unat (of_nat n :: byte) = n"
  by (simp add: unat_of_nat)

lemma base64_split2: "c div 4096 * 4096 + c div 64 mod 64 * 64 + c mod 64 = c" for c :: nat
proof -
  have "c div 64 div 64 = c div 4096" by (simp flip: div_mult2_eq)
  then show ?thesis
    using div_mult_mod_eq [of c 64] div_mult_mod_eq [of "c div 64" 64] by linarith
qed

lemma base64_split3:
  "c div 262144 * 262144 + c div 4096 mod 64 * 4096 + c div 64 mod 64 * 64 + c mod 64 = c" for c :: nat
proof -
  have "c div 4096 div 64 = c div 262144" by (simp flip: div_mult2_eq)
  then show ?thesis
    using base64_split2 [of c] div_mult_mod_eq [of "c div 4096" 64] by linarith
qed

lemma utf8_decode_two:
  assumes "unat b = 0xC0 + p" "2 \<le> p" "p < 32" "unat c1 = 0x80 + q" "q < 64"
  shows "utf8_decode (b # c1 # r) = map_option ((#) (p * 64 + q)) (utf8_decode r)"
  using assms by (simp add: Let_def continuation_def)

lemma utf8_decode_three:
  assumes "unat b = 0xE0 + p" "p < 16" "unat c1 = 0x80 + q" "q < 64" "unat c2 = 0x80 + t" "t < 64"
    and lo: "p = 0 \<Longrightarrow> 32 \<le> q" and hi: "p = 13 \<Longrightarrow> q < 32"
  shows "utf8_decode (b # c1 # c2 # r) = map_option ((#) (p * 4096 + q * 64 + t)) (utf8_decode r)"
proof -
  have "continuation (if unat b = 0xE0 then 0xA0 else 0x80) (if unat b = 0xED then 0x9F else 0xBF) c1"
    using assms by (auto simp: continuation_def)
  moreover have "continuation 0x80 0xBF c2" using assms by (simp add: continuation_def)
  ultimately show ?thesis using assms by (simp add: Let_def)
qed

lemma utf8_decode_four:
  assumes "unat b = 0xF0 + p" "p < 5" "unat c1 = 0x80 + q" "q < 64" "unat c2 = 0x80 + t" "t < 64"
    and "unat c3 = 0x80 + w" "w < 64"
    and lo: "p = 0 \<Longrightarrow> 16 \<le> q" and hi: "p = 4 \<Longrightarrow> q < 16"
  shows "utf8_decode (b # c1 # c2 # c3 # r) =
    map_option ((#) (p * 262144 + q * 4096 + t * 64 + w)) (utf8_decode r)"
proof -
  have "continuation (if unat b = 0xF0 then 0x90 else 0x80) (if unat b = 0xF4 then 0x8F else 0xBF) c1"
    using assms by (auto simp: continuation_def)
  moreover have "continuation 0x80 0xBF c2" "continuation 0x80 0xBF c3"
    using assms by (simp_all add: continuation_def)
  ultimately show ?thesis using assms by (simp add: Let_def)
qed

declare utf8_decode.simps(2) [simp del]

lemma utf8_decode_scalar:
  assumes "valid_scalar c"
  shows "utf8_decode (utf8_scalar c @ r) = map_option ((#) c) (utf8_decode r)"
proof -
  consider "c < 0x80" | "0x80 \<le> c" "c < 0x800" | "0x800 \<le> c" "c < 0x10000" | "0x10000 \<le> c"
    by linarith
  then show ?thesis
  proof cases
    case 1
    then show ?thesis by (simp add: utf8_scalar_def unat_byte utf8_decode.simps(2) Let_def)
  next
    case 2
    then have "utf8_decode (of_nat (0xC0 + c div 64) # of_nat (0x80 + c mod 64) # r) =
        map_option ((#) (c div 64 * 64 + c mod 64)) (utf8_decode r)"
      by (intro utf8_decode_two unat_byte) auto
    with 2 show ?thesis by (simp add: utf8_scalar_def del: of_nat_add)
  next
    case 3
    note s = base64_split2 [of c]
    have m: "c div 64 mod 64 < 64" "c mod 64 < 64" by simp_all
    have hi: "c div 64 mod 64 < 32" if "c div 4096 = 13"
    proof (rule ccontr)
      assume "\<not> c div 64 mod 64 < 32"
      with that s m have "0xD800 \<le> c" "c < 0xE000" by linarith+
      with assms show False by (simp add: valid_scalar_def)
    qed
    have "utf8_decode (of_nat (0xE0 + c div 4096) # of_nat (0x80 + c div 64 mod 64)
            # of_nat (0x80 + c mod 64) # r) =
        map_option ((#) (c div 4096 * 4096 + c div 64 mod 64 * 64 + c mod 64)) (utf8_decode r)"
      by (intro utf8_decode_three unat_byte)
        (use 3 s m hi in simp_all)
    with 3 s show ?thesis by (simp add: utf8_scalar_def del: of_nat_add)
  next
    case 4
    note s = base64_split3 [of c]
    have m: "c div 4096 mod 64 < 64" "c div 64 mod 64 < 64" "c mod 64 < 64" by simp_all
    have b: "c \<le> 0x10FFFF" using 4 assms by (simp add: valid_scalar_def)
    have "utf8_decode (of_nat (0xF0 + c div 262144) # of_nat (0x80 + c div 4096 mod 64)
            # of_nat (0x80 + c div 64 mod 64) # of_nat (0x80 + c mod 64) # r) =
        map_option ((#) (c div 262144 * 262144 + c div 4096 mod 64 * 4096 + c div 64 mod 64 * 64 + c mod 64))
          (utf8_decode r)"
      by (intro utf8_decode_four unat_byte) (use 4 s m b in simp_all)
    with 4 s show ?thesis by (simp add: utf8_scalar_def del: of_nat_add)
  qed
qed

lemma utf8_decode_encode:
  "\<forall>c \<in> set cs. valid_scalar c \<Longrightarrow> utf8_decode (concat (map utf8_scalar cs)) = Some cs"
  by (induction cs) (simp_all add: utf8_decode_scalar)

lemma utf8_bom: "utf8_scalar 0xFEFF = byte_order_mark"
  by (simp add: utf8_scalar_def byte_order_mark_def)

lemma text_encode_starts_with_bom:
  assumes "take 3 (text_encode s) = byte_order_mark"
  shows "\<exists>cs. scalars s = 0xFEFF # cs \<and> utf8_decode (drop 3 (text_encode s)) = Some cs"
proof -
  have "text_encode s = utf8_scalar 0xFEFF @ drop 3 (text_encode s)"
    using assms utf8_bom by (metis append_take_drop_id)
  moreover have "utf8_decode (text_encode s) = Some (scalars s)"
    unfolding text_encode_def using scalars_valid by (intro utf8_decode_encode) blast
  ultimately have "map_option ((#) 0xFEFF) (utf8_decode (drop 3 (text_encode s))) = Some (scalars s)"
    using utf8_decode_scalar [of "0xFEFF" "drop 3 (text_encode s)"] by (simp add: valid_scalar_def)
  then show ?thesis by auto
qed

lemma scalars_hd_plain:
  assumes "scalars s = 0xFEFF # cs"
  shows "\<exists>t. s = 0xFEFF # t \<and> scalars t = cs"
proof -
  have ne: "s \<noteq> []" using assms by auto
  have u: "unat u = 0xFEFF \<Longrightarrow> u = 0xFEFF" for u :: code_unit
    by (metis of_nat_numeral of_nat_unat ucast_id)
  show ?thesis
    using assms ne
    by (cases s rule: scalars.cases) (auto split: if_splits intro: u dest: surrogate_pair_bounds(1))
qed

text \<open>
  A well-formed string survives UTF-8 and the fatal decoder exactly when it does not start with
  U+FEFF, which the decoder takes for a byte order mark and drops.
\<close>

lemma text_decode_encode:
  assumes "well_formed s" and "\<forall>t. s \<noteq> 0xFEFF # t"
  shows "text_decode_fatal (text_encode s) = Some s"
proof -
  have "take 3 (text_encode s) \<noteq> byte_order_mark"
    using text_encode_starts_with_bom scalars_hd_plain assms(2) by blast
  moreover have "utf8_decode (text_encode s) = Some (scalars s)"
    unfolding text_encode_def using scalars_valid by (intro utf8_decode_encode) blast
  ultimately show ?thesis
    using scalars_units_roundtrip [OF assms(1)] by (simp add: text_decode_fatal_def)
qed

lemma well_formed_bom_cons: "well_formed (0xFEFF # t) = well_formed t"
  by (cases t) (simp_all add: is_lead_def is_trail_def)

lemma scalars_bom_cons: "scalars (0xFEFF # t) = 0xFEFF # scalars t"
  by (cases t) (simp_all add: is_lead_def is_trail_def)

lemma text_decode_encode_bom:
  assumes "well_formed t"
  shows "text_decode_fatal (text_encode (0xFEFF # t)) = Some t"
proof -
  have e: "text_encode (0xFEFF # t) = byte_order_mark @ text_encode t"
    by (simp add: text_encode_def scalars_bom_cons utf8_bom)
  have "utf8_decode (text_encode t) = Some (scalars t)"
    unfolding text_encode_def using scalars_valid by (intro utf8_decode_encode) blast
  then show ?thesis
    using scalars_units_roundtrip [OF assms]
    by (simp add: text_decode_fatal_def e byte_order_mark_def)
qed

lemma utf8_scalar_length: "length (utf8_scalar c) \<le> 4" "0 < length (utf8_scalar c)"
  by (simp_all add: utf8_scalar_def)

lemma text_encode_length: "length (text_encode s) \<le> 4 * length (scalars s)"
proof -
  have "length (concat (map utf8_scalar cs)) \<le> 4 * length cs" for cs
    by (induction cs) (use utf8_scalar_length(1) in \<open>auto intro: add_mono\<close>)
  then show ?thesis by (simp add: text_encode_def)
qed

lemma scalars_length: "length (scalars s) \<le> length s"
  by (induction s rule: scalars.induct) auto

section \<open>Numbers\<close>

text \<open>
  A number is an integer, a finite value that is not an integer, \<open>NaN\<close> or an infinity.
  Sums that the program forms from safe integers are rounded to a double only when they leave
  the safe range, and the program tests exactly that, so integers are exact here.
\<close>

datatype js_number = NInt int | NFrac rat | NNaN | NInf bool

definition MAX_SAFE_INTEGER :: int where
  "MAX_SAFE_INTEGER = 9007199254740991"

fun is_safe_integer :: "js_number \<Rightarrow> bool" where
  "is_safe_integer (NInt i) = (- MAX_SAFE_INTEGER \<le> i \<and> i \<le> MAX_SAFE_INTEGER)"
| "is_safe_integer _ = False"

fun int_of_number :: "js_number \<Rightarrow> int" where
  "int_of_number (NInt i) = i"
| "int_of_number _ = 0"

lemma is_safe_integer_int: "is_safe_integer n \<longleftrightarrow> (\<exists>i. n = NInt i \<and> \<bar>i\<bar> \<le> MAX_SAFE_INTEGER)"
  by (cases n) auto

text \<open>The operators \<open><\<close>, \<open>>=\<close> and \<open>+\<close> on numbers: every comparison with \<open>NaN\<close> is false.\<close>

fun finite_number :: "js_number \<Rightarrow> rat option" where
  "finite_number (NInt i) = Some (of_int i)"
| "finite_number (NFrac r) = Some r"
| "finite_number _ = None"

definition number_of_rat :: "rat \<Rightarrow> js_number" where
  "number_of_rat r = (if r \<in> \<int> then NInt \<lfloor>r\<rfloor> else NFrac r)"

fun num_less :: "js_number \<Rightarrow> js_number \<Rightarrow> bool" where
  "num_less (NInt a) (NInt b) = (a < b)"
| "num_less NNaN b = False"
| "num_less a NNaN = False"
| "num_less (NInf p) b = (\<not> p \<and> b \<noteq> NInf False)"
| "num_less a (NInf p) = p"
| "num_less a b = (the (finite_number a) < the (finite_number b))"

definition num_ge :: "js_number \<Rightarrow> js_number \<Rightarrow> bool" where
  "num_ge a b = (a \<noteq> NNaN \<and> b \<noteq> NNaN \<and> \<not> num_less a b)"

fun num_add :: "js_number \<Rightarrow> js_number \<Rightarrow> js_number" where
  "num_add (NInt a) (NInt b) = NInt (a + b)"
| "num_add NNaN b = NNaN"
| "num_add a NNaN = NNaN"
| "num_add (NInf p) (NInf q) = (if p = q then NInf p else NNaN)"
| "num_add (NInf p) b = NInf p"
| "num_add a (NInf q) = NInf q"
| "num_add a b = number_of_rat (the (finite_number a) + the (finite_number b))"

lemma num_ge_int [simp]: "num_ge (NInt a) (NInt b) = (b \<le> a)"
  by (auto simp: num_ge_def)

section \<open>Decimal text of integers\<close>

definition digit_unit :: "nat \<Rightarrow> code_unit" where
  "digit_unit d = of_nat (48 + d)"

definition is_digit :: "code_unit \<Rightarrow> bool" where
  "is_digit u = (48 \<le> u \<and> u \<le> 57)"

definition digit_value :: "code_unit \<Rightarrow> nat" where
  "digit_value u = unat u - 48"

fun dec_nat :: "nat \<Rightarrow> js_string" where
  "dec_nat n = (if n < 10 then [digit_unit n] else dec_nat (n div 10) @ [digit_unit (n mod 10)])"

declare dec_nat.simps [simp del]

text \<open>\<open>BigInt.prototype.toString\<close>, and \<open>BigInt(text)\<close> on a text of decimal digits.\<close>

definition dec_int :: "int \<Rightarrow> js_string" where
  "dec_int i = (if i < 0 then 45 # dec_nat (nat (- i)) else dec_nat (nat i))"

definition parse_dec :: "js_string \<Rightarrow> nat" where
  "parse_dec s = foldl (\<lambda>acc u. acc * 10 + digit_value u) 0 s"

text \<open>The regular expressions \<open>^(0|[1-9][0-9]*)$\<close> and \<open>^[1-9][0-9]*$\<close> and \<open>^[0-9]+$\<close>.\<close>

definition all_digits :: "js_string \<Rightarrow> bool" where
  "all_digits s = (s \<noteq> [] \<and> list_all is_digit s)"

definition positive_decimal :: "js_string \<Rightarrow> bool" where
  "positive_decimal s = (all_digits s \<and> hd s \<noteq> 48)"

definition canonical_decimal :: "js_string \<Rightarrow> bool" where
  "canonical_decimal s = (s = [48] \<or> positive_decimal s)"

lemma unat_digit_unit: "d < 10 \<Longrightarrow> unat (digit_unit d) = 48 + d"
  by (simp add: digit_unit_def unat_of_nat del: of_nat_add)

lemma digit_unit_props:
  assumes "d < 10"
  shows "is_digit (digit_unit d)" "digit_value (digit_unit d) = d" "digit_unit d = 48 \<longleftrightarrow> d = 0"
  using unat_digit_unit [OF assms] assms
  by (auto simp: is_digit_def digit_value_def word_le_nat_alt word_unat_eq_iff)

lemma digit_unit_value:
  assumes "is_digit u"
  shows "digit_unit (digit_value u) = u" "digit_value u < 10" "digit_value u = 0 \<longleftrightarrow> u = 48"
  using assms by (auto simp: is_digit_def digit_value_def digit_unit_def word_le_nat_alt
      word_unat_eq_iff simp del: of_nat_add)

lemma dec_nat_nonempty [simp]: "dec_nat n \<noteq> []"
  by (subst dec_nat.simps) simp

lemma dec_nat_digits: "list_all is_digit (dec_nat n)"
proof (induction n rule: dec_nat.induct)
  case (1 n)
  then show ?case
    by (subst dec_nat.simps) (auto simp: digit_unit_props)
qed

lemma dec_nat_hd: "hd (dec_nat n) = 48 \<longleftrightarrow> n = 0"
proof (induction n rule: dec_nat.induct)
  case (1 n)
  then show ?case
    by (subst dec_nat.simps) (auto simp: digit_unit_props)
qed

lemma parse_dec_snoc: "parse_dec (s @ [u]) = parse_dec s * 10 + digit_value u"
  by (simp add: parse_dec_def)

lemma parse_dec_dec_nat [simp]: "parse_dec (dec_nat n) = n"
proof (induction n rule: dec_nat.induct)
  case (1 n)
  show ?case
  proof (cases "n < 10")
    case True
    then show ?thesis by (subst dec_nat.simps) (simp add: parse_dec_def digit_unit_props)
  next
    case False
    with 1 show ?thesis
      by (subst dec_nat.simps) (simp add: parse_dec_snoc digit_unit_props)
  qed
qed

lemma dec_nat_inject [simp]: "dec_nat m = dec_nat n \<longleftrightarrow> m = n"
  by (metis parse_dec_dec_nat)

lemma canonical_dec_nat: "canonical_decimal (dec_nat n)"
proof (cases "n = 0")
  case True
  then show ?thesis by (subst dec_nat.simps) (simp add: canonical_decimal_def digit_unit_def)
next
  case False
  then show ?thesis
    using dec_nat_digits dec_nat_hd
    by (auto simp: canonical_decimal_def positive_decimal_def all_digits_def)
qed

lemma positive_dec_nat: "0 < n \<Longrightarrow> positive_decimal (dec_nat n)"
  using dec_nat_digits dec_nat_hd by (simp add: positive_decimal_def all_digits_def)

lemma positive_decimal_parse: "positive_decimal s \<Longrightarrow> 0 < parse_dec s \<and> dec_nat (parse_dec s) = s"
proof (induction s rule: rev_induct)
  case Nil
  then show ?case by (simp add: positive_decimal_def all_digits_def)
next
  case (snoc u s)
  from snoc.prems have u: "is_digit u" by (simp add: positive_decimal_def all_digits_def)
  show ?case
  proof (cases "s = []")
    case True
    with snoc.prems u have "parse_dec (s @ [u]) = digit_value u" "0 < digit_value u"
      using digit_unit_value(3) [OF u] by (auto simp: parse_dec_def positive_decimal_def)
    with True u show ?thesis
      by (subst dec_nat.simps) (simp add: digit_unit_value(1,2))
  next
    case False
    with snoc.prems have "positive_decimal s" by (simp add: positive_decimal_def all_digits_def)
    then have IH: "0 < parse_dec s" "dec_nat (parse_dec s) = s" by (simp_all add: snoc.IH)
    with u show ?thesis
      by (subst dec_nat.simps) (simp add: parse_dec_snoc digit_unit_value)
  qed
qed

lemma canonical_decimal_parse: "canonical_decimal s \<Longrightarrow> dec_nat (parse_dec s) = s"
proof -
  have "dec_nat (parse_dec [48]) = [48]"
    by (subst dec_nat.simps) (simp add: parse_dec_def digit_value_def digit_unit_def)
  then show "canonical_decimal s \<Longrightarrow> dec_nat (parse_dec s) = s"
    by (auto simp: canonical_decimal_def dest: positive_decimal_parse)
qed

lemma canonical_decimal_iff: "canonical_decimal s \<longleftrightarrow> (\<exists>n. s = dec_nat n)"
  using canonical_dec_nat canonical_decimal_parse by metis

section \<open>Values\<close>

datatype prop_key = PName js_string | PSymbol nat

datatype 'v js_prop = Data_prop 'v | Accessor_prop

text \<open>
  A value as it crosses an untyped boundary. An object is its own properties in
  \<open>Reflect.ownKeys\<close> order; \<open>JHostile\<close> is an object whose property inspection throws.
\<close>

datatype js_value =
    JUndefined
  | JNull
  | JBool bool
  | JNumber js_number
  | JBigInt int
  | JString js_string
  | JSymbol nat
  | JFunction nat
  | JArray "js_value list"
  | JObject "(prop_key \<times> js_value js_prop) list"
  | JHostile

type_synonym js_fields = "(js_string \<times> js_value) list"

definition field :: "js_fields \<Rightarrow> string \<Rightarrow> js_value" where
  "field fs name = (case map_of fs (js name) of None \<Rightarrow> JUndefined | Some v \<Rightarrow> v)"

definition has_own :: "js_fields \<Rightarrow> string \<Rightarrow> bool" where
  "has_own fs name = (map_of fs (js name) \<noteq> None)"

text \<open>An object literal: own data properties, in order.\<close>

definition object_literal :: "(string \<times> js_value) list \<Rightarrow> js_value" where
  "object_literal fs = JObject (map (\<lambda>(n, v). (PName (js n), Data_prop v)) fs)"

text \<open>Reading a property of a value that came out of \<open>JSON.parse\<close>.\<close>

fun data_fields :: "(prop_key \<times> js_value js_prop) list \<Rightarrow> js_fields" where
  "data_fields [] = []"
| "data_fields ((PName n, Data_prop v) # ps) = (n, v) # data_fields ps"
| "data_fields (_ # ps) = data_fields ps"

fun get_prop :: "js_value \<Rightarrow> string \<Rightarrow> js_value" where
  "get_prop (JObject ps) name = field (data_fields ps) name"
| "get_prop _ name = JUndefined"

section \<open>ASCII text\<close>

definition ascii_unit :: "code_unit \<Rightarrow> bool" where
  "ascii_unit u \<longleftrightarrow> u < 128"

lemma ascii_encode:
  assumes "list_all ascii_unit s"
  shows "text_encode s = map ucast s"
proof -
  from assms have "scalars s = map unat s"
    by (induction s rule: scalars.induct)
      (auto simp: ascii_unit_def is_lead_def is_trail_def word_less_nat_alt word_le_nat_alt)
  moreover have "utf8_scalar (unat u) = [ucast u]" if "u \<in> set s" for u
    using that assms by (auto simp: list_all_iff ascii_unit_def utf8_scalar_def word_less_nat_alt)
  ultimately show ?thesis
    by (simp add: text_encode_def comp_def cong: map_cong)
qed

lemma ascii_encode_length: "list_all ascii_unit s \<Longrightarrow> length (text_encode s) = length s"
  by (simp add: ascii_encode)

lemma digit_ascii: "is_digit u \<Longrightarrow> ascii_unit u"
  by (auto simp: is_digit_def ascii_unit_def word_less_nat_alt word_le_nat_alt)

lemma ascii_dec_nat: "list_all ascii_unit (dec_nat n)"
  using dec_nat_digits [of n] by (auto simp: list_all_iff intro: digit_ascii)

end
