(* ===== verification/Lock_Key.thy ===== *)
theory Lock_Key
  imports Js_Values
begin

text \<open>
  \<open>src/ts/src/key.ts\<close>: the lock-key contract and the derivation of the PostgreSQL advisory
  key. \<open>lockKey\<close> is the validator every boundary uses; \<open>fnv1a64\<close> is the hash over big
  integers as the source computes it, and it is shown to be FNV-1a on 64-bit words.
\<close>

unbundle bit_operations_syntax

section \<open>Definitions\<close>

definition MAX_LOCK_KEY_BYTES :: nat where
  "MAX_LOCK_KEY_BYTES = 512"

datatype key_error =
    Key_not_string
  | Key_empty
  | Key_untrimmed
  | Key_control_byte
  | Key_too_long nat

definition requireKeyString :: "js_value \<Rightarrow> key_error + js_string" where
  "requireKeyString key = (case key of JString s \<Rightarrow> Inr s | _ \<Rightarrow> Inl Key_not_string)"

text \<open>The character class \<open>[\0-\x1f\x7f]\<close>.\<close>

definition control_unit :: "code_unit \<Rightarrow> bool" where
  "control_unit u = (u \<le> 0x1F \<or> u = 0x7F)"

definition lockKey :: "js_value \<Rightarrow> key_error + js_string" where
  "lockKey key =
     and_then (requireKeyString key) (\<lambda>s.
     and_then (require (length s \<noteq> 0) Key_empty) (\<lambda>_.
     and_then (require (js_trim s = s) Key_untrimmed) (\<lambda>_.
     and_then (require (\<not> list_ex control_unit s) Key_control_byte) (\<lambda>_.
     let bytes = length (text_encode s) in
     and_then (require (bytes \<le> MAX_LOCK_KEY_BYTES) (Key_too_long bytes)) (\<lambda>_.
     Inr s)))))"

definition FNV_OFFSET_BASIS :: int where
  "FNV_OFFSET_BASIS = 0xcbf29ce484222325"

definition FNV_PRIME :: int where
  "FNV_PRIME = 0x100000001b3"

definition MASK64 :: int where
  "MASK64 = 2 ^ 64 - 1"

fun fnv_loop :: "int \<Rightarrow> byte list \<Rightarrow> int" where
  "fnv_loop hash [] = hash"
| "fnv_loop hash (b # bs) = fnv_loop (((hash XOR uint b) * FNV_PRIME) AND MASK64) bs"

definition fnv1a64 :: "js_value \<Rightarrow> key_error + int" where
  "fnv1a64 key = and_then (requireKeyString key) (\<lambda>s. Inr (fnv_loop FNV_OFFSET_BASIS (text_encode s)))"

text \<open>\<open>BigInt.asIntN(64, x)\<close>.\<close>

definition as_int_64 :: "int \<Rightarrow> int" where
  "as_int_64 x = signed_take_bit 63 x"

definition advisoryKey :: "js_value \<Rightarrow> key_error + int" where
  "advisoryKey key = and_then (fnv1a64 key) (\<lambda>h. Inr (as_int_64 h))"

text \<open>
  The advisory key of a lock key as the drivers receive it, \<open>advisoryKey(key).toString()\<close>.
\<close>

definition advisory_text :: "js_string \<Rightarrow> js_string" where
  "advisory_text key = (case advisoryKey (JString key) of Inl _ \<Rightarrow> [] | Inr i \<Rightarrow> dec_int i)"

text \<open>The reference: FNV-1a over 64-bit words.\<close>

definition fnv_word :: "byte list \<Rightarrow> 64 word" where
  "fnv_word bs = foldl (\<lambda>h b. (h XOR ucast b) * 0x100000001b3) 0xcbf29ce484222325 bs"

text \<open>The contract of a valid key, stated without the order of the checks.\<close>

definition valid_lock_key :: "js_string \<Rightarrow> bool" where
  "valid_lock_key s =
     (s \<noteq> [] \<and> js_trim s = s \<and> (\<forall>u \<in> set s. \<not> control_unit u) \<and>
      length (text_encode s) \<le> MAX_LOCK_KEY_BYTES)"

section \<open>The validator\<close>

lemma requireKeyString_simps [simp]:
  "requireKeyString (JString s) = Inr s"
  "requireKeyString v = Inr s \<longleftrightarrow> v = JString s"
  by (cases v; simp add: requireKeyString_def)+

lemma lockKey_ok_iff: "lockKey v = Inr s \<longleftrightarrow> v = JString s \<and> valid_lock_key s"
  by (auto simp: lockKey_def valid_lock_key_def and_then_eq_Inr Let_def list_ex_iff)

lemma lockKey_valid [simp]: "valid_lock_key s \<Longrightarrow> lockKey (JString s) = Inr s"
  by (simp add: lockKey_ok_iff)

lemma valid_lock_key_nonempty: "valid_lock_key s \<Longrightarrow> s \<noteq> []"
  by (simp add: valid_lock_key_def)

text \<open>The NUL unit never occurs in a valid key, which makes it a safe separator.\<close>

lemma valid_lock_key_no_nul: "valid_lock_key s \<Longrightarrow> 0 \<notin> set s"
  by (auto simp: valid_lock_key_def control_unit_def)

section \<open>The hash\<close>

lemma mask64_take_bit: "x AND MASK64 = take_bit 64 x"
  by (simp add: MASK64_def take_bit_eq_mask mask_eq_exp_minus_1)

lemma fnv_step_word:
  assumes "hash = uint (h :: 64 word)"
  shows "((hash XOR uint b) * FNV_PRIME) AND MASK64 = uint ((h XOR ucast (b :: byte)) * 0x100000001b3)"
proof -
  have b: "take_bit 64 (uint b) = uint b"
    using uint_lt2p [of b] by (intro take_bit_int_eq_self) simp_all
  have "uint (h XOR ucast b) = uint h XOR uint b"
    by (simp add: unsigned_xor_eq unsigned_ucast_eq b)
  then show ?thesis
    by (simp add: assms mask64_take_bit uint_word_ariths(3) FNV_PRIME_def take_bit_eq_mod)
qed

lemma fnv_loop_word:
  "fnv_loop (uint h) bs = uint (foldl (\<lambda>h b. (h XOR ucast b) * 0x100000001b3) (h :: 64 word) bs)"
  by (induction bs arbitrary: h) (simp_all add: fnv_step_word [OF refl])

lemma fnv_basis: "FNV_OFFSET_BASIS = uint (0xcbf29ce484222325 :: 64 word)"
  by (simp add: FNV_OFFSET_BASIS_def)

lemma fnv_loop_eq_word: "fnv_loop FNV_OFFSET_BASIS bs = uint (fnv_word bs)"
  unfolding fnv_basis fnv_loop_word fnv_word_def ..

lemma as_int_64_uint: "as_int_64 (uint w) = sint (w :: 64 word)"
  by (simp add: as_int_64_def signed_take_bit_eq_take_bit_minus sint_uint)

lemma advisoryKey_string [simp]: "advisoryKey (JString s) = Inr (sint (fnv_word (text_encode s)))"
  by (simp add: advisoryKey_def fnv1a64_def fnv_loop_eq_word as_int_64_uint)

section \<open>Properties\<close>

text \<open>
  \<open>lockKey\<close> returns a key exactly when it is given a string that is non-empty, equal to
  its own trim, free of ASCII control units and at most 512 bytes in UTF-8, and then it returns
  that string unchanged; every other value, strings or not, is refused.
\<close>

theorem lockKey_accepts_exactly_contract:
  "lockKey v = Inr s \<longleftrightarrow>
     v = JString s \<and> s \<noteq> [] \<and> js_trim s = s \<and> \<not> list_ex control_unit s \<and>
     length (text_encode s) \<le> 512"
  by (auto simp: lockKey_ok_iff valid_lock_key_def MAX_LOCK_KEY_BYTES_def list_ex_iff)

text \<open>
  C30: the big-integer loop of \<open>fnv1a64\<close> computes FNV-1a on 64-bit words over the UTF-8 bytes of
  the key, and \<open>advisoryKey\<close> is that word read as a two's-complement 64-bit integer, so it is
  always a PostgreSQL \<open>bigint\<close>; the last two conjuncts are vectors of
  \<open>conformance/cases/advisory-key.json\<close>.
\<close>

theorem advisoryKey_is_fnv1a_signed:
  "advisoryKey (JString s) = Inr (sint (fnv_word (text_encode s))) \<and>
   fnv1a64 (JString s) = Inr (uint (fnv_word (text_encode s))) \<and>
   - (2 ^ 63) \<le> sint (fnv_word (text_encode s)) \<and> sint (fnv_word (text_encode s)) < 2 ^ 63 \<and>
   advisoryKey (JString (js [])) = Inr (- 3750763034362895579) \<and>
   advisoryKey (JString (js ''a'')) = Inr (- 5808556873153909620)"
proof -
  have "advisoryKey (JString (js [])) = Inr (- 3750763034362895579)"
    by (simp add: fnv_word_def text_encode_def js_simps)
  moreover have "advisoryKey (JString (js ''a'')) = Inr (- 5808556873153909620)"
    by (simp add: fnv_word_def text_encode_def utf8_scalar_def is_lead_def is_trail_def js_simps)
  ultimately show ?thesis
    using sint_ge [of "fnv_word (text_encode s)"] sint_lt [of "fnv_word (text_encode s)"]
    by (simp add: fnv1a64_def fnv_loop_eq_word)
qed

end
