(* ===== verification/Fence.thy ===== *)
theory Fence
  imports Lock_Key
begin

text \<open>
  \<open>src/ts/src/fence.ts\<close>: fencing-token text, validation of an untrusted fenced write request,
  and the pure decision a datastore takes against its watermark. \<open>fence_admit\<close> is the use the
  module prescribes for its own functions: evaluate, and on \<open>advanced\<close> persist
  \<open>watermarkFromRequest\<close> together with the mutation. The locale \<open>watermark_store\<close> states
  what an admission step promises; the facts about whole histories are proved there once.
\<close>

section \<open>Definitions\<close>

subsection \<open>Tokens\<close>

definition MAX_FENCING_TOKEN :: int where
  "MAX_FENCING_TOKEN = 18446744073709551615"

definition MAX_FENCING_TOKEN_TEXT :: js_string where
  "MAX_FENCING_TOKEN_TEXT = js ''18446744073709551615''"

definition MAX_TENANT_SCOPE_BYTES :: nat where "MAX_TENANT_SCOPE_BYTES = 256"
definition MAX_OPERATION_ID_BYTES :: nat where "MAX_OPERATION_ID_BYTES = 128"
definition MAX_FENCE_METADATA_BYTES :: nat where "MAX_FENCE_METADATA_BYTES = 256"

definition FENCED_WRITE_FIELDS :: "js_string list" where
  "FENCED_WRITE_FIELDS = map js
     [''tenantScope'', ''resourceKey'', ''fencingToken'', ''operationId'', ''payloadSha256'',
      ''holder'', ''leaseId'']"

datatype fence_code =
    Empty_field
  | Too_long
  | Invalid_type
  | Unexpected_field
  | Invalid_fencing_token
  | Invalid_payload_sha256
  | Identity_mismatch

text \<open>A \<open>FenceValidationError\<close>, or the \<open>RangeError\<close> that \<open>lockKey\<close> throws.\<close>

datatype fence_error =
    FenceValidationError fence_code "js_string option"
  | Fence_key_error key_error

abbreviation token_error :: fence_error where
  "token_error \<equiv> FenceValidationError Invalid_fencing_token (Some (js ''fencingToken''))"

text \<open>\<open>/^(0|[1-9][0-9]{0,19})$/\<close>\<close>

definition canonical_token :: "js_string \<Rightarrow> bool" where
  "canonical_token s = (s = [48] \<or> (positive_decimal s \<and> length s \<le> 20))"

definition fencingTokenText :: "js_value \<Rightarrow> fence_error + js_string" where
  "fencingTokenText v =
     (case v of
        JBigInt i \<Rightarrow>
          and_then (require (\<not> (i < 0 \<or> i > MAX_FENCING_TOKEN)) token_error) (\<lambda>_. Inr (dec_int i))
      | JString s \<Rightarrow>
          and_then (require (canonical_token s) token_error) (\<lambda>_.
          let parsed = int (parse_dec s) in
          and_then (require (\<not> (parsed > MAX_FENCING_TOKEN \<or> dec_int parsed \<noteq> s)) token_error) (\<lambda>_.
          Inr s))
      | _ \<Rightarrow> Inl token_error)"

definition fencingTokenValue :: "js_string \<Rightarrow> fence_error + int" where
  "fencingTokenValue s = and_then (fencingTokenText (JString s)) (\<lambda>t. Inr (int (parse_dec t)))"

subsection \<open>Requests\<close>

record fenced_write_request =
  fw_tenantScope :: js_string
  fw_resourceKey :: js_string
  fw_fencingToken :: js_string
  fw_operationId :: js_string
  fw_payloadSha256 :: js_string
  fw_holder :: "js_string option"
  fw_leaseId :: "js_string option"

fun request_snapshot :: "(prop_key \<times> js_value js_prop) list \<Rightarrow> js_fields \<Rightarrow> fence_error + js_fields" where
  "request_snapshot [] snapshot = Inr snapshot"
| "request_snapshot ((PSymbol _, _) # ps) snapshot = request_snapshot ps snapshot"
| "request_snapshot ((PName key, descriptor) # ps) snapshot =
     (if key \<notin> set FENCED_WRITE_FIELDS
      then Inl (FenceValidationError Unexpected_field (Some key))
      else case descriptor of
             Accessor_prop \<Rightarrow> Inl (FenceValidationError Invalid_type (Some key))
           | Data_prop v \<Rightarrow> request_snapshot ps (snapshot @ [(key, v)]))"

definition requestRecord :: "js_value \<Rightarrow> fence_error + js_fields" where
  "requestRecord v =
     (case v of
        JObject ps \<Rightarrow> request_snapshot ps []
      | _ \<Rightarrow> Inl (FenceValidationError Invalid_type None))"

definition validateField :: "string \<Rightarrow> js_value \<Rightarrow> nat \<Rightarrow> fence_error + js_string" where
  "validateField fieldname v maxb =
     (case v of
        JString s \<Rightarrow>
          and_then (require (length s \<noteq> 0) (FenceValidationError Empty_field (Some (js fieldname)))) (\<lambda>_.
          and_then (require (\<not> length (text_encode s) > maxb)
                      (FenceValidationError Too_long (Some (js fieldname)))) (\<lambda>_.
          Inr s))
      | _ \<Rightarrow> Inl (FenceValidationError Invalid_type (Some (js fieldname))))"

definition validateOptionalField :: "string \<Rightarrow> js_value \<Rightarrow> nat \<Rightarrow> fence_error + js_string option" where
  "validateOptionalField fieldname v maxb =
     (if v = JUndefined then Inr None
      else and_then (validateField fieldname v maxb) (\<lambda>s. Inr (Some s)))"

text \<open>\<open>/^[0-9a-f]{64}$/\<close>\<close>

definition lower_hex :: "code_unit \<Rightarrow> bool" where
  "lower_hex u = (is_digit u \<or> (97 \<le> u \<and> u \<le> 102))"

definition lower_sha256 :: "js_string \<Rightarrow> bool" where
  "lower_sha256 s = (length s = 64 \<and> list_all lower_hex s)"

definition payload_field :: "js_value \<Rightarrow> fence_error + js_string" where
  "payload_field v =
     (case v of
        JString s \<Rightarrow>
          and_then (require (lower_sha256 s)
             (FenceValidationError Invalid_payload_sha256 (Some (js ''payloadSha256'')))) (\<lambda>_. Inr s)
      | _ \<Rightarrow> Inl (FenceValidationError Invalid_payload_sha256 (Some (js ''payloadSha256''))))"

definition string_or_bigint :: "js_value \<Rightarrow> bool" where
  "string_or_bigint v = (case v of JString _ \<Rightarrow> True | JBigInt _ \<Rightarrow> True | _ \<Rightarrow> False)"

definition fencedWriteRequest :: "js_value \<Rightarrow> fence_error + fenced_write_request" where
  "fencedWriteRequest input =
     and_then (requestRecord input) (\<lambda>record.
     and_then (validateField ''tenantScope'' (field record ''tenantScope'') MAX_TENANT_SCOPE_BYTES) (\<lambda>tenantScope.
     and_then (validateField ''resourceKey'' (field record ''resourceKey'') MAX_LOCK_KEY_BYTES) (\<lambda>resourceKey.
     and_then (validateField ''operationId'' (field record ''operationId'') MAX_OPERATION_ID_BYTES) (\<lambda>operationId.
     and_then (validateOptionalField ''holder'' (field record ''holder'') MAX_FENCE_METADATA_BYTES) (\<lambda>holder.
     and_then (validateOptionalField ''leaseId'' (field record ''leaseId'') MAX_FENCE_METADATA_BYTES) (\<lambda>leaseId.
     and_then (payload_field (field record ''payloadSha256'')) (\<lambda>payloadSha256.
     and_then (require (string_or_bigint (field record ''fencingToken'')) token_error) (\<lambda>_.
     and_then (catch_map Fence_key_error (lockKey (JString resourceKey))) (\<lambda>key.
     and_then (fencingTokenText (field record ''fencingToken'')) (\<lambda>token.
     Inr \<lparr>fw_tenantScope = tenantScope, fw_resourceKey = key, fw_fencingToken = token,
          fw_operationId = operationId, fw_payloadSha256 = payloadSha256,
          fw_holder = holder, fw_leaseId = leaseId\<rparr>))))))))))"

definition fenceWatermark :: "js_value \<Rightarrow> fence_error + fenced_write_request" where
  "fenceWatermark input = fencedWriteRequest input"

text \<open>A validated request as the object the code passes on.\<close>

definition optional_prop :: "string \<Rightarrow> js_string option \<Rightarrow> (string \<times> js_value) list" where
  "optional_prop name v = (case v of None \<Rightarrow> [] | Some s \<Rightarrow> [(name, JString s)])"

definition request_object :: "fenced_write_request \<Rightarrow> js_value" where
  "request_object r = object_literal
     ([(''tenantScope'', JString (fw_tenantScope r)), (''resourceKey'', JString (fw_resourceKey r)),
       (''fencingToken'', JString (fw_fencingToken r)), (''operationId'', JString (fw_operationId r)),
       (''payloadSha256'', JString (fw_payloadSha256 r))]
      @ optional_prop ''holder'' (fw_holder r) @ optional_prop ''leaseId'' (fw_leaseId r))"

definition watermarkFromRequest :: "fenced_write_request \<Rightarrow> fence_error + fenced_write_request" where
  "watermarkFromRequest request = fencedWriteRequest (request_object request)"

subsection \<open>Decision\<close>

datatype fence_decision_kind = Advanced | Replay | Stale | Token_reuse

record fence_decision =
  fd_kind :: fence_decision_kind
  fd_shouldApply :: bool
  fd_incomingToken :: js_string
  fd_currentToken :: js_string
  fd_previousToken :: "js_string option"

definition evaluateFence :: "js_value \<Rightarrow> js_value \<Rightarrow> fence_error + fence_decision" where
  "evaluateFence current incoming =
     and_then (fencedWriteRequest incoming) (\<lambda>inc.
     if current = JNull then
       Inr \<lparr>fd_kind = Advanced, fd_shouldApply = True, fd_incomingToken = fw_fencingToken inc,
            fd_currentToken = fw_fencingToken inc, fd_previousToken = None\<rparr>
     else
       and_then (fenceWatermark current) (\<lambda>cur.
       and_then (require (\<not> (fw_tenantScope cur \<noteq> fw_tenantScope inc \<or> fw_resourceKey cur \<noteq> fw_resourceKey inc))
                   (FenceValidationError Identity_mismatch None)) (\<lambda>_.
       and_then (fencingTokenValue (fw_fencingToken inc)) (\<lambda>incomingValue.
       and_then (fencingTokenValue (fw_fencingToken cur)) (\<lambda>currentValue.
       if incomingValue > currentValue then
         Inr \<lparr>fd_kind = Advanced, fd_shouldApply = True, fd_incomingToken = fw_fencingToken inc,
              fd_currentToken = fw_fencingToken inc, fd_previousToken = Some (fw_fencingToken cur)\<rparr>
       else if incomingValue < currentValue then
         Inr \<lparr>fd_kind = Stale, fd_shouldApply = False, fd_incomingToken = fw_fencingToken inc,
              fd_currentToken = fw_fencingToken cur, fd_previousToken = Some (fw_fencingToken cur)\<rparr>
       else
         Inr \<lparr>fd_kind = (if fw_operationId cur = fw_operationId inc \<and>
                             fw_payloadSha256 cur = fw_payloadSha256 inc then Replay else Token_reuse),
              fd_shouldApply = False, fd_incomingToken = fw_fencingToken inc,
              fd_currentToken = fw_fencingToken cur, fd_previousToken = Some (fw_fencingToken cur)\<rparr>)))))"

text \<open>
  A store that keeps one watermark and the mutations it performed, used as the module's comments
  prescribe: the watermark of an \<open>advanced\<close> decision and the mutation are written in one step.
\<close>

record fence_store =
  fs_watermark :: "fenced_write_request option"
  fs_applied :: "fenced_write_request list"

definition watermark_value :: "fence_store \<Rightarrow> js_value" where
  "watermark_value st = (case fs_watermark st of None \<Rightarrow> JNull | Some w \<Rightarrow> request_object w)"

definition fence_admit :: "fence_store \<Rightarrow> js_value \<Rightarrow> (fence_error + fence_decision) \<times> fence_store" where
  "fence_admit st incoming =
     (case evaluateFence (watermark_value st) incoming of
        Inl e \<Rightarrow> (Inl e, st)
      | Inr d \<Rightarrow>
          if fd_shouldApply d then
            (case and_then (fencedWriteRequest incoming) watermarkFromRequest of
               Inl e \<Rightarrow> (Inl e, st)
             | Inr w \<Rightarrow> (Inr d, st\<lparr>fs_watermark := Some w, fs_applied := fs_applied st @ [w]\<rparr>))
          else (Inr d, st))"

definition empty_store :: fence_store where
  "empty_store = \<lparr>fs_watermark = None, fs_applied = []\<rparr>"

fun fence_run :: "fence_store \<Rightarrow> js_value list \<Rightarrow> fence_store" where
  "fence_run st [] = st"
| "fence_run st (v # vs) = fence_run (snd (fence_admit st v)) vs"

text \<open>What the validator guarantees of a request.\<close>

definition bounded_text :: "nat \<Rightarrow> js_string \<Rightarrow> bool" where
  "bounded_text n s = (s \<noteq> [] \<and> length (text_encode s) \<le> n)"

definition token_text :: "js_string \<Rightarrow> bool" where
  "token_text s = (canonical_decimal s \<and> int (parse_dec s) \<le> MAX_FENCING_TOKEN)"

definition valid_request :: "fenced_write_request \<Rightarrow> bool" where
  "valid_request r =
     (bounded_text MAX_TENANT_SCOPE_BYTES (fw_tenantScope r) \<and> valid_lock_key (fw_resourceKey r) \<and>
      token_text (fw_fencingToken r) \<and> bounded_text MAX_OPERATION_ID_BYTES (fw_operationId r) \<and>
      lower_sha256 (fw_payloadSha256 r) \<and>
      pred_option (bounded_text MAX_FENCE_METADATA_BYTES) (fw_holder r) \<and>
      pred_option (bounded_text MAX_FENCE_METADATA_BYTES) (fw_leaseId r))"

definition token_value :: "fenced_write_request \<Rightarrow> nat" where
  "token_value r = parse_dec (fw_fencingToken r)"

definition same_identity :: "fenced_write_request \<Rightarrow> fenced_write_request \<Rightarrow> bool" where
  "same_identity a b = (fw_tenantScope a = fw_tenantScope b \<and> fw_resourceKey a = fw_resourceKey b)"

definition same_mutation :: "fenced_write_request \<Rightarrow> fenced_write_request \<Rightarrow> bool" where
  "same_mutation a b = (fw_operationId a = fw_operationId b \<and> fw_payloadSha256 a = fw_payloadSha256 b)"

definition decide_kind :: "fenced_write_request \<Rightarrow> fenced_write_request \<Rightarrow> fence_decision_kind" where
  "decide_kind w r =
     (if token_value w < token_value r then Advanced
      else if token_value r < token_value w then Stale
      else if same_mutation w r then Replay else Token_reuse)"

section \<open>Token lemmas\<close>

lemma dec_int_of_nat [simp]: "dec_int (int n) = dec_nat n"
  by (simp add: dec_int_def)

lemma dec_nat_length_mono: "m \<le> n \<Longrightarrow> length (dec_nat m) \<le> length (dec_nat n)"
proof (induction n arbitrary: m rule: dec_nat.induct)
  case (1 n)
  show ?case
  proof (cases "n < 10")
    case True
    with "1.prems" show ?thesis by (simp add: dec_nat.simps [of m] dec_nat.simps [of n])
  next
    case False
    then have "length (dec_nat n) = Suc (length (dec_nat (n div 10)))"
      by (simp add: dec_nat.simps [of n])
    moreover have "length (dec_nat m) \<le> Suc (length (dec_nat (n div 10)))"
    proof (cases "m < 10")
      case True
      then show ?thesis by (simp add: dec_nat.simps [of m])
    next
      case m: False
      have "length (dec_nat (m div 10)) \<le> length (dec_nat (n div 10))"
        using False "1.prems" by (intro "1.IH") (auto intro: div_le_mono)
      with m show ?thesis by (simp add: dec_nat.simps [of m])
    qed
    ultimately show ?thesis by simp
  qed
qed

lemma max_token_length: "length (dec_nat 18446744073709551615) = 20"
  by (simp add: dec_nat.simps)

lemma token_text_iff:
  "token_text s \<longleftrightarrow> (\<exists>n. s = dec_nat n \<and> int n \<le> MAX_FENCING_TOKEN)"
  by (auto simp: token_text_def canonical_decimal_iff)

lemma token_text_length: "token_text s \<Longrightarrow> length s \<le> 20"
  using dec_nat_length_mono [of _ 18446744073709551615] max_token_length
  by (auto simp: token_text_iff MAX_FENCING_TOKEN_def)

lemma fencingTokenText_string:
  "fencingTokenText (JString s) = (if token_text s then Inr s else Inl token_error)"
proof (cases "token_text s")
  case True
  then have "canonical_token s"
    using token_text_length [OF True] by (auto simp: canonical_token_def token_text_def canonical_decimal_def)
  with True show ?thesis
    by (simp add: fencingTokenText_def token_text_def canonical_decimal_parse Let_def)
next
  case False
  then show ?thesis
    by (auto simp: fencingTokenText_def token_text_def canonical_token_def canonical_decimal_def
        Let_def require_def)
qed

lemma fencingTokenText_bigint:
  "fencingTokenText (JBigInt i) =
     (if 0 \<le> i \<and> i \<le> MAX_FENCING_TOKEN then Inr (dec_nat (nat i)) else Inl token_error)"
  by (auto simp: fencingTokenText_def dec_int_def)

lemma fencingTokenText_token_text: "fencingTokenText v = Inr s \<Longrightarrow> token_text s"
  by (cases v)
    (auto simp: fencingTokenText_string fencingTokenText_bigint token_text_iff nat_le_iff
      intro!: exI [where x = "nat _"] split: if_splits, auto simp: fencingTokenText_def)

lemma fencingTokenValue_token [simp]:
  "token_text s \<Longrightarrow> fencingTokenValue s = Inr (int (parse_dec s))"
  by (simp add: fencingTokenValue_def fencingTokenText_string)

section \<open>Request lemmas\<close>

lemma validateField_ok_iff:
  "validateField f v n = Inr s \<longleftrightarrow> v = JString s \<and> bounded_text n s"
  by (cases v) (auto simp: validateField_def bounded_text_def and_then_eq_Inr)

lemma validateOptionalField_ok_iff:
  "validateOptionalField f v n = Inr x \<longleftrightarrow>
     (case x of None \<Rightarrow> v = JUndefined | Some s \<Rightarrow> v = JString s \<and> bounded_text n s)"
  by (auto simp: validateOptionalField_def and_then_eq_Inr validateField_ok_iff split: option.splits)

lemma payload_field_ok_iff: "payload_field v = Inr s \<longleftrightarrow> v = JString s \<and> lower_sha256 s"
  by (cases v) (auto simp: payload_field_def and_then_eq_Inr)

lemmas request_flow =
  and_then_eq_Inr validateField_ok_iff validateOptionalField_ok_iff payload_field_ok_iff lockKey_ok_iff

lemma request_field_simps [simp]:
  "bounded_text n s \<Longrightarrow> validateField f (JString s) n = Inr s"
  "bounded_text n s \<Longrightarrow> validateOptionalField f (JString s) n = Inr (Some s)"
  "validateOptionalField f JUndefined n = Inr None"
  "lower_sha256 s \<Longrightarrow> payload_field (JString s) = Inr s"
  by (simp_all add: validateField_ok_iff validateOptionalField_ok_iff payload_field_ok_iff)

lemma optional_field_bounded:
  "validateOptionalField f v n = Inr x \<Longrightarrow> pred_option (bounded_text n) x"
  by (auto simp: validateOptionalField_ok_iff split: option.splits)

lemma fencedWriteRequest_valid:
  assumes "fencedWriteRequest v = Inr r"
  shows "valid_request r"
proof -
  from assms obtain fields tenantScope resourceKey operationId holder leaseId payload token key where
    "validateField ''tenantScope'' (field fields ''tenantScope'') MAX_TENANT_SCOPE_BYTES = Inr tenantScope"
    "validateField ''operationId'' (field fields ''operationId'') MAX_OPERATION_ID_BYTES = Inr operationId"
    "validateOptionalField ''holder'' (field fields ''holder'') MAX_FENCE_METADATA_BYTES = Inr holder"
    "validateOptionalField ''leaseId'' (field fields ''leaseId'') MAX_FENCE_METADATA_BYTES = Inr leaseId"
    "payload_field (field fields ''payloadSha256'') = Inr payload"
    "lockKey (JString resourceKey) = Inr key"
    "fencingTokenText (field fields ''fencingToken'') = Inr token"
    "\<lparr>fw_tenantScope = tenantScope, fw_resourceKey = key, fw_fencingToken = token,
          fw_operationId = operationId, fw_payloadSha256 = payload,
          fw_holder = holder, fw_leaseId = leaseId\<rparr> = r"
    unfolding fencedWriteRequest_def and_then_eq_Inr catch_map_eq sum.inject
    by (elim exE conjE) (rule that; assumption)
  then show ?thesis
    by (auto simp: valid_request_def validateField_ok_iff payload_field_ok_iff lockKey_ok_iff
        optional_field_bounded fencingTokenText_token_text)
qed

lemma bounded_valid_lock_key: "valid_lock_key s \<Longrightarrow> bounded_text MAX_LOCK_KEY_BYTES s"
  by (simp add: valid_lock_key_def bounded_text_def)

text \<open>An object built from a validated request passes the property scan unchanged.\<close>

lemma request_snapshot_literal:
  assumes "set (map fst fs) \<subseteq> {''tenantScope'', ''resourceKey'', ''fencingToken'', ''operationId'',
      ''payloadSha256'', ''holder'', ''leaseId''}"
  shows "request_snapshot (map (\<lambda>(n, v). (PName (js n), Data_prop v)) fs) acc =
      Inr (acc @ map (\<lambda>(n, v). (js n, v)) fs)"
  using assms
proof (induction fs arbitrary: acc)
  case (Cons f fs)
  then have "js (fst f) \<in> set FENCED_WRITE_FIELDS" by (auto simp: FENCED_WRITE_FIELDS_def)
  with Cons show ?case by (cases f) auto
qed simp

lemma requestRecord_object:
  "requestRecord (request_object r) =
     Inr (map (\<lambda>(n, v). (js n, v))
       ([(''tenantScope'', JString (fw_tenantScope r)), (''resourceKey'', JString (fw_resourceKey r)),
         (''fencingToken'', JString (fw_fencingToken r)), (''operationId'', JString (fw_operationId r)),
         (''payloadSha256'', JString (fw_payloadSha256 r))]
        @ optional_prop ''holder'' (fw_holder r) @ optional_prop ''leaseId'' (fw_leaseId r)))"
  unfolding requestRecord_def request_object_def object_literal_def js_value.case
  by (subst request_snapshot_literal) (auto simp: optional_prop_def split: option.splits)

lemma fencedWriteRequest_object:
  assumes "valid_request r"
  shows "fencedWriteRequest (request_object r) = Inr r"
  using assms bounded_valid_lock_key [of "fw_resourceKey r"]
  by (cases "fw_holder r"; cases "fw_leaseId r")
    (simp_all add: fencedWriteRequest_def requestRecord_object optional_prop_def field_def
      valid_request_def string_or_bigint_def fencingTokenText_string)

lemma request_object_not_null [simp]: "request_object r \<noteq> JNull"
  by (simp add: request_object_def object_literal_def)

lemma valid_request_token: "valid_request r \<Longrightarrow> token_text (fw_fencingToken r)"
  by (simp add: valid_request_def)

text \<open>The decision on validated inputs, by the comparison of the token values.\<close>

lemma evaluateFence_first:
  "fencedWriteRequest v = Inr r \<Longrightarrow>
   evaluateFence JNull v =
     Inr \<lparr>fd_kind = Advanced, fd_shouldApply = True, fd_incomingToken = fw_fencingToken r,
          fd_currentToken = fw_fencingToken r, fd_previousToken = None\<rparr>"
  by (simp add: evaluateFence_def)

lemma evaluateFence_compare:
  assumes "current \<noteq> JNull" and "fencedWriteRequest current = Inr w" and "fencedWriteRequest v = Inr r"
  shows "evaluateFence current v =
    (if same_identity w r
     then Inr \<lparr>fd_kind = decide_kind w r, fd_shouldApply = (decide_kind w r = Advanced),
               fd_incomingToken = fw_fencingToken r,
               fd_currentToken = (if decide_kind w r = Advanced then fw_fencingToken r else fw_fencingToken w),
               fd_previousToken = Some (fw_fencingToken w)\<rparr>
     else Inl (FenceValidationError Identity_mismatch None))"
  using valid_request_token [OF fencedWriteRequest_valid [OF assms(2)]]
    valid_request_token [OF fencedWriteRequest_valid [OF assms(3)]]
  by (auto simp: evaluateFence_def assms fenceWatermark_def same_identity_def decide_kind_def
      same_mutation_def token_value_def require_def)

lemmas evaluateFence_valid = evaluateFence_compare [OF request_object_not_null fencedWriteRequest_object]

section \<open>Admission over a history\<close>

text \<open>
  What a fencing store promises of one admission step. \<open>mark\<close> is the token of its watermark,
  \<open>req_token\<close> the token of a request (if it has one).
\<close>

locale watermark_store =
  fixes admit :: "'s \<Rightarrow> 'r \<Rightarrow> bool \<times> 's"
    and mark :: "'s \<Rightarrow> nat option"
    and req_token :: "'r \<Rightarrow> nat option"
    and invar :: "'s \<Rightarrow> bool"
  assumes invar_admit: "invar s \<Longrightarrow> invar (snd (admit s r))"
    and admitted_advances:
      "invar s \<Longrightarrow> fst (admit s r) \<Longrightarrow>
         \<exists>t. req_token r = Some t \<and> mark (snd (admit s r)) = Some t \<and> (\<forall>m. mark s = Some m \<longrightarrow> m < t)"
    and refused_keeps: "invar s \<Longrightarrow> \<not> fst (admit s r) \<Longrightarrow> mark (snd (admit s r)) = mark s"
begin

fun run_store :: "'s \<Rightarrow> 'r list \<Rightarrow> 's" where
  "run_store s [] = s"
| "run_store s (r # rs) = run_store (snd (admit s r)) rs"

fun admitted :: "'s \<Rightarrow> 'r list \<Rightarrow> 'r list" where
  "admitted s [] = []"
| "admitted s (r # rs) = (if fst (admit s r) then [r] else []) @ admitted (snd (admit s r)) rs"

lemma run_store_invar: "invar s \<Longrightarrow> invar (run_store s rs)"
  by (induction rs arbitrary: s) (auto intro: invar_admit)

lemma admitted_above_mark:
  "invar s \<Longrightarrow> r \<in> set (admitted s rs) \<Longrightarrow>
     \<exists>t. req_token r = Some t \<and> (\<forall>m. mark s = Some m \<longrightarrow> m < t)"
proof (induction rs arbitrary: s)
  case (Cons q rs)
  note inv' = invar_admit [OF Cons.prems(1), of q]
  show ?case
  proof (cases "fst (admit s q)")
    case True
    then obtain t where t: "req_token q = Some t" "mark (snd (admit s q)) = Some t"
      "\<forall>m. mark s = Some m \<longrightarrow> m < t"
      using admitted_advances [OF Cons.prems(1)] by blast
    from Cons.prems(2) True consider "r = q" | "r \<in> set (admitted (snd (admit s q)) rs)" by auto
    then show ?thesis
    proof cases
      case 1
      with t show ?thesis by blast
    next
      case 2
      from Cons.IH [OF inv' 2] t show ?thesis by (metis order.strict_trans)
    qed
  next
    case False
    with Cons.IH [OF inv'] Cons.prems refused_keeps show ?thesis by simp
  qed
qed simp

lemma admitted_strictly_increasing:
  "invar s \<Longrightarrow> sorted_wrt (\<lambda>a b. \<exists>i j. req_token a = Some i \<and> req_token b = Some j \<and> i < j) (admitted s rs)"
proof (induction rs arbitrary: s)
  case (Cons q rs)
  note inv' = invar_admit [OF Cons.prems, of q]
  show ?case
  proof (cases "fst (admit s q)")
    case True
    then obtain t where t: "req_token q = Some t" "mark (snd (admit s q)) = Some t"
      using admitted_advances [OF Cons.prems] by blast
    have "\<exists>j. req_token b = Some j \<and> t < j" if "b \<in> set (admitted (snd (admit s q)) rs)" for b
      using admitted_above_mark [OF inv' that] t(2) by auto
    with True t Cons.IH [OF inv'] show ?thesis by auto
  next
    case False
    with Cons.IH [OF inv'] show ?thesis by simp
  qed
qed simp

lemma mark_never_regresses:
  "invar s \<Longrightarrow> mark s = Some m \<Longrightarrow> \<exists>n. mark (run_store s rs) = Some n \<and> m \<le> n"
proof (induction rs arbitrary: s m)
  case (Cons q rs)
  note inv' = invar_admit [OF Cons.prems(1), of q]
  show ?case
  proof (cases "fst (admit s q)")
    case True
    then obtain t where "mark (snd (admit s q)) = Some t" "m < t"
      using admitted_advances [OF Cons.prems(1)] Cons.prems(2) by blast
    with Cons.IH [OF inv'] show ?thesis by fastforce
  next
    case False
    with Cons.IH [OF inv'] Cons.prems refused_keeps show ?thesis by simp
  qed
qed simp

end

section \<open>The store implements the contract\<close>

definition store_admits :: "fence_store \<Rightarrow> js_value \<Rightarrow> bool \<times> fence_store" where
  "store_admits st v =
     (case fence_admit st v of (Inl e, st') \<Rightarrow> (False, st') | (Inr d, st') \<Rightarrow> (fd_shouldApply d, st'))"

definition store_mark :: "fence_store \<Rightarrow> nat option" where
  "store_mark st = map_option token_value (fs_watermark st)"

definition incoming_token :: "js_value \<Rightarrow> nat option" where
  "incoming_token v = (case fencedWriteRequest v of Inl e \<Rightarrow> None | Inr r \<Rightarrow> Some (token_value r))"

definition store_invar :: "fence_store \<Rightarrow> bool" where
  "store_invar st = (pred_option valid_request (fs_watermark st) \<and>
     fs_watermark st = (if fs_applied st = [] then None else Some (last (fs_applied st))))"

lemma watermarkFromRequest_valid [simp]: "valid_request r \<Longrightarrow> watermarkFromRequest r = Inr r"
  by (simp add: watermarkFromRequest_def fencedWriteRequest_object)

text \<open>One admission, by cases on the watermark and on the verdict of the validator.\<close>

lemma fence_admit_cases:
  assumes "pred_option valid_request (fs_watermark st)"
  shows "fence_admit st v =
    (case fencedWriteRequest v of
       Inl e \<Rightarrow> (Inl e, st)
     | Inr r \<Rightarrow>
         (case evaluateFence (watermark_value st) v of
            Inl e \<Rightarrow> (Inl e, st)
          | Inr d \<Rightarrow> (Inr d, if fd_shouldApply d
                           then st\<lparr>fs_watermark := Some r, fs_applied := fs_applied st @ [r]\<rparr> else st)))"
proof (cases "fencedWriteRequest v")
  case (Inl e)
  then show ?thesis by (simp add: fence_admit_def evaluateFence_def)
next
  case (Inr r)
  with fencedWriteRequest_valid [OF Inr] show ?thesis
    by (simp add: fence_admit_def split: sum.split)
qed

lemma evaluateFence_store:
  assumes "pred_option valid_request (fs_watermark st)" and "fencedWriteRequest v = Inr r"
    and "evaluateFence (watermark_value st) v = Inr d"
  shows "fd_shouldApply d \<longleftrightarrow> (\<forall>w. fs_watermark st = Some w \<longrightarrow> token_value w < token_value r)"
    and "fs_watermark st = Some w \<Longrightarrow> same_identity w r"
  using assms evaluateFence_first [OF assms(2)] evaluateFence_valid [OF _ assms(2)]
  by (auto simp: watermark_value_def decide_kind_def split: option.splits if_splits)

lemma store_invar_valid: "store_invar st \<Longrightarrow> pred_option valid_request (fs_watermark st)"
  unfolding store_invar_def by (rule conjunct1)

lemma store_admits_admitted:
  assumes "store_invar st" and "fst (store_admits st v)"
  obtains r where "fencedWriteRequest v = Inr r"
    and "snd (store_admits st v) = st\<lparr>fs_watermark := Some r, fs_applied := fs_applied st @ [r]\<rparr>"
    and "\<forall>w. fs_watermark st = Some w \<longrightarrow> token_value w < token_value r \<and> same_identity w r"
proof -
  note wm = store_invar_valid [OF assms(1)]
  from assms(2) obtain r d where r: "fencedWriteRequest v = Inr r"
    and d: "evaluateFence (watermark_value st) v = Inr d" and "fd_shouldApply d"
    by (auto simp: store_admits_def fence_admit_cases [OF wm] split: sum.splits)
  with evaluateFence_store [OF wm r d] that [OF r] show ?thesis
    by (simp add: store_admits_def fence_admit_cases [OF wm])
qed

lemma store_admits_refused:
  assumes "store_invar st" and "\<not> fst (store_admits st v)"
  shows "snd (store_admits st v) = st"
proof -
  note wm = store_invar_valid [OF assms(1)]
  from assms(2) show ?thesis
    by (simp add: store_admits_def fence_admit_cases [OF wm] split: sum.splits)
qed

interpretation fence: watermark_store store_admits store_mark incoming_token store_invar
proof
  fix s r
  assume inv: "store_invar s"
  show "store_invar (snd (store_admits s r))"
  proof (cases "fst (store_admits s r)")
    case True
    then obtain q where "fencedWriteRequest r = Inr q"
      "snd (store_admits s r) = s\<lparr>fs_watermark := Some q, fs_applied := fs_applied s @ [q]\<rparr>"
      by (rule store_admits_admitted [OF inv])
    with fencedWriteRequest_valid show ?thesis by (simp add: store_invar_def)
  next
    case False
    with inv store_admits_refused show ?thesis by simp
  qed
next
  fix s r
  assume "store_invar s" and "fst (store_admits s r)"
  then show "\<exists>t. incoming_token r = Some t \<and> store_mark (snd (store_admits s r)) = Some t \<and>
      (\<forall>m. store_mark s = Some m \<longrightarrow> m < t)"
    by (elim store_admits_admitted) (auto simp: incoming_token_def store_mark_def)
next
  fix s r
  assume "store_invar s" and "\<not> fst (store_admits s r)"
  then show "store_mark (snd (store_admits s r)) = store_mark s"
    by (simp add: store_admits_refused)
qed

lemma snd_store_admits: "snd (store_admits st v) = snd (fence_admit st v)"
  by (simp add: store_admits_def split: prod.split sum.split)

lemma fence_run_store: "fence_run st vs = fence.run_store st vs"
  by (induction vs arbitrary: st) (simp_all add: snd_store_admits)

text \<open>The applied mutations are the admitted requests, in order.\<close>

lemma fence_run_applied:
  "store_invar st \<Longrightarrow>
   map Inr (fs_applied (fence_run st vs)) = map Inr (fs_applied st) @ map fencedWriteRequest (fence.admitted st vs)"
proof (induction vs arbitrary: st)
  case (Cons v vs)
  note IH = Cons.IH [OF fence.invar_admit [OF Cons.prems, of v]]
  show ?case
  proof (cases "fst (store_admits st v)")
    case True
    then obtain r where "fencedWriteRequest v = Inr r"
      "snd (store_admits st v) = st\<lparr>fs_watermark := Some r, fs_applied := fs_applied st @ [r]\<rparr>"
      by (rule store_admits_admitted [OF Cons.prems])
    with True IH show ?thesis by (simp add: snd_store_admits)
  next
    case False
    with IH store_admits_refused [OF Cons.prems] show ?thesis by (simp add: snd_store_admits)
  qed
qed simp

lemma empty_store_invar: "store_invar empty_store"
  by (simp add: store_invar_def empty_store_def)

lemma fence_run_increasing:
  "sorted_wrt (\<lambda>a b. token_value a < token_value b) (fs_applied (fence_run empty_store vs))"
proof -
  have "map Inr (fs_applied (fence_run empty_store vs)) = map fencedWriteRequest (fence.admitted empty_store vs)"
    using fence_run_applied [OF empty_store_invar, of vs] by (simp add: empty_store_def)
  moreover have "sorted_wrt (\<lambda>a b. \<exists>i j. incoming_token a = Some i \<and> incoming_token b = Some j \<and> i < j)
      (fence.admitted empty_store vs)"
    by (rule fence.admitted_strictly_increasing [OF empty_store_invar])
  then have "sorted_wrt (\<lambda>a b. \<forall>x y. a = Inr x \<longrightarrow> b = Inr y \<longrightarrow> token_value x < token_value y)
      (map fencedWriteRequest (fence.admitted empty_store vs))"
    unfolding sorted_wrt_map by (rule sorted_wrt_mono_rel [rotated]) (auto simp: incoming_token_def)
  ultimately have "sorted_wrt (\<lambda>a b. \<forall>x y. a = Inr x \<longrightarrow> b = Inr y \<longrightarrow> token_value x < token_value y)
      (map (Inr :: _ \<Rightarrow> fence_error + _) (fs_applied (fence_run empty_store vs)))"
    by simp
  then show ?thesis by (simp add: sorted_wrt_map)
qed

text \<open>A write that was applied shuts out every write with a token that is not greater, for good.\<close>

lemma applied_shuts_out:
  assumes "r' \<in> set (fs_applied (fence_run empty_store vs))" and "incoming_token v = Some t" and "t \<le> token_value r'"
  shows "snd (fence_admit (fence_run empty_store vs) v) = fence_run empty_store vs"
proof -
  let ?st = "fence_run empty_store vs"
  have inv: "store_invar ?st" unfolding fence_run_store by (rule fence.run_store_invar [OF empty_store_invar])
  obtain xs w where xs: "fs_applied ?st = xs @ [w]"
    using assms(1) by (cases "fs_applied ?st" rule: rev_cases) auto
  with inv have "fs_watermark ?st = Some w" by (simp add: store_invar_def)
  moreover have "token_value r' \<le> token_value w"
    using fence_run_increasing [of vs] assms(1) unfolding xs by (auto simp: sorted_wrt_append intro: less_imp_le)
  ultimately have "\<not> fst (store_admits ?st v)"
    using fence.admitted_advances [OF inv, of v] assms(2,3) by (auto simp: store_mark_def)
  from store_admits_refused [OF inv this] show ?thesis by (simp add: snd_store_admits)
qed

section \<open>Properties\<close>

text \<open>
  C7: over any sequence of incoming values, well-formed or not, a store that follows the
  decision applies only validated requests, their fencing tokens strictly increase in the order
  of application (so a stale or repeated token is never applied), and the watermark is the
  request that was applied last.
\<close>

theorem fence_applies_increasing_tokens:
  "sorted_wrt (\<lambda>a b. token_value a < token_value b) (fs_applied (fence_run empty_store vs)) \<and>
   store_invar (fence_run empty_store vs)"
  using fence_run_increasing fence.run_store_invar [OF empty_store_invar]
  by (simp add: fence_run_store)

text \<open>
  C8: the decision on a watermark and an incoming request that both validate. A different
  tenant or resource is an identity mismatch; otherwise the unsigned 64-bit values of the tokens
  decide: greater advances, smaller is stale, equal is a replay exactly when the operation and
  the payload hash are the same and token reuse otherwise. Only \<open>advanced\<close> asks the datastore to
  apply, and the reported current token is the greater of the two.
\<close>

theorem evaluateFence_decision:
  assumes "current \<noteq> JNull" and "fencedWriteRequest current = Inr w" and "fencedWriteRequest v = Inr r"
  shows "evaluateFence current v =
    (if same_identity w r
     then Inr \<lparr>fd_kind = decide_kind w r, fd_shouldApply = (token_value w < token_value r),
               fd_incomingToken = fw_fencingToken r,
               fd_currentToken = dec_nat (max (token_value w) (token_value r)),
               fd_previousToken = Some (fw_fencingToken w)\<rparr>
     else Inl (FenceValidationError Identity_mismatch None))"
proof -
  have "fw_fencingToken w = dec_nat (token_value w)" "fw_fencingToken r = dec_nat (token_value r)"
    using fencedWriteRequest_valid [OF assms(2)] fencedWriteRequest_valid [OF assms(3)]
    by (auto simp: token_value_def valid_request_def token_text_def canonical_decimal_parse)
  then show ?thesis
    by (auto simp: evaluateFence_compare [OF assms] decide_kind_def max_def)
qed

definition sample_request :: "nat \<Rightarrow> fenced_write_request" where
  "sample_request n = \<lparr>fw_tenantScope = [116], fw_resourceKey = [107], fw_fencingToken = dec_nat n,
     fw_operationId = [111], fw_payloadSha256 = replicate 64 97, fw_holder = None, fw_leaseId = Some [108]\<rparr>"

lemma sample_request_valid: "int n \<le> MAX_FENCING_TOKEN \<Longrightarrow> valid_request (sample_request n)"
  by (simp add: valid_request_def sample_request_def bounded_text_def valid_lock_key_def js_trim_def
      js_whitespace_def control_unit_def text_encode_def utf8_scalar_def lower_sha256_def lower_hex_def
      token_text_iff MAX_TENANT_SCOPE_BYTES_def MAX_LOCK_KEY_BYTES_def MAX_OPERATION_ID_BYTES_def
      MAX_FENCE_METADATA_BYTES_def is_lead_def is_trail_def list_all_length)

theorem evaluateFence_decision_witness:
  "evaluateFence (request_object (sample_request 7)) (request_object (sample_request 9)) =
     Inr \<lparr>fd_kind = Advanced, fd_shouldApply = True, fd_incomingToken = dec_nat 9,
          fd_currentToken = dec_nat 9, fd_previousToken = Some (dec_nat 7)\<rparr>"
  using evaluateFence_decision [OF request_object_not_null
      fencedWriteRequest_object [OF sample_request_valid [of 7]]
      fencedWriteRequest_object [OF sample_request_valid [of 9]]]
  by (simp add: MAX_FENCING_TOKEN_def same_identity_def decide_kind_def token_value_def sample_request_def)



text \<open>
  Token text and token value are inverse to each other on the whole unsigned 64-bit range
  and everything outside it is refused, so no token loses precision on its way through text.
\<close>

theorem fencing_token_roundtrip:
  "and_then (fencingTokenText (JBigInt i)) fencingTokenValue =
     (if 0 \<le> i \<and> i \<le> 2 ^ 64 - 1 then Inr i else Inl token_error) \<and>
   and_then (fencingTokenValue s) (\<lambda>i. fencingTokenText (JBigInt i)) =
     (if canonical_decimal s \<and> int (parse_dec s) \<le> 2 ^ 64 - 1 then Inr s else Inl token_error)"
proof -
  have m: "MAX_FENCING_TOKEN = 2 ^ 64 - 1" by (simp add: MAX_FENCING_TOKEN_def)
  have "token_text (dec_nat (nat i))" if "0 \<le> i" "i \<le> MAX_FENCING_TOKEN"
    using that by (auto simp: token_text_iff)
  then show ?thesis
    by (auto simp: fencingTokenText_bigint fencingTokenValue_def fencingTokenText_string
        token_text_def canonical_decimal_parse m)
qed

end
