(* ===== verification/Lock_Plan.thy ===== *)
theory Lock_Plan
  imports Prelude
begin

text \<open>
  \<open>src/ts/src/plan.ts\<close>: the lock plan as data. \<open>plan\<close> is the pure function every routine
  is held to; the theories of the routines show that their successful runs perform exactly
  these steps.
\<close>

section \<open>Definitions\<close>

record lock_layers =
  ll_fiducia :: bool
  ll_pgAdvisory :: bool

definition LAYERS_NONE :: lock_layers where
  "LAYERS_NONE = \<lparr>ll_fiducia = False, ll_pgAdvisory = False\<rparr>"

definition LAYERS_FIDUCIA_ONLY :: lock_layers where
  "LAYERS_FIDUCIA_ONLY = \<lparr>ll_fiducia = True, ll_pgAdvisory = False\<rparr>"

definition LAYERS_PG_ONLY :: lock_layers where
  "LAYERS_PG_ONLY = \<lparr>ll_fiducia = False, ll_pgAdvisory = True\<rparr>"

definition LAYERS_BOTH :: lock_layers where
  "LAYERS_BOTH = \<lparr>ll_fiducia = True, ll_pgAdvisory = True\<rparr>"

datatype pg_scope = Transaction | Session

datatype lock_step =
    Fiducia_acquire
  | Fiducia_try_acquire
  | Fiducia_renew
  | Fiducia_release
  | Pg_begin
  | Pg_advisory_xact_lock
  | Pg_try_advisory_xact_lock
  | Pg_commit
  | Pg_rollback
  | Pg_advisory_lock
  | Pg_try_advisory_lock
  | Pg_advisory_unlock
  | Work

definition ALL_STEPS :: "lock_step list" where
  "ALL_STEPS =
     [Fiducia_acquire, Fiducia_try_acquire, Fiducia_renew, Fiducia_release, Pg_begin,
      Pg_advisory_xact_lock, Pg_try_advisory_xact_lock, Pg_commit, Pg_rollback,
      Pg_advisory_lock, Pg_try_advisory_lock, Pg_advisory_unlock, Work]"

record lock_plan =
  lp_layers :: lock_layers
  lp_pgScope :: pg_scope
  lp_wait :: bool
  lp_steps :: "lock_step list"

definition plan :: "lock_layers \<Rightarrow> pg_scope \<Rightarrow> bool \<Rightarrow> lock_plan" where
  "plan layers pgScope wait =
     (let steps0 = (if ll_fiducia layers
                    then [if wait then Fiducia_acquire else Fiducia_try_acquire] else []);
          steps1 = steps0 @
            (if \<not> ll_pgAdvisory layers then [Work]
             else if pgScope = Session
             then [if wait then Pg_advisory_lock else Pg_try_advisory_lock, Work, Pg_advisory_unlock]
             else [Pg_begin, if wait then Pg_advisory_xact_lock else Pg_try_advisory_xact_lock,
                   Work, Pg_commit]);
          steps2 = steps1 @ (if ll_fiducia layers then [Fiducia_release] else [])
      in \<lparr>lp_layers = layers, lp_pgScope = pgScope, lp_wait = wait, lp_steps = steps2\<rparr>)"

section \<open>Lemmas\<close>

lemma ALL_STEPS_complete: "set ALL_STEPS = UNIV"
  by (auto simp: ALL_STEPS_def) (metis lock_step.exhaust)

lemma plan_fields [simp]:
  "lp_layers (plan l s w) = l" "lp_pgScope (plan l s w) = s" "lp_wait (plan l s w) = w"
  by (simp_all add: plan_def)

lemma plan_steps_cases:
  "lp_steps (plan l s w) =
     (if ll_fiducia l then [if w then Fiducia_acquire else Fiducia_try_acquire] else []) @
     (if \<not> ll_pgAdvisory l then [Work]
      else if s = Session
      then [if w then Pg_advisory_lock else Pg_try_advisory_lock, Work, Pg_advisory_unlock]
      else [Pg_begin, if w then Pg_advisory_xact_lock else Pg_try_advisory_xact_lock, Work, Pg_commit]) @
     (if ll_fiducia l then [Fiducia_release] else [])"
  by (simp add: plan_def)

section \<open>Properties\<close>

text \<open>
  In every plan the work runs exactly once, no step occurs twice, the lease (when engaged)
  is taken first and released last, and an advisory lock is taken before the work and given up
  (by commit or unlock) after it; the plan never contains a renewal or a rollback.
\<close>

theorem plan_nesting:
  "count_list (lp_steps (plan l s w)) Work = 1 \<and> distinct (lp_steps (plan l s w)) \<and>
   (ll_fiducia l \<longleftrightarrow> hd (lp_steps (plan l s w)) \<in> {Fiducia_acquire, Fiducia_try_acquire}) \<and>
   (ll_fiducia l \<longleftrightarrow> last (lp_steps (plan l s w)) = Fiducia_release) \<and>
   (ll_pgAdvisory l \<longleftrightarrow>
      (\<exists>pre mid post. lp_steps (plan l s w) = pre @ mid # Work # post \<and>
         mid \<in> {Pg_advisory_lock, Pg_try_advisory_lock, Pg_advisory_xact_lock, Pg_try_advisory_xact_lock} \<and>
         hd post = (if s = Session then Pg_advisory_unlock else Pg_commit))) \<and>
   {Fiducia_renew, Pg_rollback} \<inter> set (lp_steps (plan l s w)) = {}"
proof -
  have pg: "\<exists>pre mid post. lp_steps (plan l s w) = pre @ mid # Work # post \<and>
         mid \<in> {Pg_advisory_lock, Pg_try_advisory_lock, Pg_advisory_xact_lock, Pg_try_advisory_xact_lock} \<and>
         hd post = (if s = Session then Pg_advisory_unlock else Pg_commit)"
    if "ll_pgAdvisory l"
    unfolding plan_steps_cases
    by (rule exI [where x = "(if ll_fiducia l then [if w then Fiducia_acquire else Fiducia_try_acquire] else []) @
            (if s = Session then [] else [Pg_begin])"],
        rule exI [where x = "if s = Session then (if w then Pg_advisory_lock else Pg_try_advisory_lock)
            else (if w then Pg_advisory_xact_lock else Pg_try_advisory_xact_lock)"],
        rule exI [where x = "[if s = Session then Pg_advisory_unlock else Pg_commit] @
            (if ll_fiducia l then [Fiducia_release] else [])"])
      (use that in simp)
  have no_pg: "ll_pgAdvisory l"
    if "lp_steps (plan l s w) = pre @ mid # Work # post"
      and "mid \<in> {Pg_advisory_lock, Pg_try_advisory_lock, Pg_advisory_xact_lock, Pg_try_advisory_xact_lock}"
    for pre mid post
  proof -
    have "mid \<in> set (lp_steps (plan l s w))" unfolding that(1) by simp
    with that(2) show ?thesis by (auto simp: plan_steps_cases split: if_splits)
  qed
  have rest: "count_list (lp_steps (plan l s w)) Work = 1" "distinct (lp_steps (plan l s w))"
    "ll_fiducia l \<longleftrightarrow> hd (lp_steps (plan l s w)) \<in> {Fiducia_acquire, Fiducia_try_acquire}"
    "ll_fiducia l \<longleftrightarrow> last (lp_steps (plan l s w)) = Fiducia_release"
    "{Fiducia_renew, Pg_rollback} \<inter> set (lp_steps (plan l s w)) = {}"
    by (auto simp: plan_steps_cases)
  show ?thesis using pg no_pg rest by blast
qed

end
