(* ===== verification/Lock_Errors.thy ===== *)
theory Lock_Errors
  imports Js_Values Lock_Plan
begin

text \<open>
  \<open>src/ts/src/errors.ts\<close>: the structured failure of every routine. What JavaScript code can
  throw is \<open>thrown\<close>: a \<open>LockError\<close>, some other \<open>Error\<close> object, the value
  \<open>undefined\<close>, or any other value (the last two carry an identifier, since nothing in the
  program looks inside them). The text of messages is not modelled; no routine of the
  distributed part branches on it.
\<close>

section \<open>Definitions\<close>

datatype lock_error_kind =
    Contention
  | Timeout
  | Lost_lease
  | Transport
  | Database
  | Work_error
  | Invalid_plan

datatype lock_error =
    LockError (le_kind: lock_error_kind) (le_key: js_string) (le_step: "lock_step option") (le_cause: cause)
  and thrown =
    Thrown_lock lock_error
  | Thrown_error nat
  | Thrown_undefined
  | Thrown_value nat
  and cause =
    No_cause
  | Cause thrown
  | Cleanup_and_inner thrown thrown

definition retryable :: "lock_error \<Rightarrow> bool" where
  "retryable e = (le_kind e = Contention \<or> le_kind e = Timeout)"

definition contention :: "js_string \<Rightarrow> lock_step \<Rightarrow> thrown" where
  "contention key step = Thrown_lock (LockError Contention key (Some step) No_cause)"

definition timeout :: "js_string \<Rightarrow> lock_step \<Rightarrow> thrown" where
  "timeout key step = Thrown_lock (LockError Timeout key (Some step) No_cause)"

definition work_failure :: "js_string \<Rightarrow> thrown \<Rightarrow> thrown" where
  "work_failure key c = Thrown_lock (LockError Work_error key (Some Work) (Cause c))"

definition invalidPlan :: "js_string \<Rightarrow> thrown" where
  "invalidPlan key = Thrown_lock (LockError Invalid_plan key None No_cause)"

definition database :: "js_string \<Rightarrow> lock_step \<Rightarrow> thrown \<Rightarrow> thrown" where
  "database key step c = Thrown_lock (LockError Database key (Some step) (Cause c))"

definition transport_error :: "js_string \<Rightarrow> thrown \<Rightarrow> lock_step option \<Rightarrow> lock_error" where
  "transport_error key c step = LockError Transport key step (Cause c)"

definition transport :: "js_string \<Rightarrow> thrown \<Rightarrow> lock_step option \<Rightarrow> thrown" where
  "transport key c step = Thrown_lock (transport_error key c step)"

definition lost_lease :: "js_string \<Rightarrow> lock_step option \<Rightarrow> thrown" where
  "lost_lease key step = Thrown_lock (LockError Lost_lease key step No_cause)"

fun tagStep :: "thrown \<Rightarrow> lock_step \<Rightarrow> thrown" where
  "tagStep (Thrown_lock (LockError k key None c)) step = Thrown_lock (LockError k key (Some step) c)"
| "tagStep err step = err"

definition cleanupFailure :: "js_string \<Rightarrow> thrown \<Rightarrow> thrown \<Rightarrow> thrown" where
  "cleanupFailure key cleanup inner =
     (let normalized = (case cleanup of Thrown_lock e \<Rightarrow> e | _ \<Rightarrow> transport_error key cleanup None)
      in Thrown_lock (LockError (le_kind normalized) (le_key normalized) (le_step normalized)
           (Cleanup_and_inner cleanup inner)))"

section \<open>Lemmas\<close>

lemmas error_constructors =
  contention_def timeout_def work_failure_def invalidPlan_def database_def
  transport_error_def transport_def lost_lease_def

lemma tagStep_lock:
  "tagStep (Thrown_lock e) step =
     Thrown_lock (LockError (le_kind e) (le_key e) (Some (case le_step e of None \<Rightarrow> step | Some s \<Rightarrow> s)) (le_cause e))"
  by (cases e; cases "le_step e") auto

lemma tagStep_idem [simp]: "tagStep (tagStep err a) b = tagStep err a"
  by (cases "(err, a)" rule: tagStep.cases) simp_all

fun thrown_kind :: "thrown \<Rightarrow> lock_error_kind option" where
  "thrown_kind (Thrown_lock e) = Some (le_kind e)"
| "thrown_kind _ = None"

lemma thrown_kind_tagStep [simp]: "thrown_kind (tagStep err s) = thrown_kind err"
  by (cases "(err, s)" rule: tagStep.cases) simp_all

lemma thrown_kind_constructors [simp]:
  "thrown_kind (contention k s) = Some Contention"
  "thrown_kind (timeout k s) = Some Timeout"
  "thrown_kind (work_failure k c) = Some Work_error"
  "thrown_kind (invalidPlan k) = Some Invalid_plan"
  "thrown_kind (database k s c) = Some Database"
  "thrown_kind (transport k c so) = Some Transport"
  "thrown_kind (lost_lease k so) = Some Lost_lease"
  by (simp_all add: error_constructors)

text \<open>
  When cleanup and the guarded operation both failed, the error keeps the kind of the
  cleanup failure (a cleanup failure that is not a \<open>LockError\<close> counts as \<open>transport\<close>), so it
  is never the retryable error of the guarded operation alone, and both failures stay in its
  cause.
\<close>

theorem cleanupFailure_keeps_both:
  "\<exists>e. cleanupFailure key cleanup inner = Thrown_lock e \<and>
     le_kind e = (case cleanup of Thrown_lock c \<Rightarrow> le_kind c | _ \<Rightarrow> Transport) \<and>
     le_step e = (case cleanup of Thrown_lock c \<Rightarrow> le_step c | _ \<Rightarrow> None) \<and>
     le_cause e = Cleanup_and_inner cleanup inner \<and>
     (retryable e \<longleftrightarrow> (\<exists>c. cleanup = Thrown_lock c \<and> retryable c))"
  by (cases cleanup) (simp_all add: cleanupFailure_def transport_error_def retryable_def)

end
