(* ===== verification/Authority_Spec.thy ===== *)
theory Authority_Spec
  imports Prelude
begin

text \<open>
  What a fenced lease authority promises its clients, as an interface. One step serves one
  request; \<open>minted\<close> is the token of a fresh grant in the answer, \<open>confirmed\<close> the token
  of a renewal or release that the answer reports as done. The consequences for whole histories
  are proved here once and hold for every authority that meets the laws: the Durable Object
  state machine, the Redis scripts and the bounded model.
\<close>

locale fenced_authority =
  fixes step :: "'s \<Rightarrow> 'op \<Rightarrow> 'out \<times> 's"
    and counter :: "'s \<Rightarrow> nat"
    and minted :: "'out \<Rightarrow> nat option"
    and confirmed :: "'out \<Rightarrow> nat option"
    and invar :: "'s \<Rightarrow> bool"
  assumes invar_step: "invar s \<Longrightarrow> invar (snd (step s op))"
    and counter_mono: "invar s \<Longrightarrow> counter s \<le> counter (snd (step s op))"
    and minted_fresh:
      "invar s \<Longrightarrow> minted (fst (step s op)) = Some t \<Longrightarrow>
         counter s < t \<and> counter (snd (step s op)) = t"
    and confirmed_current:
      "invar s \<Longrightarrow> confirmed (fst (step s op)) = Some t \<Longrightarrow> t = counter s"
begin

fun run_authority :: "'s \<Rightarrow> 'op list \<Rightarrow> 's" where
  "run_authority s [] = s"
| "run_authority s (op # ops) = run_authority (snd (step s op)) ops"

fun answers :: "'s \<Rightarrow> 'op list \<Rightarrow> 'out list" where
  "answers s [] = []"
| "answers s (op # ops) = fst (step s op) # answers (snd (step s op)) ops"

lemma length_answers: "length (answers s ops) = length ops"
  by (induction ops arbitrary: s) simp_all

definition minted_tokens :: "'s \<Rightarrow> 'op list \<Rightarrow> nat list" where
  "minted_tokens s ops = List.map_filter minted (answers s ops)"

lemma minted_tokens_simps:
  "minted_tokens s [] = []"
  "minted_tokens s (op # ops) =
     (case minted (fst (step s op)) of None \<Rightarrow> [] | Some t \<Rightarrow> [t]) @ minted_tokens (snd (step s op)) ops"
  by (simp_all add: minted_tokens_def List.map_filter_simps split: option.split)

lemma run_invar: "invar s \<Longrightarrow> invar (run_authority s ops)"
  by (induction ops arbitrary: s) (auto intro: invar_step)

lemma run_counter_mono: "invar s \<Longrightarrow> counter s \<le> counter (run_authority s ops)"
  by (induction ops arbitrary: s) (auto intro: order_trans [OF counter_mono] invar_step)

lemma minted_above_counter: "invar s \<Longrightarrow> t \<in> set (minted_tokens s ops) \<Longrightarrow> counter s < t"
proof (induction ops arbitrary: s)
  case (Cons op ops)
  note inv = invar_step [OF Cons.prems(1), of op] and mono = counter_mono [OF Cons.prems(1), of op]
  from Cons.prems(2) consider "minted (fst (step s op)) = Some t" | "t \<in> set (minted_tokens (snd (step s op)) ops)"
    by (auto simp: minted_tokens_simps split: option.splits)
  then show ?case
  proof cases
    case 1
    with minted_fresh [OF Cons.prems(1)] show ?thesis by blast
  next
    case 2
    from Cons.IH [OF inv 2] mono show ?thesis by simp
  qed
qed (simp add: minted_tokens_simps)

lemma minted_strictly_increasing: "invar s \<Longrightarrow> sorted_wrt (<) (minted_tokens s ops)"
proof (induction ops arbitrary: s)
  case (Cons op ops)
  note inv = invar_step [OF Cons.prems, of op]
  show ?case
  proof (cases "minted (fst (step s op))")
    case None
    with Cons.IH [OF inv] show ?thesis by (simp add: minted_tokens_simps)
  next
    case (Some t)
    then have "counter (snd (step s op)) = t" using minted_fresh [OF Cons.prems] by blast
    with Some Cons.IH [OF inv] minted_above_counter [OF inv] show ?thesis
      by (auto simp: minted_tokens_simps)
  qed
qed (simp add: minted_tokens_simps)

text \<open>Of two grants, the later one has the greater token.\<close>

lemma minted_in_order:
  "invar s \<Longrightarrow> i < j \<Longrightarrow> j < length ops \<Longrightarrow> minted (answers s ops ! i) = Some t \<Longrightarrow>
   minted (answers s ops ! j) = Some u \<Longrightarrow> t < u"
proof (induction ops arbitrary: s i j)
  case (Cons op ops)
  note inv = invar_step [OF Cons.prems(1), of op]
  from Cons.prems(2) obtain j' where j: "j = Suc j'" by (cases j) simp_all
  show ?case
  proof (cases i)
    case 0
    with Cons.prems(4) have "counter (snd (step s op)) = t" using minted_fresh [OF Cons.prems(1)] by simp
    moreover have "u \<in> set (minted_tokens (snd (step s op)) ops)"
      using Cons.prems(3,5) length_answers [of "snd (step s op)" ops] unfolding j minted_tokens_def
      by (force simp: List.map_filter_def)
    ultimately show ?thesis using minted_above_counter [OF inv] by blast
  next
    case (Suc i')
    with Cons.prems j show ?thesis by (intro Cons.IH [OF inv, of i' j']) auto
  qed
qed simp

text \<open>Once a newer token exists, an older one is never renewed or released again.\<close>

lemma superseded_never_confirmed:
  "invar s \<Longrightarrow> t < counter s \<Longrightarrow> out \<in> set (answers s ops) \<Longrightarrow> confirmed out \<noteq> Some t"
proof (induction ops arbitrary: s)
  case (Cons op ops)
  note inv = invar_step [OF Cons.prems(1), of op] and mono = counter_mono [OF Cons.prems(1), of op]
  from Cons.prems(3) consider "out = fst (step s op)" | "out \<in> set (answers (snd (step s op)) ops)" by auto
  then show ?case
  proof cases
    case 1
    with confirmed_current [OF Cons.prems(1)] Cons.prems(2) show ?thesis by blast
  next
    case 2
    from Cons.prems(2) mono have "t < counter (snd (step s op))" by simp
    from Cons.IH [OF inv this 2] show ?thesis .
  qed
qed simp

end

end
