(* ===== verification/Do_Authority.thy ===== *)
theory Do_Authority
  imports Lock_Key Authority_Spec
begin

text \<open>
  \<open>managed/cloudflare-do/src/authority.js\<close>: the lease authority of the Durable Object. Its state is
  the single row of \<open>lease_state\<close> and the alarm of the object. \<open>transactionSync\<close> runs its
  body to the end or rolls the row back; nothing runs between it and the alarm call, so each
  method is one step of the state. \<open>Date.now()\<close> and the success of the alarm call are inputs of
  a step. Bodies arrive by RPC as data, so a body is a value without accessors.
\<close>

section \<open>Definitions\<close>

subsection \<open>Validation\<close>

definition MAX_HOLDER_BYTES :: nat where "MAX_HOLDER_BYTES = 512"
definition MAX_REQUEST_ID_BYTES :: nat where "MAX_REQUEST_ID_BYTES = 256"
definition MAX_TTL_MS :: int where "MAX_TTL_MS = 86400000"
definition MAX_MINTED_FENCING_TOKEN :: nat where "MAX_MINTED_FENCING_TOKEN = 9007199254740991"
definition MAX_PERSISTED_FENCING_TOKEN :: nat where
  "MAX_PERSISTED_FENCING_TOKEN = 18446744073709551615"

definition identity_text :: "nat \<Rightarrow> js_string \<Rightarrow> bool" where
  "identity_text maxBytes s =
     (length s > 0 \<and> length (js_trim s) > 0 \<and> \<not> list_ex control_unit s \<and>
      length (text_encode s) \<le> maxBytes)"

definition validIdentity :: "js_value \<Rightarrow> nat \<Rightarrow> bool" where
  "validIdentity v maxBytes = (case v of JString s \<Rightarrow> identity_text maxBytes s | _ \<Rightarrow> False)"

definition validHolder :: "js_value \<Rightarrow> bool" where
  "validHolder holder = validIdentity holder MAX_HOLDER_BYTES"

definition validRequestId :: "js_value \<Rightarrow> bool" where
  "validRequestId requestId =
     (requestId = JUndefined \<or> requestId = JNull \<or> validIdentity requestId MAX_REQUEST_ID_BYTES)"

definition validTtl :: "js_value \<Rightarrow> bool" where
  "validTtl ttl =
     (case ttl of
        JNumber n \<Rightarrow> is_safe_integer n \<and> int_of_number n > 0 \<and> int_of_number n \<le> MAX_TTL_MS
      | _ \<Rightarrow> False)"

definition canonicalToken :: "js_value \<Rightarrow> js_string option" where
  "canonicalToken token =
     (case token of
        JNumber n \<Rightarrow>
          if \<not> is_safe_integer n \<or> int_of_number n \<le> 0 then None else Some (dec_int (int_of_number n))
      | JString s \<Rightarrow>
          if \<not> positive_decimal s then None
          else let n = parse_dec s in if n > MAX_PERSISTED_FENCING_TOKEN then None else Some (dec_nat n)
      | _ \<Rightarrow> None)"

datatype do_error = Corrupt_counter | Token_exhausted | Alarm_failed

definition nextToken :: "js_string \<Rightarrow> do_error + js_string" where
  "nextToken current =
     and_then (require (canonical_decimal current) Corrupt_counter) (\<lambda>_.
     let nxt = parse_dec current + 1 in
     and_then (require (\<not> nxt > MAX_MINTED_FENCING_TOKEN) Token_exhausted) (\<lambda>_.
     Inr (dec_nat nxt)))"

subsection \<open>Storage\<close>

record lease_row =
  lr_holder :: "js_string option"
  lr_token :: "js_string option"
  lr_expires_ms :: "int option"
  lr_next_token :: js_string
  lr_request_id :: "js_string option"

record do_storage =
  ds_row :: lease_row
  ds_alarm :: "int option"

record do_env =
  de_now :: int
  de_alarm_ok :: bool

text \<open>
  What the constructor may find: no table, a table of the first version (no \<open>request_id\<close>
  column), or a current table; either table may lack the row.
\<close>

datatype persisted_table =
    No_table
  | Table_v1 "(js_string option \<times> js_string option \<times> int option \<times> js_string) option"
  | Table_v2 "lease_row option"

definition initial_row :: lease_row where
  "initial_row = \<lparr>lr_holder = None, lr_token = None, lr_expires_ms = None,
                  lr_next_token = js ''0'', lr_request_id = None\<rparr>"

definition open_authority :: "persisted_table \<Rightarrow> int option \<Rightarrow> do_storage" where
  "open_authority tab pending =
     (let created = (case tab of No_table \<Rightarrow> Table_v2 None | _ \<Rightarrow> tab);
          altered = (case created of
             Table_v1 r \<Rightarrow> map_option (\<lambda>(h, t, e, n). \<lparr>lr_holder = h, lr_token = t, lr_expires_ms = e,
                              lr_next_token = n, lr_request_id = None\<rparr>) r
           | Table_v2 r \<Rightarrow> r
           | No_table \<Rightarrow> None);
          inserted = (case altered of None \<Rightarrow> initial_row | Some r \<Rightarrow> r)
      in \<lparr>ds_row = inserted, ds_alarm = pending\<rparr>)"

definition clearLease :: "lease_row \<Rightarrow> lease_row" where
  "clearLease row = row\<lparr>lr_holder := None, lr_token := None, lr_expires_ms := None, lr_request_id := None\<rparr>"

text \<open>\<open>ctx.storage.transactionSync\<close>: a throw rolls the row back.\<close>

definition transactionSync :: "(lease_row \<Rightarrow> (do_error + 'a) \<times> lease_row) \<Rightarrow> lease_row \<Rightarrow> (do_error + 'a) \<times> lease_row" where
  "transactionSync body row = (case body row of (Inl e, _) \<Rightarrow> (Inl e, row) | (Inr a, row') \<Rightarrow> (Inr a, row'))"

definition setAlarm :: "do_env \<Rightarrow> int \<Rightarrow> do_storage \<Rightarrow> (do_error + unit) \<times> do_storage" where
  "setAlarm env due st = (if de_alarm_ok env then (Inr (), st\<lparr>ds_alarm := Some due\<rparr>) else (Inl Alarm_failed, st))"

definition deleteAlarm :: "do_env \<Rightarrow> do_storage \<Rightarrow> (do_error + unit) \<times> do_storage" where
  "deleteAlarm env st = (if de_alarm_ok env then (Inr (), st\<lparr>ds_alarm := None\<rparr>) else (Inl Alarm_failed, st))"

subsection \<open>Operations\<close>

datatype invalid_code = Invalid_holder | Invalid_request_id | Invalid_ttl | Invalid_token

datatype acquire_outcome =
    Acquire_invalid invalid_code
  | Acquire_exhausted
  | Acquire_contention int
  | Acquire_other_request int
  | Acquire_replayed "js_string option" int
  | Acquire_granted js_string int int

datatype renew_outcome =
    Renew_invalid invalid_code
  | Renew_expired
  | Renew_not_owner
  | Renew_done int int

datatype release_outcome =
    Release_invalid invalid_code
  | Release_expired
  | Release_not_owner
  | Release_done

definition text_of :: "js_value \<Rightarrow> js_string" where
  "text_of v = (case v of JString s \<Rightarrow> s | _ \<Rightarrow> [])"

definition number_of :: "js_value \<Rightarrow> int" where
  "number_of v = (case v of JNumber n \<Rightarrow> int_of_number n | _ \<Rightarrow> 0)"

text \<open>A validated \<open>request_id\<close> that is truthy, or a stored one that is.\<close>

definition given_request :: "js_value \<Rightarrow> js_string option" where
  "given_request v = (case v of JString s \<Rightarrow> if s = [] then None else Some s | _ \<Rightarrow> None)"

definition stored_request :: "js_string option \<Rightarrow> js_string option" where
  "stored_request r = (case r of None \<Rightarrow> None | Some s \<Rightarrow> if s = [] then None else Some s)"

definition request_column :: "js_value \<Rightarrow> js_string option" where
  "request_column v = (case v of JString s \<Rightarrow> Some s | _ \<Rightarrow> None)"

definition acquire_fresh :: "int \<Rightarrow> js_value \<Rightarrow> lease_row \<Rightarrow> (do_error + acquire_outcome) \<times> lease_row" where
  "acquire_fresh now body row =
     (let row1 = (case lr_expires_ms row of
                    Some e \<Rightarrow> if e \<le> now then clearLease row else row
                  | None \<Rightarrow> row);
          ttl = number_of (get_prop body ''ttl_ms'');
          expires = now + ttl
      in case nextToken (lr_next_token row) of
           Inl e \<Rightarrow> (Inl e, row1)
         | Inr fencingToken \<Rightarrow>
             (Inr (Acquire_granted fencingToken expires ttl),
              row1\<lparr>lr_holder := Some (text_of (get_prop body ''holder'')), lr_token := Some fencingToken,
                   lr_expires_ms := Some expires, lr_next_token := fencingToken,
                   lr_request_id := request_column (get_prop body ''request_id'')\<rparr>))"

definition acquire_body :: "int \<Rightarrow> js_value \<Rightarrow> lease_row \<Rightarrow> (do_error + acquire_outcome) \<times> lease_row" where
  "acquire_body now body row =
     (let holder = text_of (get_prop body ''holder'');
          request = given_request (get_prop body ''request_id'')
      in case (lr_holder row, lr_expires_ms row) of
           (Some owner, Some expires) \<Rightarrow>
             if expires > now then
               (if owner \<noteq> holder then (Inr (Acquire_contention expires), row)
                else if request \<noteq> None \<and> stored_request (lr_request_id row) \<noteq> None \<and>
                        request \<noteq> stored_request (lr_request_id row)
                then (Inr (Acquire_other_request expires), row)
                else
                  (Inr (Acquire_replayed (lr_token row) expires),
                   if request \<noteq> None \<and> stored_request (lr_request_id row) = None
                   then row\<lparr>lr_request_id := request\<rparr> else row))
             else acquire_fresh now body row
         | _ \<Rightarrow> acquire_fresh now body row)"

definition do_acquire :: "do_env \<Rightarrow> js_value \<Rightarrow> do_storage \<Rightarrow> (do_error + acquire_outcome) \<times> do_storage" where
  "do_acquire env body st =
     (if \<not> validHolder (get_prop body ''holder'') then (Inr (Acquire_invalid Invalid_holder), st)
      else if \<not> validRequestId (get_prop body ''request_id'') then (Inr (Acquire_invalid Invalid_request_id), st)
      else if \<not> validTtl (get_prop body ''ttl_ms'') then (Inr (Acquire_invalid Invalid_ttl), st)
      else
        case transactionSync (acquire_body (de_now env) body) (ds_row st) of
          (Inl Token_exhausted, row) \<Rightarrow> (Inr Acquire_exhausted, st\<lparr>ds_row := row\<rparr>)
        | (Inl e, row) \<Rightarrow> (Inl e, st\<lparr>ds_row := row\<rparr>)
        | (Inr outcome, row) \<Rightarrow>
            let st1 = st\<lparr>ds_row := row\<rparr> in
            case outcome of
              Acquire_replayed _ expires \<Rightarrow>
                bind_st (setAlarm env expires) (\<lambda>_. return_st outcome) st1
            | Acquire_granted _ expires _ \<Rightarrow>
                bind_st (setAlarm env expires) (\<lambda>_. return_st outcome) st1
            | _ \<Rightarrow> (Inr outcome, st1))"

definition renew_body :: "int \<Rightarrow> js_value \<Rightarrow> js_string \<Rightarrow> lease_row \<Rightarrow> (do_error + renew_outcome) \<times> lease_row" where
  "renew_body now body token row =
     (let expired = (case lr_expires_ms row of None \<Rightarrow> False | Some e \<Rightarrow> e \<le> now)
      in if lr_holder row \<noteq> Some (text_of (get_prop body ''holder'')) \<or> lr_token row \<noteq> Some token \<or>
            lr_expires_ms row = None \<or> expired
         then (Inr (if expired then Renew_expired else Renew_not_owner),
               if expired then clearLease row else row)
         else let ttl = number_of (get_prop body ''ttl_ms''); expires = now + ttl
              in (Inr (Renew_done expires ttl), row\<lparr>lr_expires_ms := Some expires\<rparr>))"

definition do_renew :: "do_env \<Rightarrow> js_value \<Rightarrow> do_storage \<Rightarrow> (do_error + renew_outcome) \<times> do_storage" where
  "do_renew env body st =
     (if \<not> validHolder (get_prop body ''holder'') then (Inr (Renew_invalid Invalid_holder), st)
      else if \<not> validTtl (get_prop body ''ttl_ms'') then (Inr (Renew_invalid Invalid_ttl), st)
      else case canonicalToken (get_prop body ''fencing_token'') of
        None \<Rightarrow> (Inr (Renew_invalid Invalid_token), st)
      | Some token \<Rightarrow>
          case transactionSync (renew_body (de_now env) body token) (ds_row st) of
            (Inl e, row) \<Rightarrow> (Inl e, st\<lparr>ds_row := row\<rparr>)
          | (Inr outcome, row) \<Rightarrow>
              let st1 = st\<lparr>ds_row := row\<rparr> in
              case outcome of
                Renew_done expires _ \<Rightarrow> bind_st (setAlarm env expires) (\<lambda>_. return_st outcome) st1
              | _ \<Rightarrow> (Inr outcome, st1))"

definition release_body :: "int \<Rightarrow> js_value \<Rightarrow> js_string \<Rightarrow> lease_row \<Rightarrow> (do_error + release_outcome) \<times> lease_row" where
  "release_body now body token row =
     (if (case lr_expires_ms row of None \<Rightarrow> False | Some e \<Rightarrow> e \<le> now)
      then (Inr Release_expired, clearLease row)
      else if lr_holder row \<noteq> Some (text_of (get_prop body ''holder'')) \<or> lr_token row \<noteq> Some token
      then (Inr Release_not_owner, row)
      else (Inr Release_done, clearLease row))"

definition do_release :: "do_env \<Rightarrow> js_value \<Rightarrow> do_storage \<Rightarrow> (do_error + release_outcome) \<times> do_storage" where
  "do_release env body st =
     (if \<not> validHolder (get_prop body ''holder'') then (Inr (Release_invalid Invalid_holder), st)
      else case canonicalToken (get_prop body ''fencing_token'') of
        None \<Rightarrow> (Inr (Release_invalid Invalid_token), st)
      | Some token \<Rightarrow>
          case transactionSync (release_body (de_now env) body token) (ds_row st) of
            (Inl e, row) \<Rightarrow> (Inl e, st\<lparr>ds_row := row\<rparr>)
          | (Inr outcome, row) \<Rightarrow>
              let st1 = st\<lparr>ds_row := row\<rparr> in
              if outcome = Release_done \<or> outcome = Release_expired
              then bind_st (deleteAlarm env) (\<lambda>_. return_st outcome) st1
              else (Inr outcome, st1))"

text \<open>
  The handler of the alarm. The platform consumes the pending alarm when it calls the handler,
  so a handler that sets none leaves none.
\<close>

definition alarm_body :: "int \<Rightarrow> lease_row \<Rightarrow> (do_error + int option) \<times> lease_row" where
  "alarm_body now row =
     (case lr_expires_ms row of
        None \<Rightarrow> (Inr None, row)
      | Some e \<Rightarrow> if e \<le> now then (Inr None, clearLease row) else (Inr (Some e), row))"

definition do_alarm :: "do_env \<Rightarrow> do_storage \<Rightarrow> (do_error + unit) \<times> do_storage" where
  "do_alarm env st =
     (case transactionSync (alarm_body (de_now env)) (ds_row st) of
        (Inl e, row) \<Rightarrow> (Inl e, st\<lparr>ds_row := row, ds_alarm := None\<rparr>)
      | (Inr nextAlarm, row) \<Rightarrow>
          let st1 = st\<lparr>ds_row := row, ds_alarm := None\<rparr> in
          case nextAlarm of None \<Rightarrow> (Inr (), st1) | Some due \<Rightarrow> setAlarm env due st1)"

subsection \<open>One request\<close>

datatype do_request = Do_acquire js_value | Do_renew js_value | Do_release js_value | Do_alarm

datatype do_answer =
    Answer_acquire acquire_outcome
  | Answer_renew js_value renew_outcome
  | Answer_release js_value release_outcome
  | Answer_alarm
  | Answer_error do_error

definition do_answer_of :: "('a \<Rightarrow> do_answer) \<Rightarrow> (do_error + 'a) \<times> do_storage \<Rightarrow> do_answer \<times> do_storage" where
  "do_answer_of f p = ((case fst p of Inl e \<Rightarrow> Answer_error e | Inr a \<Rightarrow> f a), snd p)"

fun do_step :: "do_storage \<Rightarrow> do_env \<times> do_request \<Rightarrow> do_answer \<times> do_storage" where
  "do_step st (env, Do_acquire body) = do_answer_of Answer_acquire (do_acquire env body st)"
| "do_step st (env, Do_renew body) = do_answer_of (Answer_renew body) (do_renew env body st)"
| "do_step st (env, Do_release body) = do_answer_of (Answer_release body) (do_release env body st)"
| "do_step st (env, Do_alarm) = do_answer_of (\<lambda>_. Answer_alarm) (do_alarm env st)"

fun do_run :: "do_storage \<Rightarrow> (do_env \<times> do_request) list \<Rightarrow> do_answer list \<times> do_storage" where
  "do_run st [] = ([], st)"
| "do_run st (op # ops) =
     (case do_step st op of (a, st1) \<Rightarrow> (case do_run st1 ops of (as, st2) \<Rightarrow> (a # as, st2)))"

text \<open>The row invariant: all columns of a lease are set together, and its token is the last one minted.\<close>

definition row_invar :: "lease_row \<Rightarrow> bool" where
  "row_invar row =
     (canonical_decimal (lr_next_token row) \<and>
      (case lr_holder row of
         None \<Rightarrow> lr_token row = None \<and> lr_expires_ms row = None \<and> lr_request_id row = None
       | Some h \<Rightarrow> identity_text MAX_HOLDER_BYTES h \<and> lr_token row = Some (lr_next_token row) \<and>
                  lr_expires_ms row \<noteq> None))"

definition row_counter :: "lease_row \<Rightarrow> nat" where
  "row_counter row = parse_dec (lr_next_token row)"

text \<open>The holder and token whose lease is live at a time.\<close>

definition live_owner :: "lease_row \<Rightarrow> int \<Rightarrow> (js_string \<times> js_string) option" where
  "live_owner row now =
     (case (lr_holder row, lr_token row, lr_expires_ms row) of
        (Some h, Some t, Some e) \<Rightarrow> if now < e then Some (h, t) else None
      | _ \<Rightarrow> None)"

fun answer_minted :: "do_answer \<Rightarrow> nat option" where
  "answer_minted (Answer_acquire (Acquire_granted t _ _)) = Some (parse_dec t)"
| "answer_minted _ = None"

definition body_token :: "js_value \<Rightarrow> nat option" where
  "body_token body = map_option parse_dec (canonicalToken (get_prop body ''fencing_token''))"

fun answer_confirmed :: "do_answer \<Rightarrow> nat option" where
  "answer_confirmed (Answer_renew body (Renew_done _ _)) = body_token body"
| "answer_confirmed (Answer_release body Release_done) = body_token body"
| "answer_confirmed _ = None"

definition storage_invar :: "do_storage \<Rightarrow> bool" where
  "storage_invar st = row_invar (ds_row st)"

definition storage_counter :: "do_storage \<Rightarrow> nat" where
  "storage_counter st = row_counter (ds_row st)"

section \<open>Lemmas on the row\<close>

lemma validHolder_text: "validHolder v \<Longrightarrow> v = JString (text_of v) \<and> identity_text MAX_HOLDER_BYTES (text_of v)"
  by (cases v) (simp_all add: validHolder_def validIdentity_def text_of_def)

lemma validTtl_positive: "validTtl v \<Longrightarrow> 0 < number_of v \<and> number_of v \<le> MAX_TTL_MS"
  by (cases v) (simp_all add: validTtl_def number_of_def)

lemma nextToken_ok_iff:
  "nextToken cur = Inr t \<longleftrightarrow>
     canonical_decimal cur \<and> parse_dec cur < MAX_MINTED_FENCING_TOKEN \<and> t = dec_nat (parse_dec cur + 1)"
  by (auto simp: nextToken_def Let_def and_then_eq_Inr)

lemma clearLease_fields [simp]:
  "lr_holder (clearLease r) = None" "lr_token (clearLease r) = None" "lr_expires_ms (clearLease r) = None"
  "lr_request_id (clearLease r) = None" "lr_next_token (clearLease r) = lr_next_token r"
  by (simp_all add: clearLease_def)

lemma clearLease_invar: "row_invar r \<Longrightarrow> row_invar (clearLease r)"
  by (simp add: row_invar_def)

lemma transactionSync_row:
  "snd (transactionSync body row) = (case fst (body row) of Inl _ \<Rightarrow> row | Inr _ \<Rightarrow> snd (body row))"
  "fst (transactionSync body row) = fst (body row)"
  by (auto simp: transactionSync_def split: prod.split sum.split)

lemma row_invar_clear_cases: "row_invar r \<Longrightarrow> canonical_decimal (lr_next_token r)"
  by (simp add: row_invar_def)

text \<open>What each transaction does to the row.\<close>

definition acquire_valid :: "js_value \<Rightarrow> bool" where
  "acquire_valid body = (validHolder (get_prop body ''holder'') \<and> validRequestId (get_prop body ''request_id'') \<and>
     validTtl (get_prop body ''ttl_ms''))"

definition renew_valid :: "js_value \<Rightarrow> bool" where
  "renew_valid body = (validHolder (get_prop body ''holder'') \<and> validTtl (get_prop body ''ttl_ms''))"

lemma do_acquire_row:
  "ds_row (snd (do_acquire env body st)) =
     (if acquire_valid body then snd (transactionSync (acquire_body (de_now env) body) (ds_row st)) else ds_row st)"
proof (cases "transactionSync (acquire_body (de_now env) body) (ds_row st)")
  case (Pair r row)
  show ?thesis
  proof (cases r)
    case (Inl e)
    with Pair show ?thesis by (cases e) (auto simp: do_acquire_def acquire_valid_def)
  next
    case (Inr out)
    with Pair show ?thesis
      by (cases out) (auto simp: do_acquire_def acquire_valid_def bind_st_def setAlarm_def Let_def)
  qed
qed

lemma do_acquire_answer:
  assumes "fst (do_acquire env body st) = Inr out"
    and "\<forall>c. out \<noteq> Acquire_invalid c" "out \<noteq> Acquire_exhausted"
  shows "acquire_valid body \<and> fst (acquire_body (de_now env) body (ds_row st)) = Inr out"
proof (cases "transactionSync (acquire_body (de_now env) body) (ds_row st)")
  case (Pair r row)
  then have r: "fst (acquire_body (de_now env) body (ds_row st)) = r"
    by (metis fst_conv transactionSync_row(2))
  show ?thesis
  proof (cases r)
    case (Inl e)
    with Pair assms show ?thesis by (cases e) (auto simp: do_acquire_def split: if_splits)
  next
    case (Inr out')
    with Pair assms r show ?thesis
      by (cases out')
        (auto simp: do_acquire_def acquire_valid_def bind_st_def setAlarm_def Let_def split: if_splits)
  qed
qed

lemma do_renew_row:
  "ds_row (snd (do_renew env body st)) =
     (case canonicalToken (get_prop body ''fencing_token'') of
        None \<Rightarrow> ds_row st
      | Some token \<Rightarrow> if renew_valid body then snd (renew_body (de_now env) body token (ds_row st)) else ds_row st)"
  by (auto simp: do_renew_def renew_valid_def transactionSync_def renew_body_def Let_def bind_st_def
      setAlarm_def split: option.split)

lemma do_renew_answer:
  assumes "fst (do_renew env body st) = Inr (Renew_done e l)"
  shows "\<exists>token. canonicalToken (get_prop body ''fencing_token'') = Some token \<and> renew_valid body \<and>
     fst (renew_body (de_now env) body token (ds_row st)) = Inr (Renew_done e l)"
  using assms
  by (auto simp: do_renew_def renew_valid_def transactionSync_def renew_body_def Let_def bind_st_def
      setAlarm_def split: option.splits if_splits)

lemma do_release_row:
  "ds_row (snd (do_release env body st)) =
     (case canonicalToken (get_prop body ''fencing_token'') of
        None \<Rightarrow> ds_row st
      | Some token \<Rightarrow> if validHolder (get_prop body ''holder'')
          then snd (release_body (de_now env) body token (ds_row st)) else ds_row st)"
  by (auto simp: do_release_def transactionSync_def release_body_def Let_def bind_st_def
      deleteAlarm_def split: option.split)

lemma do_release_answer:
  assumes "fst (do_release env body st) = Inr Release_done"
  shows "\<exists>token. canonicalToken (get_prop body ''fencing_token'') = Some token \<and>
     validHolder (get_prop body ''holder'') \<and>
     fst (release_body (de_now env) body token (ds_row st)) = Inr Release_done"
  using assms
  by (auto simp: do_release_def transactionSync_def release_body_def Let_def bind_st_def
      deleteAlarm_def split: option.splits if_splits)

lemma do_alarm_row: "ds_row (snd (do_alarm env st)) = snd (alarm_body (de_now env) (ds_row st))"
  by (auto simp: do_alarm_def transactionSync_def alarm_body_def Let_def setAlarm_def split: option.split)

subsection \<open>The invariant\<close>

definition held_at :: "lease_row \<Rightarrow> int \<Rightarrow> bool" where
  "held_at row now = (lr_holder row \<noteq> None \<and> (case lr_expires_ms row of None \<Rightarrow> False | Some e \<Rightarrow> now < e))"

lemma acquire_body_free: "\<not> held_at row now \<Longrightarrow> acquire_body now body row = acquire_fresh now body row"
  by (auto simp: acquire_body_def held_at_def Let_def split: option.split)

lemma acquire_body_held:
  assumes "held_at row now"
  obtains out q where "acquire_body now body row = (Inr out, row\<lparr>lr_request_id := q\<rparr>)"
    and "\<forall>t e l. out \<noteq> Acquire_granted t e l"
proof -
  obtain h e where he: "lr_holder row = Some h" "lr_expires_ms row = Some e" "now < e"
    using assms by (auto simp: held_at_def split: option.splits)
  have same: "row = row\<lparr>lr_request_id := lr_request_id row\<rparr>" by simp
  have "snd (acquire_body now body row) = row \<or> (\<exists>q. snd (acquire_body now body row) = row\<lparr>lr_request_id := q\<rparr>)"
    using he by (auto simp: acquire_body_def Let_def)
  then obtain q where "snd (acquire_body now body row) = row\<lparr>lr_request_id := q\<rparr>" using same by metis
  moreover have "\<exists>out. fst (acquire_body now body row) = Inr out \<and> (\<forall>t e l. out \<noteq> Acquire_granted t e l)"
    using he by (auto simp: acquire_body_def Let_def)
  ultimately show ?thesis using that by (metis prod.collapse)
qed

lemma acquire_fresh_throws: "nextToken (lr_next_token row) = Inl e \<Longrightarrow> fst (acquire_fresh now body row) = Inl e"
  by (simp add: acquire_fresh_def Let_def)

lemma acquire_fresh_grants:
  "nextToken (lr_next_token row) = Inr t \<Longrightarrow>
   acquire_fresh now body row =
     (Inr (Acquire_granted t (now + number_of (get_prop body ''ttl_ms'')) (number_of (get_prop body ''ttl_ms''))),
      \<lparr>lr_holder = Some (text_of (get_prop body ''holder'')), lr_token = Some t,
       lr_expires_ms = Some (now + number_of (get_prop body ''ttl_ms'')), lr_next_token = t,
       lr_request_id = request_column (get_prop body ''request_id'')\<rparr>)"
  by (simp add: acquire_fresh_def Let_def clearLease_def split: option.split)

lemma row_invar_request [simp]:
  "lr_holder row \<noteq> None \<Longrightarrow> row_invar (row\<lparr>lr_request_id := q\<rparr>) = row_invar row"
  by (auto simp: row_invar_def)

lemma acquire_tx_invar:
  assumes "row_invar row" and "acquire_valid body"
  shows "row_invar (snd (transactionSync (acquire_body now body) row)) \<and>
    row_counter row \<le> row_counter (snd (transactionSync (acquire_body now body) row))"
proof (cases "held_at row now")
  case True
  then have "lr_holder row \<noteq> None" by (simp add: held_at_def)
  with assms(1) show ?thesis
    by (rule_tac acquire_body_held [OF True, of body]) (simp add: transactionSync_row row_counter_def)
next
  case free: False
  have h: "identity_text MAX_HOLDER_BYTES (text_of (get_prop body ''holder''))"
    using assms(2) validHolder_text by (simp add: acquire_valid_def)
  show ?thesis
  proof (cases "nextToken (lr_next_token row)")
    case (Inl e)
    with assms(1) free show ?thesis
      by (simp add: transactionSync_row acquire_body_free acquire_fresh_throws)
  next
    case (Inr t)
    with free h show ?thesis
      by (auto simp: transactionSync_row acquire_body_free acquire_fresh_grants row_invar_def
          nextToken_ok_iff canonical_dec_nat row_counter_def)
  qed
qed

lemmas acquire_body_invar = acquire_tx_invar [THEN conjunct1] acquire_tx_invar [THEN conjunct2]

lemma renew_body_invar:
  assumes "row_invar row"
  shows "row_invar (snd (renew_body now body token row))"
    and "row_counter (snd (renew_body now body token row)) = row_counter row"
  using assms
  by (auto simp: renew_body_def row_invar_def Let_def row_counter_def split: option.split)

lemma release_body_invar:
  assumes "row_invar row"
  shows "row_invar (snd (release_body now body token row))"
    and "row_counter (snd (release_body now body token row)) = row_counter row"
  using assms
  by (auto simp: release_body_def row_invar_def Let_def row_counter_def split: option.split)

lemma alarm_body_invar:
  assumes "row_invar row"
  shows "row_invar (snd (alarm_body now row))"
    and "row_counter (snd (alarm_body now row)) = row_counter row"
  using assms
  by (auto simp: alarm_body_def row_invar_def Let_def row_counter_def split: option.splits)

lemmas do_rows = do_acquire_row do_renew_row do_release_row do_alarm_row
lemmas body_invars = acquire_body_invar renew_body_invar release_body_invar alarm_body_invar

lemma do_step_invar:
  assumes "storage_invar st"
  shows "storage_invar (snd (do_step st op))" and "storage_counter st \<le> storage_counter (snd (do_step st op))"
  using assms
  by (cases "(st, op)" rule: do_step.cases;
      auto simp: do_answer_of_def storage_invar_def storage_counter_def do_rows body_invars
        split: option.split)+

lemma not_held_at: "\<not> held_at row now \<Longrightarrow> live_owner row now = None"
  by (auto simp: held_at_def live_owner_def split: option.splits)

lemma granted_fresh:
  assumes "row_invar row" and "fst (acquire_body now body row) = Inr (Acquire_granted t e l)"
  shows "row_counter row < parse_dec t \<and>
    row_counter (snd (transactionSync (acquire_body now body) row)) = parse_dec t \<and>
    live_owner row now = None"
proof -
  have free: "\<not> held_at row now"
  proof
    assume "held_at row now"
    then obtain out q where "acquire_body now body row = (Inr out, row\<lparr>lr_request_id := q\<rparr>)"
      "\<forall>t e l. out \<noteq> Acquire_granted t e l" by (rule acquire_body_held)
    with assms(2) show False by simp
  qed
  show ?thesis
  proof (cases "nextToken (lr_next_token row)")
    case (Inl e)
    with free assms(2) show ?thesis by (simp add: acquire_body_free acquire_fresh_throws)
  next
    case (Inr u)
    with free assms show ?thesis
      by (auto simp: acquire_body_free acquire_fresh_grants transactionSync_row nextToken_ok_iff
          row_counter_def not_held_at)
  qed
qed

lemma renew_done_owner:
  "fst (renew_body now body token row) = Inr (Renew_done e l) \<Longrightarrow>
   live_owner row now = Some (text_of (get_prop body ''holder''), token)"
  by (auto simp: renew_body_def Let_def live_owner_def split: option.splits if_splits)

lemma release_done_owner:
  "row_invar row \<Longrightarrow> fst (release_body now body token row) = Inr Release_done \<Longrightarrow>
   live_owner row now = Some (text_of (get_prop body ''holder''), token)"
  by (auto simp: release_body_def live_owner_def row_invar_def split: option.splits if_splits)

lemma live_owner_latest:
  "row_invar row \<Longrightarrow> live_owner row now = Some (h, t) \<Longrightarrow> parse_dec t = row_counter row"
  by (auto simp: live_owner_def row_invar_def row_counter_def split: option.splits if_splits)

lemma renew_confirmed:
  assumes "answer_confirmed (case fst (do_renew env body st) of Inl e \<Rightarrow> Answer_error e | Inr a \<Rightarrow> Answer_renew body a) = Some t"
  shows "\<exists>h token. live_owner (ds_row st) (de_now env) = Some (h, token) \<and> t = parse_dec token"
proof -
  from assms obtain e l where fin: "fst (do_renew env body st) = Inr (Renew_done e l)" and t: "body_token body = Some t"
    by (auto elim!: answer_confirmed.elims split: sum.splits)
  from do_renew_answer [OF fin] obtain token where
    "canonicalToken (get_prop body ''fencing_token'') = Some token"
    "fst (renew_body (de_now env) body token (ds_row st)) = Inr (Renew_done e l)" by blast
  with t renew_done_owner show ?thesis by (fastforce simp: body_token_def)
qed

lemma release_confirmed:
  assumes "row_invar (ds_row st)"
    and "answer_confirmed (case fst (do_release env body st) of Inl e \<Rightarrow> Answer_error e | Inr a \<Rightarrow> Answer_release body a) = Some t"
  shows "\<exists>h token. live_owner (ds_row st) (de_now env) = Some (h, token) \<and> t = parse_dec token"
proof -
  from assms(2) have fin: "fst (do_release env body st) = Inr Release_done" and t: "body_token body = Some t"
    by (auto elim!: answer_confirmed.elims split: sum.splits)
  from do_release_answer [OF fin] obtain token where
    "canonicalToken (get_prop body ''fencing_token'') = Some token"
    "fst (release_body (de_now env) body token (ds_row st)) = Inr Release_done" by blast
  with t release_done_owner [OF assms(1)] show ?thesis by (fastforce simp: body_token_def)
qed

lemma do_step_confirmed:
  assumes "storage_invar st" and "answer_confirmed (fst (do_step st op)) = Some t"
  shows "\<exists>h token. live_owner (ds_row st) (de_now (fst op)) = Some (h, token) \<and> t = parse_dec token"
  using assms renew_confirmed release_confirmed
  by (cases "(st, op)" rule: do_step.cases)
    (auto simp: do_answer_of_def storage_invar_def split: sum.splits)

interpretation do_authority: fenced_authority do_step storage_counter answer_minted answer_confirmed storage_invar
proof
  fix s op t
  assume inv: "storage_invar s"
  show "storage_invar (snd (do_step s op))" "storage_counter s \<le> storage_counter (snd (do_step s op))"
    by (rule do_step_invar [OF inv])+
  show "storage_counter s < t \<and> storage_counter (snd (do_step s op)) = t"
    if minted: "answer_minted (fst (do_step s op)) = Some t"
  proof -
    obtain env body tok e l where op: "op = (env, Do_acquire body)" and t: "t = parse_dec tok"
      and "fst (do_acquire env body s) = Inr (Acquire_granted tok e l)"
      using minted by (cases "(s, op)" rule: do_step.cases)
        (auto simp: do_answer_of_def elim!: answer_minted.elims split: sum.splits)
    with do_acquire_answer [of env body s "Acquire_granted tok e l"]
    have "acquire_valid body" "fst (acquire_body (de_now env) body (ds_row s)) = Inr (Acquire_granted tok e l)"
      by simp_all
    with granted_fresh [of "ds_row s"] inv op t show ?thesis
      by (simp add: storage_invar_def storage_counter_def do_answer_of_def do_acquire_row)
  qed
  show "t = storage_counter s" if conf: "answer_confirmed (fst (do_step s op)) = Some t"
    using do_step_confirmed [OF inv conf] live_owner_latest inv
    by (auto simp: storage_invar_def storage_counter_def)
qed

subsection \<open>Histories\<close>

lemma do_run_authority: "do_run st ops = (do_authority.answers st ops, do_authority.run_authority st ops)"
  by (induction ops arbitrary: st) (simp_all split: prod.split)

text \<open>Whose request a renewal or a release is.\<close>

fun request_by :: "js_string \<Rightarrow> js_string \<Rightarrow> do_request \<Rightarrow> bool" where
  "request_by h t (Do_renew body) =
     (text_of (get_prop body ''holder'') = h \<and> canonicalToken (get_prop body ''fencing_token'') = Some t)"
| "request_by h t (Do_release body) =
     (text_of (get_prop body ''holder'') = h \<and> canonicalToken (get_prop body ''fencing_token'') = Some t)"
| "request_by h t _ = False"

definition lease_until :: "lease_row \<Rightarrow> js_string \<Rightarrow> js_string \<Rightarrow> int \<Rightarrow> bool" where
  "lease_until row h t e = (lr_holder row = Some h \<and> lr_token row = Some t \<and> lr_expires_ms row = Some e)"

lemma lease_until_bodies:
  assumes "lease_until row h t e" and "now < e"
  shows "lease_until (snd (transactionSync (acquire_body now body) row)) h t e"
    and "\<not> (text_of (get_prop body ''holder'') = h \<and> token = t) \<Longrightarrow>
      lease_until (snd (renew_body now body token row)) h t e"
    and "\<not> (text_of (get_prop body ''holder'') = h \<and> token = t) \<Longrightarrow>
      lease_until (snd (release_body now body token row)) h t e"
    and "lease_until (snd (alarm_body now row)) h t e"
proof -
  have held: "held_at row now" using assms by (simp add: lease_until_def held_at_def)
  show "lease_until (snd (transactionSync (acquire_body now body) row)) h t e"
    by (rule acquire_body_held [OF held, of body])
      (use assms in \<open>simp add: transactionSync_row lease_until_def\<close>)
qed (use assms in \<open>auto simp: lease_until_def renew_body_def release_body_def alarm_body_def Let_def\<close>)

lemma do_step_lease_until:
  assumes "lease_until (ds_row st) h t e" and "de_now env < e" and "\<not> request_by h t req"
  shows "lease_until (ds_row (snd (do_step st (env, req)))) h t e"
  using assms lease_until_bodies [OF assms(1,2)]
  by (cases req) (auto simp: do_answer_of_def do_rows split: option.split)

lemma held_not_minted:
  assumes "lease_until (ds_row st) h t e" and "de_now env < e"
  shows "answer_minted (fst (do_step st (env, req))) = None"
proof (cases "answer_minted (fst (do_step st (env, req)))")
  case (Some m)
  then obtain body tok x l where "req = Do_acquire body"
    and "fst (do_acquire env body st) = Inr (Acquire_granted tok x l)"
    by (cases req) (auto simp: do_answer_of_def elim!: answer_minted.elims split: sum.splits)
  with do_acquire_answer [of env body st "Acquire_granted tok x l"]
  have "fst (acquire_body (de_now env) body (ds_row st)) = Inr (Acquire_granted tok x l)" by simp
  moreover have "held_at (ds_row st) (de_now env)"
    using assms by (simp add: lease_until_def held_at_def)
  ultimately show ?thesis by (metis acquire_body_held fst_conv sum.inject(2))
qed simp

text \<open>While alarms work, a held lease has its alarm pending at its expiry.\<close>

definition alarm_covers :: "do_storage \<Rightarrow> bool" where
  "alarm_covers st = (case lr_expires_ms (ds_row st) of None \<Rightarrow> True | Some e \<Rightarrow> ds_alarm st = Some e)"

lemma alarm_covers_acquire:
  assumes "alarm_covers st" and "storage_invar st" and "de_alarm_ok env"
  shows "alarm_covers (snd (do_acquire env body st))"
proof (cases "acquire_valid body")
  case valid: True
  show ?thesis
  proof (cases "held_at (ds_row st) (de_now env)")
    case True
    then obtain out q where
      out: "acquire_body (de_now env) body (ds_row st) = (Inr out, (ds_row st)\<lparr>lr_request_id := q\<rparr>)"
      by (rule acquire_body_held)
    obtain e where e: "lr_expires_ms (ds_row st) = Some e" using True by (auto simp: held_at_def split: option.splits)
    have "out = Acquire_replayed tk x \<Longrightarrow> x = e" for tk x
      using out e by (auto simp: acquire_body_def acquire_fresh_def Let_def split: option.splits if_splits sum.splits)
    moreover have "out = Acquire_granted tk x l \<Longrightarrow> False" for tk x l
      using out True by (metis acquire_body_held fst_conv sum.inject(2))
    ultimately show ?thesis
      using assms valid out e
      by (cases out) (auto simp: do_acquire_def acquire_valid_def transactionSync_def alarm_covers_def
          bind_st_def setAlarm_def Let_def)
  next
    case False
    then show ?thesis
      using assms valid
      by (cases "nextToken (lr_next_token (ds_row st))"; cases "projl (nextToken (lr_next_token (ds_row st)))")
        (auto simp: do_acquire_def acquire_valid_def transactionSync_def alarm_covers_def
          bind_st_def setAlarm_def Let_def acquire_body_free acquire_fresh_grants
          prod.case_eq_if acquire_fresh_throws)
  qed
next
  case False
  with assms(1) show ?thesis by (auto simp: do_acquire_def acquire_valid_def)
qed

lemma alarm_covers_step:
  assumes "alarm_covers st" and "storage_invar st" and "de_alarm_ok env"
  shows "alarm_covers (snd (do_step st (env, req)))"
proof (cases req)
  case (Do_acquire body)
  with alarm_covers_acquire [OF assms] show ?thesis by (simp add: do_answer_of_def)
next
  case (Do_renew body)
  with assms show ?thesis
    by (auto simp: do_answer_of_def do_renew_def transactionSync_def renew_body_def alarm_covers_def
        bind_st_def setAlarm_def Let_def split: option.splits)
next
  case (Do_release body)
  with assms show ?thesis
    by (auto simp: do_answer_of_def do_release_def transactionSync_def release_body_def alarm_covers_def
        bind_st_def deleteAlarm_def Let_def split: option.splits)
next
  case Do_alarm
  with assms show ?thesis
    by (auto simp: do_answer_of_def do_alarm_def transactionSync_def alarm_body_def alarm_covers_def
        setAlarm_def Let_def split: option.splits)
qed

section \<open>Properties\<close>

text \<open>Concrete requests for the witnesses.\<close>

definition sample_acquire :: "js_string \<Rightarrow> int \<Rightarrow> js_value" where
  "sample_acquire h ttl = object_literal [(''holder'', JString h), (''ttl_ms'', JNumber (NInt ttl))]"

definition sample_owned :: "js_string \<Rightarrow> int \<Rightarrow> nat \<Rightarrow> js_value" where
  "sample_owned h ttl t = object_literal
     [(''holder'', JString h), (''ttl_ms'', JNumber (NInt ttl)), (''fencing_token'', JString (dec_nat t))]"

abbreviation tick :: "int \<Rightarrow> do_env" where
  "tick n \<equiv> \<lparr>de_now = n, de_alarm_ok = True\<rparr>"

lemmas do_eval =
  sample_acquire_def sample_owned_def object_literal_def field_def validHolder_def validIdentity_def identity_text_def
  validRequestId_def validTtl_def canonicalToken_def js_trim_def js_whitespace_def control_unit_def
  text_encode_def utf8_scalar_def is_lead_def is_trail_def MAX_HOLDER_BYTES_def MAX_REQUEST_ID_BYTES_def
  MAX_TTL_MS_def MAX_SAFE_INTEGER_def MAX_PERSISTED_FENCING_TOKEN_def text_of_def number_of_def
  given_request_def stored_request_def request_column_def

lemma fresh_invar: "storage_invar (open_authority No_table None)"
proof -
  have "canonical_decimal [48]" by (simp add: canonical_decimal_def)
  then show ?thesis
    by (simp add: storage_invar_def open_authority_def row_invar_def initial_row_def Let_def js_simps)
qed

definition held_storage :: do_storage where
  "held_storage = \<lparr>ds_row = \<lparr>lr_holder = Some [97], lr_token = Some (dec_nat 5), lr_expires_ms = Some 100,
     lr_next_token = dec_nat 5, lr_request_id = None\<rparr>, ds_alarm = Some 100\<rparr>"

lemma held_storage_invar: "storage_invar held_storage"
  by (simp add: held_storage_def storage_invar_def row_invar_def canonical_dec_nat do_eval)

text \<open>
  C19: whatever requests, clock readings and alarm failures the authority sees, the tokens it
  grants are strictly increasing and above the counter it started from, the row stays well
  formed, and after a newer token exists no renewal or release under an older one is ever
  confirmed.
\<close>

theorem do_tokens_monotone:
  assumes "storage_invar st"
  shows "sorted_wrt (<) (List.map_filter answer_minted (fst (do_run st ops))) \<and>
    (\<forall>t \<in> set (List.map_filter answer_minted (fst (do_run st ops))). storage_counter st < t) \<and>
    (\<forall>a \<in> set (fst (do_run st ops)). \<forall>t. answer_confirmed a = Some t \<longrightarrow> storage_counter st \<le> t) \<and>
    storage_invar (snd (do_run st ops))"
  using do_authority.minted_strictly_increasing [OF assms, of ops]
    do_authority.minted_above_counter [OF assms, of _ ops] do_authority.run_invar [OF assms]
    do_authority.superseded_never_confirmed [OF assms]
  by (auto simp: do_run_authority do_authority.minted_tokens_def not_less [symmetric])

theorem do_tokens_monotone_witness:
  "sorted_wrt (<) (List.map_filter answer_minted (fst (do_run held_storage
      [(tick 200, Do_acquire (sample_acquire [98] 50)), (tick 300, Do_acquire (sample_acquire [97] 50))]))) \<and>
   map fst [do_step held_storage (tick 200, Do_acquire (sample_acquire [98] 50))] =
     [Answer_acquire (Acquire_granted (dec_nat 6) 250 50)]"
  using do_tokens_monotone [OF held_storage_invar]
  by (simp add: do_answer_of_def do_acquire_def do_eval held_storage_def acquire_body_def
      acquire_fresh_def transactionSync_def nextToken_def canonical_dec_nat
      MAX_MINTED_FENCING_TOKEN_def bind_st_def setAlarm_def)

text \<open>
  C18: exclusion. While a lease of holder \<open>h\<close> with token \<open>t\<close> runs until \<open>e\<close>, requests that
  arrive before \<open>e\<close>, from anyone and in any number, leave it untouched unless they renew or
  release under exactly that holder and token: it is still held by \<open>h\<close> under \<open>t\<close> until \<open>e\<close>, and no
  other token is granted meanwhile.
\<close>

theorem do_live_lease_exclusive:
  assumes "lease_until (ds_row st) h t e"
    and "\<forall>(env, req) \<in> set ops. de_now env < e \<and> \<not> request_by h t req"
  shows "lease_until (ds_row (snd (do_run st ops))) h t e \<and>
    List.map_filter answer_minted (fst (do_run st ops)) = []"
  using assms
proof (induction ops arbitrary: st)
  case (Cons op ops)
  obtain env req where op: "op = (env, req)" by (cases op)
  with Cons.prems have "lease_until (ds_row (snd (do_step st op))) h t e"
    and "answer_minted (fst (do_step st op)) = None"
    by (auto intro: do_step_lease_until held_not_minted)
  with Cons.IH [of "snd (do_step st op)"] Cons.prems(2) show ?case
    by (auto simp: List.map_filter_simps split: prod.split)
qed (simp add: List.map_filter_simps)

theorem do_live_lease_exclusive_witness:
  "lease_until (ds_row (snd (do_run held_storage
     [(tick 99, Do_acquire (sample_acquire [98] 50)), (tick 99, Do_release (sample_owned [97] 1 4)),
      (tick 98, Do_alarm)]))) [97] (dec_nat 5) 100"
  using do_live_lease_exclusive [of held_storage "[97]" "dec_nat 5" 100
      "[(tick 99, Do_acquire (sample_acquire [98] 50)), (tick 99, Do_release (sample_owned [97] 1 4)),
      (tick 98, Do_alarm)]"]
    positive_dec_nat [of 4]
  by (simp add: held_storage_def lease_until_def sample_owned_def object_literal_def field_def
      canonicalToken_def MAX_PERSISTED_FENCING_TOKEN_def Let_def)

text \<open>
  A renewal is confirmed exactly for the live owner. For a well-formed request at time
  \<open>now\<close>: the owner's lease is extended to \<open>now + ttl\<close> with holder and token unchanged; an expired
  lease is cleared and reported as expired; anyone else is told \<open>not_owner\<close> and changes nothing.
\<close>

theorem do_renew_exact:
  assumes "storage_invar st" and "renew_valid body" and "de_alarm_ok env"
    and "canonicalToken (get_prop body ''fencing_token'') = Some token"
  shows "do_renew env body st =
    (let expires = de_now env + number_of (get_prop body ''ttl_ms'') in
     if live_owner (ds_row st) (de_now env) = Some (text_of (get_prop body ''holder''), token)
     then (Inr (Renew_done expires (number_of (get_prop body ''ttl_ms''))),
           \<lparr>ds_row = (ds_row st)\<lparr>lr_expires_ms := Some expires\<rparr>, ds_alarm = Some expires\<rparr>)
     else if lr_holder (ds_row st) \<noteq> None \<and> live_owner (ds_row st) (de_now env) = None
     then (Inr Renew_expired, st\<lparr>ds_row := clearLease (ds_row st)\<rparr>)
     else (Inr Renew_not_owner, st))"
proof -
  have "row_invar (ds_row st)" using assms(1) by (simp add: storage_invar_def)
  with assms(2-4) show ?thesis
    by (cases "lr_expires_ms (ds_row st)"; cases "lr_holder (ds_row st)")
      (auto simp: do_renew_def renew_valid_def transactionSync_def renew_body_def live_owner_def
        row_invar_def bind_st_def setAlarm_def Let_def)
qed

theorem do_renew_exact_witness:
  "fst (do_renew (tick 50) (sample_owned [97] 70 5) held_storage) = Inr (Renew_done 120 70) \<and>
   fst (do_renew (tick 100) (sample_owned [97] 70 5) held_storage) = Inr Renew_expired"
proof -
  have "renew_valid (sample_owned [97] 70 5)" by (simp add: renew_valid_def do_eval)
  moreover have "canonicalToken (get_prop (sample_owned [97] 70 5) ''fencing_token'') = Some (dec_nat 5)"
    using positive_dec_nat [of 5]
    by (simp add: sample_owned_def object_literal_def field_def canonicalToken_def
        MAX_PERSISTED_FENCING_TOKEN_def Let_def)
  ultimately show ?thesis
    using do_renew_exact [OF held_storage_invar, of "sample_owned [97] 70 5" "tick 50"]
      do_renew_exact [OF held_storage_invar, of "sample_owned [97] 70 5" "tick 100"]
    by (simp add: held_storage_def live_owner_def Let_def sample_owned_def object_literal_def field_def
        text_of_def number_of_def)
qed

text \<open>
  C20: as long as alarm calls succeed, every state reached from a fresh object has, whenever a
  lease is held, an alarm pending exactly at its expiry, and the alarm handler run at that time
  clears the lease: an abandoned lease is reaped without any client.
\<close>

theorem do_alarm_reaps_expired:
  assumes "\<forall>(env, req) \<in> set ops. de_alarm_ok env"
    and "lr_expires_ms (ds_row (snd (do_run (open_authority No_table None) ops))) = Some e"
  shows "ds_alarm (snd (do_run (open_authority No_table None) ops)) = Some e \<and>
    (\<forall>env. e \<le> de_now env \<longrightarrow>
      ds_row (snd (do_alarm env (snd (do_run (open_authority No_table None) ops)))) =
      clearLease (ds_row (snd (do_run (open_authority No_table None) ops))))"
proof -
  have run: "alarm_covers (snd (do_run st ops))" if "alarm_covers st" "storage_invar st" for st
    using that assms(1)
  proof (induction ops arbitrary: st)
    case (Cons op ops)
    have "alarm_covers (snd (do_step st op))"
      using Cons.prems by (cases op) (auto intro: alarm_covers_step)
    with Cons.IH [of "snd (do_step st op)"] do_step_invar(1) [OF Cons.prems(2), of op] Cons.prems(3)
    show ?case by (auto split: prod.splits)
  qed simp
  have "alarm_covers (open_authority No_table None)"
    by (simp add: alarm_covers_def open_authority_def Let_def initial_row_def)
  from run [OF this fresh_invar] assms(2) show ?thesis
    by (simp add: alarm_covers_def do_alarm_row alarm_body_def)
qed

theorem do_alarm_reaps_expired_witness:
  "ds_alarm (snd (do_run (open_authority No_table None) [(tick 10, Do_acquire (sample_acquire [97] 50))])) = Some 60"
proof -
  have "canonical_decimal [48]" by (simp add: canonical_decimal_def)
  then have "lr_expires_ms (ds_row (snd (do_run (open_authority No_table None)
      [(tick 10, Do_acquire (sample_acquire [97] 50))]))) = Some 60"
    by (simp add: do_answer_of_def do_acquire_def do_eval open_authority_def initial_row_def acquire_body_def
        acquire_fresh_def transactionSync_def nextToken_def Let_def js_simps parse_dec_def digit_value_def
        MAX_MINTED_FENCING_TOKEN_def bind_st_def setAlarm_def)
  from do_alarm_reaps_expired [OF _ this] show ?thesis by simp
qed

text \<open>
  Acquisition. For a well-formed request the answer is determined by the row: a free or
  expired row is granted the next token until \<open>now + ttl\<close> (or the counter is reported
  exhausted and the row is untouched); the holder of a live lease gets its own grant again,
  same token and same expiry, unless both the request and the row name different request ids;
  everyone else is told about contention.
\<close>

theorem do_acquire_exact:
  assumes "storage_invar st" and "acquire_valid body" and "de_alarm_ok env"
  shows "fst (do_acquire env body st) =
    (case live_owner (ds_row st) (de_now env) of
       None \<Rightarrow>
         if storage_counter st < MAX_MINTED_FENCING_TOKEN
         then Inr (Acquire_granted (dec_nat (storage_counter st + 1))
                (de_now env + number_of (get_prop body ''ttl_ms'')) (number_of (get_prop body ''ttl_ms'')))
         else Inr Acquire_exhausted
     | Some (h, t) \<Rightarrow>
         if h \<noteq> text_of (get_prop body ''holder'')
         then Inr (Acquire_contention (the (lr_expires_ms (ds_row st))))
         else if given_request (get_prop body ''request_id'') \<noteq> None \<and>
                 stored_request (lr_request_id (ds_row st)) \<noteq> None \<and>
                 given_request (get_prop body ''request_id'') \<noteq> stored_request (lr_request_id (ds_row st))
         then Inr (Acquire_other_request (the (lr_expires_ms (ds_row st))))
         else Inr (Acquire_replayed (Some t) (the (lr_expires_ms (ds_row st)))))"
proof (cases "live_owner (ds_row st) (de_now env)")
  case None
  have inv: "row_invar (ds_row st)" using assms(1) by (simp add: storage_invar_def)
  then have "\<not> held_at (ds_row st) (de_now env)"
    using None by (auto simp: held_at_def live_owner_def row_invar_def split: option.splits if_splits)
  note free = acquire_body_free [OF this]
  have "canonical_decimal (lr_next_token (ds_row st))" using inv by (rule row_invar_clear_cases)
  then show ?thesis
    using assms(2,3) None
    by (auto simp: do_acquire_def acquire_valid_def transactionSync_def free acquire_fresh_def nextToken_def
        storage_counter_def row_counter_def require_def bind_st_def setAlarm_def Let_def)
next
  case (Some ht)
  then show ?thesis
    using assms(2,3)
    by (cases ht) (auto simp: live_owner_def do_acquire_def acquire_valid_def transactionSync_def acquire_body_def
        bind_st_def setAlarm_def Let_def split: option.splits if_splits)
qed

theorem do_acquire_exact_witness:
  "fst (do_acquire (tick 50) (sample_acquire [97] 70) held_storage) = Inr (Acquire_replayed (Some (dec_nat 5)) 100) \<and>
   fst (do_acquire (tick 50) (sample_acquire [98] 70) held_storage) = Inr (Acquire_contention 100)"
proof -
  have "acquire_valid (sample_acquire [97] 70)" "acquire_valid (sample_acquire [98] 70)"
    by (simp_all add: acquire_valid_def do_eval)
  then show ?thesis
    using do_acquire_exact [OF held_storage_invar, of "sample_acquire [97] 70" "tick 50"]
      do_acquire_exact [OF held_storage_invar, of "sample_acquire [98] 70" "tick 50"]
    by (simp add: held_storage_def live_owner_def sample_acquire_def object_literal_def field_def
        text_of_def given_request_def)
qed

end
