(* ===== verification/Do_Http.thy ===== *)
theory Do_Http
  imports Do_Authority
begin

text \<open>
  \<open>managed/cloudflare-do/src/http-boundary.js\<close> and \<open>index.js\<close>: the public HTTP boundary of the
  Durable Object authority. A request is its method, path, headers and body stream; the worker
  keeps one authority per lock key (\<open>env.LOCKS.getByName\<close>), so the state of the boundary is a
  function from keys to storages. Three things outside the source are arguments: the digest of
  \<open>crypto.subtle\<close>, the JSON reader, and what happens to a remote call.
\<close>

section \<open>Definitions\<close>

subsection \<open>Operations and their fields\<close>

definition MAX_BODY_BYTES :: nat where "MAX_BODY_BYTES = 8 * 1024"
definition MAX_SCOPE_PREFIXES :: nat where "MAX_SCOPE_PREFIXES = 32"

definition ACQUIRE_PATH :: js_string where "ACQUIRE_PATH = js ''/v1/leases/acquire''"
definition RENEW_PATH :: js_string where "RENEW_PATH = js ''/v1/leases/renew''"
definition RELEASE_PATH :: js_string where "RELEASE_PATH = js ''/v1/leases/release''"

definition INTERNAL_FIELDS :: "(js_string \<times> js_string list) list" where
  "INTERNAL_FIELDS =
     [(ACQUIRE_PATH, map js [''holder'', ''ttl_ms'', ''request_id'']),
      (RENEW_PATH, map js [''holder'', ''ttl_ms'', ''fencing_token'']),
      (RELEASE_PATH, map js [''holder'', ''fencing_token''])]"

definition PUBLIC_FIELDS :: "(js_string \<times> js_string list) list" where
  "PUBLIC_FIELDS =
     [(ACQUIRE_PATH, map js [''key'', ''holder'', ''ttl_ms'', ''request_id'']),
      (RENEW_PATH, map js [''key'', ''holder'', ''ttl_ms'', ''fencing_token'']),
      (RELEASE_PATH, map js [''key'', ''holder'', ''fencing_token''])]"

definition isPlainObject :: "js_value \<Rightarrow> bool" where
  "isPlainObject v = (case v of JObject _ \<Rightarrow> True | JHostile \<Rightarrow> True | _ \<Rightarrow> False)"

fun object_keys :: "js_value \<Rightarrow> js_string list" where
  "object_keys (JObject ps) = List.map_filter (\<lambda>(k, _). case k of PName n \<Rightarrow> Some n | PSymbol _ \<Rightarrow> None) ps"
| "object_keys _ = []"

definition hasOnlyFields :: "js_value \<Rightarrow> js_string list \<Rightarrow> bool" where
  "hasOnlyFields body allowed = (isPlainObject body \<and> list_all (\<lambda>f. f \<in> set allowed) (object_keys body))"

datatype boundary_error =
    Invalid_body | Unknown_field | Invalid_key | Bad_holder | Bad_request_id | Bad_ttl | Bad_token

definition validateOperation ::
  "js_string \<Rightarrow> js_value \<Rightarrow> (js_string \<times> js_string list) list \<Rightarrow> bool \<Rightarrow> boundary_error option" where
  "validateOperation path body allowedFields requireKey =
     (case map_of allowedFields path of
        None \<Rightarrow> Some Invalid_body
      | Some allowed \<Rightarrow>
          if \<not> isPlainObject body then Some Invalid_body
          else if \<not> hasOnlyFields body allowed then Some Unknown_field
          else if requireKey \<and> \<not> validIdentity (get_prop body ''key'') MAX_LOCK_KEY_BYTES then Some Invalid_key
          else if \<not> validHolder (get_prop body ''holder'') then Some Bad_holder
          else if path = ACQUIRE_PATH \<and> \<not> validRequestId (get_prop body ''request_id'') then Some Bad_request_id
          else if path \<noteq> RELEASE_PATH \<and> \<not> validTtl (get_prop body ''ttl_ms'') then Some Bad_ttl
          else if path \<noteq> ACQUIRE_PATH \<and> canonicalToken (get_prop body ''fencing_token'') = None then Some Bad_token
          else None)"

definition validatePublicOperation :: "js_string \<Rightarrow> js_value \<Rightarrow> boundary_error option" where
  "validatePublicOperation path body = validateOperation path body PUBLIC_FIELDS True"

definition validateInternalOperation :: "js_string \<Rightarrow> js_value \<Rightarrow> boundary_error option" where
  "validateInternalOperation path body = validateOperation path body INTERNAL_FIELDS False"

definition knownLeasePath :: "js_string \<Rightarrow> bool" where
  "knownLeasePath path = (map_of PUBLIC_FIELDS path \<noteq> None)"

subsection \<open>Scope policy\<close>

text \<open>
  \<open>toLowerCase\<close> on code units below 128; no other character has a lower case among the letters
  of the two words the result is compared with.
\<close>

definition lower_unit :: "code_unit \<Rightarrow> code_unit" where
  "lower_unit u = (if 65 \<le> u \<and> u \<le> 90 then u + 32 else u)"

record worker_env =
  we_environment :: "js_string option"
  we_policy_json :: "js_string option"
  we_api_token :: "js_string option"
  we_allow_unauthenticated :: "js_string option"

definition productionMode :: "worker_env \<Rightarrow> bool" where
  "productionMode env =
     (let mode = map lower_unit (case we_environment env of None \<Rightarrow> [] | Some s \<Rightarrow> s)
      in mode = js ''production'' \<or> mode = js ''prod'')"

definition PUBLIC_OPERATION :: "(js_string \<times> js_string) list" where
  "PUBLIC_OPERATION =
     [(ACQUIRE_PATH, js ''acquire''), (RENEW_PATH, js ''renew''), (RELEASE_PATH, js ''release'')]"

definition SCOPE_POLICY_FIELDS :: "js_string list" where
  "SCOPE_POLICY_FIELDS = map js [''key_prefixes'', ''operations'', ''max_ttl_ms'']"

definition SCOPE_OPERATIONS :: "js_string list" where
  "SCOPE_OPERATIONS = map snd PUBLIC_OPERATION"

text \<open>\<open>text.split("/")\<close>.\<close>

fun split_slash :: "js_string \<Rightarrow> js_string list" where
  "split_slash [] = [[]]"
| "split_slash (u # us) =
     (if u = 47 then [] # split_slash us
      else case split_slash us of [] \<Rightarrow> [[u]] | c # cs \<Rightarrow> (u # c) # cs)"

definition validScopePrefix :: "js_value \<Rightarrow> bool" where
  "validScopePrefix prefix =
     (case prefix of
        JString s \<Rightarrow>
          validIdentity prefix MAX_LOCK_KEY_BYTES \<and> (s \<noteq> [] \<and> last s = 47) \<and> 92 \<notin> set s \<and>
          (let components = split_slash (butlast s)
           in length components > 0 \<and>
              list_all (\<lambda>c. length c > 0 \<and> c \<noteq> js ''.'' \<and> c \<noteq> js ''..'') components)
      | _ \<Rightarrow> False)"

record scope_policy =
  sp_keyPrefixes :: "js_string list"
  sp_operations :: "js_string list"
  sp_maxTtlMs :: int

datatype scope_result =
    Scope_absent
  | Scope_invalid
  | Scope_configured scope_policy

definition array_strings :: "js_value \<Rightarrow> js_string list" where
  "array_strings v = (case v of JArray vs \<Rightarrow> map text_of vs | _ \<Rightarrow> [])"

definition valid_prefixes :: "js_value \<Rightarrow> bool" where
  "valid_prefixes v =
     (case v of
        JArray vs \<Rightarrow> length vs \<noteq> 0 \<and> \<not> length vs > MAX_SCOPE_PREFIXES \<and> list_all validScopePrefix vs \<and> distinct vs
      | _ \<Rightarrow> False)"

definition valid_operations :: "js_value \<Rightarrow> bool" where
  "valid_operations v =
     (case v of
        JArray vs \<Rightarrow> length vs \<noteq> 0 \<and>
          list_all (\<lambda>w. case w of JString s \<Rightarrow> s \<in> set SCOPE_OPERATIONS | _ \<Rightarrow> False) vs \<and> distinct vs
      | _ \<Rightarrow> False)"

definition parsePublicScopePolicy :: "(js_string \<Rightarrow> js_value option) \<Rightarrow> js_string option \<Rightarrow> scope_result" where
  "parsePublicScopePolicy json_parse raw =
     (case raw of
        None \<Rightarrow> Scope_absent
      | Some s \<Rightarrow>
          if s = [] then Scope_absent
          else case json_parse s of
            None \<Rightarrow> Scope_invalid
          | Some v \<Rightarrow>
              if \<not> isPlainObject v \<or> \<not> hasOnlyFields v SCOPE_POLICY_FIELDS then Scope_invalid
              else if \<not> valid_prefixes (get_prop v ''key_prefixes'') \<or> \<not> valid_operations (get_prop v ''operations'') \<or>
                      \<not> validTtl (get_prop v ''max_ttl_ms'')
              then Scope_invalid
              else Scope_configured \<lparr>sp_keyPrefixes = array_strings (get_prop v ''key_prefixes''),
                     sp_operations = array_strings (get_prop v ''operations''),
                     sp_maxTtlMs = number_of (get_prop v ''max_ttl_ms'')\<rparr>)"

datatype denial = Operation_not_allowed | Key_not_allowed | Ttl_exceeds_scope

definition starts_with :: "js_string \<Rightarrow> js_string \<Rightarrow> bool" where
  "starts_with s prefix = (take (length prefix) s = prefix)"

definition authorizePublicOperation :: "scope_policy option \<Rightarrow> js_string \<Rightarrow> js_value \<Rightarrow> denial option" where
  "authorizePublicOperation policy path body =
     (case policy of
        None \<Rightarrow> None
      | Some p \<Rightarrow>
          case map_of PUBLIC_OPERATION path of
            None \<Rightarrow> Some Operation_not_allowed
          | Some operation \<Rightarrow>
              if operation \<notin> set (sp_operations p) then Some Operation_not_allowed
              else if \<not> list_ex (starts_with (text_of (get_prop body ''key''))) (sp_keyPrefixes p)
              then Some Key_not_allowed
              else if path \<noteq> RELEASE_PATH \<and> number_of (get_prop body ''ttl_ms'') > sp_maxTtlMs p
              then Some Ttl_exceeds_scope
              else None)"

subsection \<open>Bearer credential\<close>

definition line_terminator :: "code_unit \<Rightarrow> bool" where
  "line_terminator u = (u = 10 \<or> u = 13 \<or> u = 0x2028 \<or> u = 0x2029)"

text \<open>
  The capture of \<open>/^Bearer[ ]+(.+)$/i\<close>, or the empty string. The run of spaces is taken greedily and
  gives one space back when nothing follows it.
\<close>

definition parseBearer :: "js_string option \<Rightarrow> js_string" where
  "parseBearer header =
     (let auth = (case header of None \<Rightarrow> [] | Some s \<Rightarrow> s);
          rest = drop 6 auth;
          spaces = takeWhile (\<lambda>u. u = 32) rest;
          after = dropWhile (\<lambda>u. u = 32) rest
      in if map lower_unit (take 6 auth) \<noteq> js ''bearer'' \<or> spaces = [] then []
         else if after \<noteq> [] then (if list_ex line_terminator after then [] else after)
         else if length spaces > 1 then [32] else [])"

definition digest_difference :: "byte list \<Rightarrow> byte list \<Rightarrow> byte" where
  "digest_difference actual expected =
     foldl (\<lambda>d i. or d (xor (actual ! i) (expected ! i))) 0 [0..<length expected]"

definition bearerMatches :: "(byte list \<Rightarrow> byte list) \<Rightarrow> js_string option \<Rightarrow> js_string option \<Rightarrow> bool" where
  "bearerMatches sha256 header expected =
     (case expected of
        None \<Rightarrow> False
      | Some e \<Rightarrow>
          if e = [] then False
          else digest_difference (sha256 (text_encode (parseBearer header))) (sha256 (text_encode e)) = 0)"

subsection \<open>Reading the body\<close>

text \<open>
  A request. \<open>rq_content_length\<close> is \<open>Number(header)\<close> when the header is present. A body stream
  is the chunks it yields and whether it then fails; \<open>rq_cancel_ok\<close> says whether cancelling it
  works.
\<close>

record http_request =
  rq_method :: js_string
  rq_path :: js_string
  rq_authorization :: "js_string option"
  rq_content_length :: "js_number option"
  rq_body :: "(byte list list \<times> bool) option"
  rq_cancel_ok :: bool

datatype http_error =
    Err_invalid_content_length
  | Err_body_too_large
  | Err_invalid_json
  | Err_method_not_allowed
  | Err_not_found
  | Err_unsafe_configuration
  | Err_authority_not_configured
  | Err_unauthorized
  | Err_forbidden
  | Err_authority_rpc_failed
  | Err_validation boundary_error

fun read_chunks :: "bool \<Rightarrow> nat \<Rightarrow> byte list list \<Rightarrow> bool \<Rightarrow> (http_error \<times> nat) + byte list list" where
  "read_chunks cancel_ok sofar [] fails = (if fails then Inl (Err_invalid_json, 400) else Inr [])"
| "read_chunks cancel_ok sofar (c # cs) fails =
     (let total' = sofar + length c in
      if total' > MAX_BODY_BYTES
      then (if cancel_ok then Inl (Err_body_too_large, 413) else Inl (Err_invalid_json, 400))
      else and_then (read_chunks cancel_ok total' cs fails) (\<lambda>rest. Inr (c # rest)))"

definition readBoundedJson :: "(byte list \<Rightarrow> js_value option) \<Rightarrow> http_request \<Rightarrow> (http_error \<times> nat) + js_value" where
  "readBoundedJson json_decode rq =
     and_then
       (case rq_content_length rq of
          None \<Rightarrow> Inr ()
        | Some parsed \<Rightarrow>
            if \<not> is_safe_integer parsed \<or> int_of_number parsed < 0 then Inl (Err_invalid_content_length, 400)
            else if int_of_number parsed > int MAX_BODY_BYTES then Inl (Err_body_too_large, 413)
            else Inr ()) (\<lambda>_.
     case rq_body rq of
       None \<Rightarrow> Inl (Err_invalid_json, 400)
     | Some (chunks, fails) \<Rightarrow>
         and_then (read_chunks (rq_cancel_ok rq) 0 chunks fails) (\<lambda>cs.
         case json_decode (concat cs) of
           None \<Rightarrow> Inl (Err_invalid_json, 400)
         | Some body \<Rightarrow> Inr body))"

definition token_prop :: "js_value \<Rightarrow> js_value" where
  "token_prop v = (case canonicalToken v of None \<Rightarrow> JNull | Some t \<Rightarrow> JString t)"

definition internalBody :: "js_string \<Rightarrow> js_value \<Rightarrow> js_value" where
  "internalBody path body =
     (if path = ACQUIRE_PATH then
        object_literal ([(''holder'', get_prop body ''holder''), (''ttl_ms'', get_prop body ''ttl_ms'')] @
          (if get_prop body ''request_id'' = JUndefined then [] else [(''request_id'', get_prop body ''request_id'')]))
      else if path = RENEW_PATH then
        object_literal [(''holder'', get_prop body ''holder''), (''ttl_ms'', get_prop body ''ttl_ms''),
          (''fencing_token'', token_prop (get_prop body ''fencing_token''))]
      else
        object_literal [(''holder'', get_prop body ''holder''),
          (''fencing_token'', token_prop (get_prop body ''fencing_token''))])"

subsection \<open>The worker\<close>

datatype response_body =
    Resp_health
  | Resp_error http_error
  | Resp_result do_answer

record http_response =
  rs_status :: nat
  rs_body :: response_body

definition json :: "response_body \<Rightarrow> nat \<Rightarrow> http_response" where
  "json body status = \<lparr>rs_status = status, rs_body = body\<rparr>"

fun rpcStatus :: "do_answer \<Rightarrow> nat" where
  "rpcStatus (Answer_acquire Acquire_exhausted) = 503"
| "rpcStatus (Answer_acquire (Acquire_invalid _)) = 400"
| "rpcStatus (Answer_renew _ (Renew_invalid _)) = 400"
| "rpcStatus (Answer_release _ (Release_invalid _)) = 400"
| "rpcStatus _ = 200"

definition invokeRpc :: "js_string \<Rightarrow> js_value \<Rightarrow> do_request" where
  "invokeRpc path body =
     (if path = ACQUIRE_PATH then Do_acquire body
      else if path = RENEW_PATH then Do_renew body else Do_release body)"

text \<open>A remote call reaches the object or not, and its answer comes back or not.\<close>

datatype rpc_fate = Rpc_ok | Rpc_not_sent | Rpc_answer_lost

type_synonym lock_objects = "js_string \<Rightarrow> do_storage"

definition call_object :: "rpc_fate \<Rightarrow> do_env \<Rightarrow> js_string \<Rightarrow> do_request \<Rightarrow> lock_objects \<Rightarrow> do_answer option \<times> lock_objects" where
  "call_object fate env key req locks =
     (if fate = Rpc_not_sent then (None, locks)
      else case do_step (locks key) (env, req) of
        (a, st) \<Rightarrow>
          ((if fate = Rpc_answer_lost then None else case a of Answer_error _ \<Rightarrow> None | _ \<Rightarrow> Some a),
           locks(key := st)))"

text \<open>\<open>LockLeaseObject.fetch\<close>: the same operations for callers that post to the object.\<close>

definition object_fetch ::
  "(byte list \<Rightarrow> js_value option) \<Rightarrow> do_env \<Rightarrow> http_request \<Rightarrow> do_storage \<Rightarrow> (do_error + http_response) \<times> do_storage" where
  "object_fetch json_decode env rq st =
     (if rq_method rq \<noteq> js ''POST'' then (Inr (json (Resp_error Err_method_not_allowed) 405), st)
      else if \<not> knownLeasePath (rq_path rq) then (Inr (json (Resp_error Err_not_found) 404), st)
      else case readBoundedJson json_decode rq of
        Inl (e, status) \<Rightarrow> (Inr (json (Resp_error e) status), st)
      | Inr body \<Rightarrow>
          case validateInternalOperation (rq_path rq) body of
            Some e \<Rightarrow> (Inr (json (Resp_error (Err_validation e)) 400), st)
          | None \<Rightarrow>
              case do_step st (env, invokeRpc (rq_path rq) (internalBody (rq_path rq) body)) of
                (Answer_error e, st') \<Rightarrow> (Inl e, st')
              | (a, st') \<Rightarrow> (Inr (json (Resp_result a) (rpcStatus a)), st'))"

definition scope_policy_of :: "scope_result \<Rightarrow> scope_policy option" where
  "scope_policy_of scope = (case scope of Scope_configured p \<Rightarrow> Some p | _ \<Rightarrow> None)"

definition worker_fetch ::
  "(byte list \<Rightarrow> byte list) \<Rightarrow> (js_string \<Rightarrow> js_value option) \<Rightarrow> (byte list \<Rightarrow> js_value option) \<Rightarrow>
   rpc_fate \<Rightarrow> do_env \<Rightarrow> worker_env \<Rightarrow> http_request \<Rightarrow> lock_objects \<Rightarrow> http_response \<times> lock_objects" where
  "worker_fetch sha256 json_parse json_decode fate clock env rq locks =
     (if rq_path rq = js ''/healthz'' then (json Resp_health 200, locks)
      else if \<not> knownLeasePath (rq_path rq) then (json (Resp_error Err_not_found) 404, locks)
      else if rq_method rq \<noteq> js ''POST'' then (json (Resp_error Err_method_not_allowed) 405, locks)
      else
        let allowUnauthenticated = (we_allow_unauthenticated env = Some (js ''true''));
            scope = parsePublicScopePolicy json_parse (we_policy_json env)
        in if scope = Scope_invalid \<or> (productionMode env \<and> (scope = Scope_absent \<or> allowUnauthenticated))
        then (json (Resp_error Err_unsafe_configuration) 503, locks)
        else if (we_api_token env = None \<or> we_api_token env = Some []) \<and> \<not> allowUnauthenticated
        then (json (Resp_error Err_authority_not_configured) 503, locks)
        else if \<not> allowUnauthenticated \<and> \<not> bearerMatches sha256 (rq_authorization rq) (we_api_token env)
        then (json (Resp_error Err_unauthorized) 401, locks)
        else case readBoundedJson json_decode rq of
          Inl (e, status) \<Rightarrow> (json (Resp_error e) status, locks)
        | Inr body \<Rightarrow>
            case validatePublicOperation (rq_path rq) body of
              Some e \<Rightarrow> (json (Resp_error (Err_validation e)) 400, locks)
            | None \<Rightarrow>
                if authorizePublicOperation (scope_policy_of scope) (rq_path rq) body \<noteq> None
                then (json (Resp_error Err_forbidden) 403, locks)
                else case call_object fate clock (text_of (get_prop body ''key''))
                            (invokeRpc (rq_path rq) (internalBody (rq_path rq) body)) locks of
                  (Some a, locks') \<Rightarrow> (json (Resp_result a) (rpcStatus a), locks')
                | (None, locks') \<Rightarrow> (json (Resp_error Err_authority_rpc_failed) 503, locks'))"

section \<open>Lemmas\<close>

lemma paths_distinct [simp]:
  "ACQUIRE_PATH \<noteq> RENEW_PATH" "ACQUIRE_PATH \<noteq> RELEASE_PATH" "RENEW_PATH \<noteq> RELEASE_PATH"
  "RENEW_PATH \<noteq> ACQUIRE_PATH" "RELEASE_PATH \<noteq> ACQUIRE_PATH" "RELEASE_PATH \<noteq> RENEW_PATH"
  by (simp_all add: ACQUIRE_PATH_def RENEW_PATH_def RELEASE_PATH_def)

lemma knownLeasePath_iff: "knownLeasePath path \<longleftrightarrow> path \<in> {ACQUIRE_PATH, RENEW_PATH, RELEASE_PATH}"
  by (auto simp: knownLeasePath_def PUBLIC_FIELDS_def)

lemma get_prop_literal:
  "get_prop (object_literal fs) name = (case map_of fs name of None \<Rightarrow> JUndefined | Some v \<Rightarrow> v)"
  by (induction fs) (auto simp: object_literal_def field_def)

lemma canonicalToken_idem:
  "canonicalToken v = Some t \<Longrightarrow> canonicalToken (JString t) = Some t"
proof -
  have big: "MAX_SAFE_INTEGER < int MAX_PERSISTED_FENCING_TOKEN"
    by (simp add: MAX_SAFE_INTEGER_def MAX_PERSISTED_FENCING_TOKEN_def)
  have pos: "0 < n \<Longrightarrow> n \<le> MAX_PERSISTED_FENCING_TOKEN \<Longrightarrow> canonicalToken (JString (dec_nat n)) = Some (dec_nat n)" for n
    by (simp add: canonicalToken_def positive_dec_nat)
  assume v: "canonicalToken v = Some t"
  show ?thesis
  proof (cases v)
    case (JNumber n)
    with v obtain i where "n = NInt i" "0 < i" "i \<le> MAX_SAFE_INTEGER" "t = dec_nat (nat i)"
      by (cases n) (auto simp: canonicalToken_def dec_int_def split: if_splits)
    with big show ?thesis by (simp add: pos)
  next
    case (JString s)
    with v have "positive_decimal s" "parse_dec s \<le> MAX_PERSISTED_FENCING_TOKEN" "t = dec_nat (parse_dec s)"
      by (auto simp: canonicalToken_def Let_def split: if_splits)
    with positive_decimal_parse [of s] v JString show ?thesis by simp
  qed (use v in \<open>simp_all add: canonicalToken_def\<close>)
qed

text \<open>A body that passed the public boundary passes the validation of the object.\<close>

lemma public_then_authority_valid:
  assumes "validatePublicOperation path body = None"
  shows "path = ACQUIRE_PATH \<Longrightarrow> acquire_valid (internalBody path body)"
    and "path = RENEW_PATH \<Longrightarrow> renew_valid (internalBody path body)"
    and "path \<noteq> ACQUIRE_PATH \<Longrightarrow>
      canonicalToken (get_prop (internalBody path body) ''fencing_token'') =
      canonicalToken (get_prop body ''fencing_token'') \<and> canonicalToken (get_prop body ''fencing_token'') \<noteq> None"
    and "validHolder (get_prop (internalBody path body) ''holder'')"
    and "text_of (get_prop (internalBody path body) ''holder'') = text_of (get_prop body ''holder'')"
  using assms canonicalToken_idem
  by (auto simp: validatePublicOperation_def validateOperation_def internalBody_def get_prop_literal token_prop_def
      acquire_valid_def renew_valid_def validRequestId_def split: option.splits if_splits)

lemma acquire_invalid_answer:
  "acquire_valid body \<Longrightarrow> fst (do_acquire env body st) \<noteq> Inr (Acquire_invalid c)"
proof (cases "acquire_body (de_now env) body (ds_row st)")
  case (Pair r row)
  assume valid: "acquire_valid body"
  have "r \<noteq> Inr (Acquire_invalid c)"
    using Pair by (auto simp: acquire_body_def acquire_fresh_def Let_def split: option.splits if_splits sum.splits)
  then show ?thesis
    using valid Pair
    by (cases r; cases "projl r"; cases "projr r")
      (auto simp: do_acquire_def acquire_valid_def transactionSync_def bind_st_def setAlarm_def Let_def)
qed

lemma renew_invalid_answer:
  "renew_valid body \<Longrightarrow> canonicalToken (get_prop body ''fencing_token'') \<noteq> None \<Longrightarrow>
   fst (do_renew env body st) \<noteq> Inr (Renew_invalid c)"
  by (auto simp: do_renew_def renew_valid_def transactionSync_def renew_body_def bind_st_def setAlarm_def Let_def
      split: option.splits)

lemma release_invalid_answer:
  "validHolder (get_prop body ''holder'') \<Longrightarrow> canonicalToken (get_prop body ''fencing_token'') \<noteq> None \<Longrightarrow>
   fst (do_release env body st) \<noteq> Inr (Release_invalid c)"
  by (auto simp: do_release_def transactionSync_def release_body_def bind_st_def deleteAlarm_def Let_def
      split: option.splits if_splits)

lemma split_slash_nonempty [simp]: "split_slash us \<noteq> []"
  by (induction us) (auto split: list.split)

lemma split_slash_append: "split_slash (xs @ 47 # ys) = split_slash xs @ split_slash ys"
  by (induction xs) (auto split: list.split)

lemma starts_with_iff: "starts_with s p \<longleftrightarrow> (\<exists>r. s = p @ r)"
  by (auto simp: starts_with_def) (metis append_take_drop_id)

lemma read_chunks_bounded:
  "read_chunks ok n cs fails = Inr ds \<Longrightarrow> ds = cs \<and> \<not> fails \<and> (n \<le> MAX_BODY_BYTES \<longrightarrow> n + length (concat cs) \<le> MAX_BODY_BYTES)"
proof (induction ok n cs fails arbitrary: ds rule: read_chunks.induct)
  case (2 ok n c cs fails)
  from "2.prems" obtain es where small: "\<not> n + length c > MAX_BODY_BYTES"
    and es: "read_chunks ok (n + length c) cs fails = Inr es" "ds = c # es"
    by (auto simp: Let_def and_then_eq_Inr split: if_splits)
  from "2.IH" [OF refl small es(1)] small es(2) show ?case by simp
qed (simp split: if_splits)

lemma digest_difference_zero:
  assumes "length actual = length expected"
  shows "digest_difference actual expected = 0 \<longleftrightarrow> actual = expected"
proof -
  have fold: "foldl (\<lambda>d i. or d (xor (actual ! i) (expected ! i))) d is = 0 \<longleftrightarrow>
      d = 0 \<and> (\<forall>i \<in> set is. actual ! i = expected ! i)" for d :: byte and "is"
  proof (induction "is" arbitrary: d)
    case (Cons i js)
    have "or d (xor (actual ! i) (expected ! i)) = 0 \<longleftrightarrow> d = 0 \<and> actual ! i = expected ! i"
      by (auto simp: or_eq_0_iff) (metis xor.assoc xor_self_eq xor.left_neutral xor.right_neutral)
    with Cons.IH show ?case by auto
  qed simp
  show ?thesis
    unfolding digest_difference_def fold using assms by (auto intro: nth_equalityI)
qed

text \<open>A request that reaches an object passed every gate.\<close>

definition request_admitted ::
  "(byte list \<Rightarrow> byte list) \<Rightarrow> (js_string \<Rightarrow> js_value option) \<Rightarrow> worker_env \<Rightarrow> http_request \<Rightarrow> js_value \<Rightarrow> bool" where
  "request_admitted sha256 json_parse env rq body =
     (let scope = parsePublicScopePolicy json_parse (we_policy_json env) in
      rq_method rq = js ''POST'' \<and> knownLeasePath (rq_path rq) \<and> scope \<noteq> Scope_invalid \<and>
      (productionMode env \<longrightarrow> scope \<noteq> Scope_absent \<and> we_allow_unauthenticated env \<noteq> Some (js ''true'')) \<and>
      (we_allow_unauthenticated env = Some (js ''true'') \<or>
       bearerMatches sha256 (rq_authorization rq) (we_api_token env)) \<and>
      validatePublicOperation (rq_path rq) body = None \<and>
      authorizePublicOperation (scope_policy_of scope) (rq_path rq) body = None)"

lemma worker_fetch_gate:
  "worker_fetch sha256 json_parse json_decode fate clock env rq locks = (resp, locks') \<Longrightarrow>
   locks' = locks \<and> (\<forall>a. rs_body resp \<noteq> Resp_result a) \<or>
   (\<exists>body. readBoundedJson json_decode rq = Inr body \<and> request_admitted sha256 json_parse env rq body \<and>
      call_object fate clock (text_of (get_prop body ''key''))
        (invokeRpc (rq_path rq) (internalBody (rq_path rq) body)) locks =
      ((case rs_body resp of Resp_result a \<Rightarrow> Some a | _ \<Rightarrow> None), locks'))"
  by (auto simp: worker_fetch_def request_admitted_def json_def Let_def split: if_splits sum.splits option.splits prod.splits)

lemma worker_fetch_admitted:
  assumes "request_admitted sha256 json_parse env rq body" and "readBoundedJson json_decode rq = Inr body"
  shows "snd (worker_fetch sha256 json_parse json_decode fate clock env rq locks) =
    snd (call_object fate clock (text_of (get_prop body ''key''))
        (invokeRpc (rq_path rq) (internalBody (rq_path rq) body)) locks)"
proof -
  have path: "knownLeasePath (rq_path rq)" using assms(1) by (simp add: request_admitted_def Let_def)
  then have "rq_path rq \<noteq> js ''/healthz''"
    by (auto simp: knownLeasePath_iff ACQUIRE_PATH_def RENEW_PATH_def RELEASE_PATH_def)
  moreover have "we_allow_unauthenticated env = Some (js ''true'') \<or> we_api_token env \<noteq> None \<and> we_api_token env \<noteq> Some []"
    using assms(1) by (auto simp: request_admitted_def bearerMatches_def Let_def split: option.splits if_splits)
  ultimately show ?thesis
    using assms path
    by (auto simp: worker_fetch_def request_admitted_def Let_def split: prod.split option.split)
qed

section \<open>Properties\<close>

text \<open>Concrete requests and parameters for the witnesses.\<close>

definition sample_body :: js_value where
  "sample_body = object_literal [(''key'', JString (js ''a/x'')), (''holder'', JString (js ''h'')),
     (''ttl_ms'', JNumber (NInt 50))]"

definition sample_policy :: js_value where
  "sample_policy = object_literal [(''key_prefixes'', JArray [JString (js ''a/'')]),
     (''operations'', JArray [JString (js ''acquire'')]), (''max_ttl_ms'', JNumber (NInt 60))]"

definition sample_worker :: worker_env where
  "sample_worker = \<lparr>we_environment = Some (js ''Prod''), we_policy_json = Some [123],
     we_api_token = Some (js ''s''), we_allow_unauthenticated = None\<rparr>"

definition sample_http :: http_request where
  "sample_http = \<lparr>rq_method = js ''POST'', rq_path = ACQUIRE_PATH, rq_authorization = Some (js ''Bearer s''),
     rq_content_length = None, rq_body = Some ([[1], [2]], False), rq_cancel_ok = True\<rparr>"

definition sample_digest :: "byte list \<Rightarrow> byte list" where
  "sample_digest bs = take 32 (bs @ replicate 32 0)"

lemma sample_body_valid: "validatePublicOperation ACQUIRE_PATH sample_body = None"
  by code_simp

lemma sample_admitted:
  "request_admitted sample_digest (\<lambda>_. Some sample_policy) sample_worker sample_http sample_body"
  by code_simp

lemma call_object_frame:
  "call_object fate clock key req locks = (r, locks') \<Longrightarrow> k \<noteq> key \<Longrightarrow> locks' k = locks k"
  by (auto simp: call_object_def split: if_splits prod.splits)

text \<open>
  C23: nothing behind the boundary changes without authority. If a request changes any lock
  object, it was a \<open>POST\<close> to a lease path, the configuration was not unsafe, its bearer
  credential matched (or unauthenticated use was switched on, which production mode refuses),
  its body was read within the limit and passed validation and the scope policy, and only the
  object of the key it names changed.
\<close>

theorem worker_changes_only_admitted:
  assumes "worker_fetch sha256 json_parse json_decode fate clock env rq locks = (resp, locks')"
    and "locks' k \<noteq> locks k"
  shows "\<exists>body. readBoundedJson json_decode rq = Inr body \<and> request_admitted sha256 json_parse env rq body \<and>
    k = text_of (get_prop body ''key'') \<and>
    locks' k = snd (do_step (locks k) (clock, invokeRpc (rq_path rq) (internalBody (rq_path rq) body)))"
proof -
  from worker_fetch_gate [OF assms(1)] assms(2) obtain body r where
    body: "readBoundedJson json_decode rq = Inr body" "request_admitted sha256 json_parse env rq body"
    and call: "call_object fate clock (text_of (get_prop body ''key''))
        (invokeRpc (rq_path rq) (internalBody (rq_path rq) body)) locks = (r, locks')"
    by auto
  then have "k = text_of (get_prop body ''key'')" using call_object_frame [OF call] assms(2) by blast
  with call assms(2) body show ?thesis
    by (auto simp: call_object_def split: if_splits prod.splits)
qed

theorem worker_changes_only_admitted_witness:
  "\<exists>body. readBoundedJson (\<lambda>_. Some sample_body) sample_http = Inr body \<and>
     request_admitted sample_digest (\<lambda>_. Some sample_policy) sample_worker sample_http body"
proof -
  let ?req = "invokeRpc ACQUIRE_PATH (internalBody ACQUIRE_PATH sample_body)"
  have read: "readBoundedJson (\<lambda>_. Some sample_body) sample_http = Inr sample_body" by code_simp
  have key: "text_of (get_prop sample_body ''key'') = js ''a/x''" by code_simp
  have "?req = Do_acquire (sample_acquire [104] 50)" by code_simp
  then have "lr_expires_ms (ds_row (snd (do_step held_storage (tick 200, ?req)))) = Some 250"
    by (simp add: do_answer_of_def do_acquire_def do_eval held_storage_def acquire_body_def
        acquire_fresh_def transactionSync_def nextToken_def canonical_dec_nat
        MAX_MINTED_FENCING_TOKEN_def bind_st_def setAlarm_def)
  then have change: "snd (do_step held_storage (tick 200, ?req)) \<noteq> held_storage"
    by (auto simp: held_storage_def)
  have "snd (worker_fetch sample_digest (\<lambda>_. Some sample_policy) (\<lambda>_. Some sample_body) Rpc_ok (tick 200)
      sample_worker sample_http (\<lambda>_. held_storage)) (js ''a/x'') = snd (do_step held_storage (tick 200, ?req))"
    using worker_fetch_admitted [OF sample_admitted read, of Rpc_ok "tick 200" "\<lambda>_. held_storage"]
    by (simp add: call_object_def key prod.case_eq_if sample_http_def)
  with change worker_changes_only_admitted [OF prod.collapse [symmetric]] show ?thesis by metis
qed

text \<open>
  C24: in production mode an admitted request is inside the configured scope: the policy allows
  its operation, its lease term is at most the policy's maximum, and the path components of
  its key begin with all components of one configured prefix, followed by at least one more, so a
  prefix never admits a sibling whose name merely starts with the same characters.
\<close>

theorem production_scope_confines:
  assumes "productionMode env" and "request_admitted sha256 json_parse env rq body"
  shows "bearerMatches sha256 (rq_authorization rq) (we_api_token env) \<and>
    (\<exists>p. parsePublicScopePolicy json_parse (we_policy_json env) = Scope_configured p \<and>
       the (map_of PUBLIC_OPERATION (rq_path rq)) \<in> set (sp_operations p) \<and>
       (rq_path rq = RELEASE_PATH \<or> number_of (get_prop body ''ttl_ms'') \<le> sp_maxTtlMs p) \<and>
       (\<exists>prefix \<in> set (sp_keyPrefixes p). \<exists>rest. rest \<noteq> [] \<and> last prefix = 47 \<and>
          split_slash (text_of (get_prop body ''key'')) = split_slash (butlast prefix) @ rest))"
proof -
  obtain p where p: "parsePublicScopePolicy json_parse (we_policy_json env) = Scope_configured p"
    using assms by (cases "parsePublicScopePolicy json_parse (we_policy_json env)")
      (auto simp: request_admitted_def Let_def)
  with assms have auth: "authorizePublicOperation (Some p) (rq_path rq) body = None"
    and bearer: "bearerMatches sha256 (rq_authorization rq) (we_api_token env)"
    by (auto simp: request_admitted_def Let_def scope_policy_of_def)
  from auth obtain prefix where prefix: "prefix \<in> set (sp_keyPrefixes p)"
    and starts: "starts_with (text_of (get_prop body ''key'')) prefix"
    by (auto simp: authorizePublicOperation_def list_ex_iff split: option.splits if_splits)
  from p obtain v where "valid_prefixes (get_prop v ''key_prefixes'')"
    and "sp_keyPrefixes p = array_strings (get_prop v ''key_prefixes'')"
    by (auto simp: parsePublicScopePolicy_def split: option.splits if_splits)
  then have "prefix \<noteq> [] \<and> last prefix = 47"
    using prefix by (auto simp: valid_prefixes_def array_strings_def list_all_iff validScopePrefix_def text_of_def
        split: js_value.splits)
  then have "prefix = butlast prefix @ [47]" and slash: "last prefix = 47" by (metis append_butlast_last_id)+
  moreover obtain r where "text_of (get_prop body ''key'') = prefix @ r" using starts starts_with_iff by blast
  ultimately have "split_slash (text_of (get_prop body ''key'')) = split_slash (butlast prefix) @ split_slash r"
    using split_slash_append [of "butlast prefix" r] by (metis append.assoc append_Cons append_Nil)
  with prefix slash have "\<exists>prefix \<in> set (sp_keyPrefixes p). \<exists>rest. rest \<noteq> [] \<and> last prefix = 47 \<and>
      split_slash (text_of (get_prop body ''key'')) = split_slash (butlast prefix) @ rest"
    using split_slash_nonempty by blast
  moreover have "the (map_of PUBLIC_OPERATION (rq_path rq)) \<in> set (sp_operations p)"
    and "rq_path rq = RELEASE_PATH \<or> number_of (get_prop body ''ttl_ms'') \<le> sp_maxTtlMs p"
    using auth by (auto simp: authorizePublicOperation_def split: option.splits if_splits)
  ultimately show ?thesis using p bearer by blast
qed

theorem production_scope_confines_witness:
  "bearerMatches sample_digest (rq_authorization sample_http) (we_api_token sample_worker)"
proof -
  have "productionMode sample_worker" by code_simp
  from production_scope_confines [OF this sample_admitted] show ?thesis by blast
qed

text \<open>
  The boundary and the authority agree on validity: a body the boundary lets through is never
  rejected as malformed by the authority, whatever its state, so status 400 means that no object
  was called; and a body is only ever decoded from at most 8192 bytes.
\<close>

theorem boundary_validation_complete:
  assumes "knownLeasePath path" and "validatePublicOperation path body = None"
  shows "rpcStatus (fst (do_step st (clock, invokeRpc path (internalBody path body)))) \<noteq> 400 \<and>
    (readBoundedJson json_decode rq = Inr body' \<longrightarrow>
       (\<exists>chunks. rq_body rq = Some (chunks, False) \<and> length (concat chunks) \<le> 8192 \<and>
          json_decode (concat chunks) = Some body'))"
proof -
  note valid = public_then_authority_valid [OF assms(2)]
  from assms(1) consider "path = ACQUIRE_PATH" | "path = RENEW_PATH" | "path = RELEASE_PATH"
    by (auto simp: knownLeasePath_iff)
  then have "rpcStatus (fst (do_step st (clock, invokeRpc path (internalBody path body)))) \<noteq> 400"
  proof cases
    case 1
    with acquire_invalid_answer [OF valid(1) [OF 1]] show ?thesis
      by (auto simp: invokeRpc_def do_answer_of_def split: sum.splits elim!: rpcStatus.elims)
  next
    case 2
    with renew_invalid_answer [OF valid(2) [OF 2]] valid(3) show ?thesis
      by (auto simp: invokeRpc_def do_answer_of_def split: sum.splits elim!: rpcStatus.elims)
  next
    case 3
    with release_invalid_answer [OF valid(4)] valid(3) show ?thesis
      by (auto simp: invokeRpc_def do_answer_of_def split: sum.splits elim!: rpcStatus.elims)
  qed
  moreover have "readBoundedJson json_decode rq = Inr body' \<Longrightarrow>
     \<exists>chunks. rq_body rq = Some (chunks, False) \<and> length (concat chunks) \<le> 8192 \<and>
          json_decode (concat chunks) = Some body'"
    by (auto simp: readBoundedJson_def and_then_eq_Inr MAX_BODY_BYTES_def
        split: option.splits dest!: read_chunks_bounded)
  ultimately show ?thesis by blast
qed

theorem boundary_validation_complete_witness:
  "rpcStatus (fst (do_step held_storage (tick 10, invokeRpc ACQUIRE_PATH (internalBody ACQUIRE_PATH sample_body)))) \<noteq> 400"
  using boundary_validation_complete [OF _ sample_body_valid] by (simp add: knownLeasePath_iff)

text \<open>
  The credential comparison is exact. For a digest of fixed length, \<open>bearerMatches\<close> holds
  if and only if a non-empty credential is configured and the digests of the supplied and the
  expected credential are equal; an unconfigured or empty credential never matches.
\<close>

theorem bearerMatches_exact:
  assumes "\<And>bs. length (sha256 bs) = 32"
  shows "bearerMatches sha256 header expected \<longleftrightarrow>
    (\<exists>e. expected = Some e \<and> e \<noteq> [] \<and> sha256 (text_encode (parseBearer header)) = sha256 (text_encode e))"
  by (cases expected) (simp_all add: bearerMatches_def digest_difference_zero assms)

theorem bearerMatches_exact_witness:
  "bearerMatches sample_digest (Some (js ''Bearer s'')) (Some (js ''s''))"
proof -
  have "parseBearer (Some (js ''Bearer s'')) = js ''s''" by code_simp
  moreover have "length (sample_digest bs) = 32" for bs by (simp add: sample_digest_def)
  ultimately show ?thesis by (simp add: bearerMatches_exact)
qed

end
