(* ===== verification/Lease.thy ===== *)
theory Lease
  imports Lock_Errors
begin

text \<open>
  \<open>src/ts/src/lease.ts\<close>: the guarded run under a lease. The lease authority, the caller's work
  and (for the database layer) the pool are arguments: functions that act on a world \<open>'w\<close> the
  library cannot see into and that may throw anything. Every call the library makes to them is
  recorded in a trace, so that the order of the calls and the calls that are made on each
  failure path are part of the state that theorems speak about.
\<close>

section \<open>Definitions\<close>

datatype lock_event =
    Ev_step lock_step
  | Ev_connect
  | Ev_client_release bool

record 'w lock_env =
  env_world :: 'w
  env_trace :: "lock_event list"

definition perform :: "lock_event \<Rightarrow> ('w, thrown, 'a) action \<Rightarrow> ('w lock_env, thrown, 'a) action" where
  "perform ev f = (\<lambda>s. case f (env_world s) of (r, w) \<Rightarrow> (r, \<lparr>env_world = w, env_trace = env_trace s @ [ev]\<rparr>))"

record lease_grant =
  lg_key :: js_string
  lg_holder :: js_string
  lg_fencingToken :: int
  lg_leaseExpiresMs :: "int option"
  lg_ttlMs :: int

record acquire_options =
  ao_ttlMs :: js_number
  ao_waitTimeoutMs :: js_number
  ao_retryIntervalMs :: js_number
  ao_holder :: "js_string option"
  ao_requestId :: "js_string option"

definition DEFAULT_ACQUIRE_OPTIONS :: acquire_options where
  "DEFAULT_ACQUIRE_OPTIONS = \<lparr>ao_ttlMs = NInt 60000, ao_waitTimeoutMs = NInt 30000,
     ao_retryIntervalMs = NInt 250, ao_holder = None, ao_requestId = None\<rparr>"

text \<open>The interface \<open>Lease\<close>, over the type \<open>'g\<close> of what the authority hands out.\<close>

record ('w, 'g) lease =
  lease_acquire :: "js_string \<Rightarrow> acquire_options \<Rightarrow> bool \<Rightarrow> ('w, thrown, 'g) action"
  lease_renew :: "'g \<Rightarrow> int \<Rightarrow> ('w, thrown, 'g) action"
  lease_release :: "'g \<Rightarrow> ('w, thrown, bool) action"

record 'g guarded =
  gd_key :: js_string
  gd_grant :: "'g option"

definition runWork :: "js_string \<Rightarrow> 'd \<Rightarrow> ('d \<Rightarrow> ('w, thrown, 'a) action) \<Rightarrow> ('w lock_env, thrown, 'a) action" where
  "runWork key guard work =
     catch_st (perform (Ev_step Work) (work guard)) (\<lambda>c. throw_st (work_failure key c))"

definition acquire_step :: "bool \<Rightarrow> lock_step" where
  "acquire_step wait = (if wait then Fiducia_acquire else Fiducia_try_acquire)"

definition acquireLease ::
  "js_string \<Rightarrow> bool \<Rightarrow> acquire_options \<Rightarrow> ('w, 'g) lease \<Rightarrow> ('w lock_env, thrown, 'g) action" where
  "acquireLease key wait opts lease =
     catch_st (perform (Ev_step (acquire_step wait)) (lease_acquire lease key opts wait))
       (\<lambda>err. throw_st (tagStep err (acquire_step wait)))"

abbreviation settled :: "('s, thrown, 'a) action \<Rightarrow> ('s, thrown, thrown + 'a) action" where
  "settled \<equiv> settle_st"

text \<open>The failure to report when cleanup failed after \<open>inner\<close>.\<close>

definition cleanup_or_both :: "js_string \<Rightarrow> thrown \<Rightarrow> thrown + 'a \<Rightarrow> thrown" where
  "cleanup_or_both key cleanup inner =
     (case inner of Inl e \<Rightarrow> cleanupFailure key cleanup e | Inr _ \<Rightarrow> cleanup)"

definition settle ::
  "js_string \<Rightarrow> ('w, 'g) lease \<Rightarrow> 'g \<Rightarrow> thrown + 'a \<Rightarrow> ('w lock_env, thrown, 'a) action" where
  "settle key lease grant inner =
     bind_st (settled (perform (Ev_step Fiducia_release) (lease_release lease grant))) (\<lambda>released.
     case released of
       Inl err \<Rightarrow>
         let cleanup = tagStep (case err of Thrown_lock _ \<Rightarrow> err | _ \<Rightarrow> transport key err None) Fiducia_release
         in throw_st (cleanup_or_both key cleanup inner)
     | Inr matched \<Rightarrow>
         if \<not> matched then throw_st (cleanup_or_both key (lost_lease key (Some Fiducia_release)) inner)
         else lift_st inner)"

definition withLease ::
  "js_string \<Rightarrow> bool \<Rightarrow> bool \<Rightarrow> acquire_options \<Rightarrow> ('w, 'g) lease option \<Rightarrow>
   ('g guarded \<Rightarrow> ('w, thrown, 'a) action) \<Rightarrow> ('w lock_env, thrown, 'a) action" where
  "withLease key engage wait opts lease work =
     (if \<not> engage then runWork key \<lparr>gd_key = key, gd_grant = None\<rparr> work
      else case lease of
        None \<Rightarrow> throw_st (invalidPlan key)
      | Some l \<Rightarrow>
          bind_st (acquireLease key wait opts l) (\<lambda>grant.
          bind_st (settled (runWork key \<lparr>gd_key = key, gd_grant = Some grant\<rparr> work)) (\<lambda>outcome.
          settle key l grant outcome)))"

text \<open>The lock steps of a trace, without connection bookkeeping.\<close>

definition steps_of :: "lock_event list \<Rightarrow> lock_step list" where
  "steps_of tr = List.map_filter (\<lambda>ev. case ev of Ev_step s \<Rightarrow> Some s | _ \<Rightarrow> None) tr"

text \<open>What the caller is told when the release has answered \<open>r\<close>.\<close>

definition settle_result :: "js_string \<Rightarrow> thrown + bool \<Rightarrow> thrown + 'a \<Rightarrow> thrown + 'a" where
  "settle_result key r inner =
     (case r of
        Inl err \<Rightarrow> Inl (cleanup_or_both key
            (tagStep (case err of Thrown_lock _ \<Rightarrow> err | _ \<Rightarrow> transport key err None) Fiducia_release) inner)
      | Inr False \<Rightarrow> Inl (cleanup_or_both key (lost_lease key (Some Fiducia_release)) inner)
      | Inr True \<Rightarrow> inner)"

section \<open>Lemmas\<close>

lemma perform_apply [st_flow]:
  "perform ev f s = (fst (f (env_world s)), \<lparr>env_world = snd (f (env_world s)), env_trace = env_trace s @ [ev]\<rparr>)"
  by (simp add: perform_def split: prod.split)

lemma steps_of_simps [simp]:
  "steps_of [] = []"
  "steps_of (Ev_step s # tr) = s # steps_of tr"
  "steps_of (Ev_connect # tr) = steps_of tr"
  "steps_of (Ev_client_release b # tr) = steps_of tr"
  "steps_of (tr @ tr') = steps_of tr @ steps_of tr'"
  by (simp_all add: steps_of_def List.map_filter_simps) (simp add: List.map_filter_def)

lemma runWork_apply [st_flow]:
  "runWork key guard work s =
     (catch_map (work_failure key) (fst (work guard (env_world s))),
      \<lparr>env_world = snd (work guard (env_world s)), env_trace = env_trace s @ [Ev_step Work]\<rparr>)"
  by (simp add: runWork_def st_flow split: sum.split)

lemma acquireLease_apply [st_flow]:
  "acquireLease key wait opts l s =
     (catch_map (\<lambda>e. tagStep e (acquire_step wait)) (fst (lease_acquire l key opts wait (env_world s))),
      \<lparr>env_world = snd (lease_acquire l key opts wait (env_world s)),
       env_trace = env_trace s @ [Ev_step (acquire_step wait)]\<rparr>)"
  by (simp add: acquireLease_def st_flow split: sum.split)

lemma settle_apply [st_flow]:
  "settle key l grant inner s =
     (settle_result key (fst (lease_release l grant (env_world s))) inner,
      \<lparr>env_world = snd (lease_release l grant (env_world s)), env_trace = env_trace s @ [Ev_step Fiducia_release]\<rparr>)"
  by (auto simp: settle_def settle_result_def st_flow Let_def split: sum.split bool.split)

lemma settle_result_ok_iff: "settle_result key r inner = Inr v \<longleftrightarrow> r = Inr True \<and> inner = Inr v"
  by (auto simp: settle_result_def split: sum.split bool.split)

lemma withLease_engaged:
  "withLease key True wait opts (Some l) work s =
     (let (r, w1) = lease_acquire l key opts wait (env_world s) in
      case r of
        Inl e \<Rightarrow> (Inl (tagStep e (acquire_step wait)),
                   \<lparr>env_world = w1, env_trace = env_trace s @ [Ev_step (acquire_step wait)]\<rparr>)
      | Inr grant \<Rightarrow>
          let (o_work, w2) = work \<lparr>gd_key = key, gd_grant = Some grant\<rparr> w1;
              (o_release, w3) = lease_release l grant w2
          in (settle_result key o_release (catch_map (work_failure key) o_work),
              \<lparr>env_world = w3,
               env_trace = env_trace s @ map Ev_step [acquire_step wait, Work, Fiducia_release]\<rparr>))"
  by (simp add: withLease_def st_flow Let_def prod.case_eq_if split: sum.split)

section \<open>Properties\<close>

text \<open>
  A run under a lease makes exactly these calls. If the acquisition fails, nothing else is
  called and its error is reported with the acquisition step filled in. If it succeeds, the work
  runs once with the grant and the release is called once after it, with that grant, whether or
  not the work threw; the result is the work's value only when the work returned and the
  release matched, and otherwise the error that combines the two outcomes.
\<close>

theorem withLease_calls:
  "withLease key True wait opts (Some l) work s =
     (let (r, w1) = lease_acquire l key opts wait (env_world s) in
      case r of
        Inl e \<Rightarrow> (Inl (tagStep e (acquire_step wait)),
                   \<lparr>env_world = w1, env_trace = env_trace s @ [Ev_step (acquire_step wait)]\<rparr>)
      | Inr grant \<Rightarrow>
          let (o_work, w2) = work \<lparr>gd_key = key, gd_grant = Some grant\<rparr> w1;
              (o_release, w3) = lease_release l grant w2
          in (settle_result key o_release (catch_map (work_failure key) o_work),
              \<lparr>env_world = w3,
               env_trace = env_trace s @ map Ev_step [acquire_step wait, Work, Fiducia_release]\<rparr>))"
  by (rule withLease_engaged)

text \<open>
  A run that returns a value performed exactly the steps of its plan, engaged or not, and
  when a lease was engaged the authority confirmed its release.
\<close>

theorem withLease_follows_plan:
  assumes "withLease key engage wait opts lease work s = (Inr v, s')"
  shows "steps_of (env_trace s') = steps_of (env_trace s) @
      lp_steps (plan (if engage then LAYERS_FIDUCIA_ONLY else LAYERS_NONE) scope wait) \<and>
    (engage \<longrightarrow> (\<exists>l grant w. lease = Some l \<and> lease_release l grant w = (Inr True, env_world s')))"
proof (cases engage)
  case False
  with assms show ?thesis
    by (auto simp: withLease_def st_flow plan_steps_cases LAYERS_NONE_def)
next
  case True
  with assms obtain l where l: "lease = Some l" by (cases lease) (simp_all add: withLease_def)
  from assms True show ?thesis
    unfolding l by (auto simp: withLease_engaged Let_def prod.case_eq_if settle_result_ok_iff plan_steps_cases
        LAYERS_FIDUCIA_ONLY_def acquire_step_def split: sum.splits) (metis prod.collapse)+
qed

definition sample_lease :: "(nat, nat) lease" where
  "sample_lease = \<lparr>lease_acquire = (\<lambda>_ _ _ n. (Inr n, n + 1)), lease_renew = (\<lambda>g _ n. (Inr g, n)),
     lease_release = (\<lambda>g n. (Inr (g < n), n))\<rparr>"

theorem withLease_follows_plan_witness:
  "steps_of (env_trace (snd (withLease (js ''k'') True True DEFAULT_ACQUIRE_OPTIONS (Some sample_lease)
      (\<lambda>_ n. (Inr n, n)) \<lparr>env_world = 3, env_trace = []\<rparr>))) = lp_steps (plan LAYERS_FIDUCIA_ONLY Session True)"
proof -
  have "withLease (js ''k'') True True DEFAULT_ACQUIRE_OPTIONS (Some sample_lease)
      (\<lambda>_ n. (Inr n, n)) \<lparr>env_world = 3, env_trace = []\<rparr> =
    (Inr 4, \<lparr>env_world = 4, env_trace = map Ev_step [Fiducia_acquire, Work, Fiducia_release]\<rparr>)"
    by (simp add: withLease_def st_flow sample_lease_def settle_result_def acquire_step_def)
  note run = this
  from conjunct1 [OF withLease_follows_plan [OF run, of Session]] show ?thesis
    unfolding run by (simp only: snd_conv lock_env.select_convs steps_of_simps(1) append_Nil if_True)
qed

end
