(* ===== verification/Pg.thy ===== *)
theory Pg
  imports Lease Lock_Key
begin

text \<open>
  \<open>src/ts/src/pg.ts\<close>: advisory locks inside a transaction or on a session, under an optional lease.
  The pool is an argument: connecting, querying and returning a client act on the world and may
  throw. The statements the routines send are a datatype; their parameter is the decimal text of
  the advisory key.
\<close>

section \<open>Definitions\<close>

datatype pg_statement =
    BEGIN
  | COMMIT
  | ROLLBACK
  | SELECT_advisory_xact_lock js_string
  | SELECT_try_advisory_xact_lock js_string
  | SELECT_advisory_lock js_string
  | SELECT_try_advisory_lock js_string
  | SELECT_advisory_unlock js_string

type_synonym pg_rows = "js_fields list"

record ('w, 'c) pg_pool =
  pool_connect :: "('w, thrown, 'c) action"
  client_query :: "'c \<Rightarrow> pg_statement \<Rightarrow> ('w, thrown, pg_rows) action"
  client_release :: "'c \<Rightarrow> bool \<Rightarrow> ('w, thrown, unit) action"

record ('g, 'c) pg_guarded =
  pd_key :: js_string
  pd_grant :: "'g option"
  pd_client :: "'c option"

definition firstBool :: "pg_rows \<Rightarrow> bool" where
  "firstBool rows =
     (case rows of
        [] \<Rightarrow> False
      | row # _ \<Rightarrow> (case row of [] \<Rightarrow> False | (_, v) # _ \<Rightarrow> v = JBool True \<or> v = JString (js ''t'')))"

definition tryLock ::
  "('w, 'c) pg_pool \<Rightarrow> 'c \<Rightarrow> js_string \<Rightarrow> pg_statement \<Rightarrow> lock_step \<Rightarrow> ('w lock_env, thrown, unit) action" where
  "tryLock pool client key sql step =
     bind_st (catch_st (bind_st (perform (Ev_step step) (client_query pool client sql)) (\<lambda>rows. return_st (firstBool rows)))
                (\<lambda>c. throw_st (database key step c))) (\<lambda>acquired.
     if \<not> acquired then throw_st (contention key step) else return_st ())"

definition exec ::
  "('w, 'c) pg_pool \<Rightarrow> 'c \<Rightarrow> js_string \<Rightarrow> pg_statement \<Rightarrow> lock_step \<Rightarrow> ('w lock_env, thrown, unit) action" where
  "exec pool client key sql step =
     catch_st (bind_st (perform (Ev_step step) (client_query pool client sql)) (\<lambda>_. return_st ()))
       (\<lambda>c. throw_st (database key step c))"

definition xact_lock_step :: "bool \<Rightarrow> lock_step" where
  "xact_lock_step wait = (if wait then Pg_advisory_xact_lock else Pg_try_advisory_xact_lock)"

definition session_lock_step :: "bool \<Rightarrow> lock_step" where
  "session_lock_step wait = (if wait then Pg_advisory_lock else Pg_try_advisory_lock)"

definition lock_xact :: "('w, 'c) pg_pool \<Rightarrow> 'c \<Rightarrow> js_string \<Rightarrow> bool \<Rightarrow> ('w lock_env, thrown, unit) action" where
  "lock_xact pool client key wait =
     (if wait then exec pool client key (SELECT_advisory_xact_lock (advisory_text key)) Pg_advisory_xact_lock
      else tryLock pool client key (SELECT_try_advisory_xact_lock (advisory_text key)) Pg_try_advisory_xact_lock)"

definition lock_session :: "('w, 'c) pg_pool \<Rightarrow> 'c \<Rightarrow> js_string \<Rightarrow> bool \<Rightarrow> ('w lock_env, thrown, unit) action" where
  "lock_session pool client key wait =
     (if wait then exec pool client key (SELECT_advisory_lock (advisory_text key)) Pg_advisory_lock
      else tryLock pool client key (SELECT_try_advisory_lock (advisory_text key)) Pg_try_advisory_lock)"

text \<open>The inner \<open>try\<close> of \<open>runXact\<close>: lock, work, commit.\<close>

definition xact_inner ::
  "js_string \<Rightarrow> bool \<Rightarrow> ('w, 'c) pg_pool \<Rightarrow> 'c \<Rightarrow> 'g option \<Rightarrow>
   (('g, 'c) pg_guarded \<Rightarrow> ('w, thrown, 'a) action) \<Rightarrow> ('w lock_env, thrown, 'a) action" where
  "xact_inner key wait pool client grant work =
     bind_st (lock_xact pool client key wait) (\<lambda>_.
     bind_st (runWork key \<lparr>pd_key = key, pd_grant = grant, pd_client = Some client\<rparr> work) (\<lambda>v.
     bind_st (exec pool client key COMMIT Pg_commit) (\<lambda>_.
     return_st v)))"

text \<open>
  The outer \<open>try\<close>. Its result is paired with the flag \<open>failed\<close>, which the \<open>finally\<close> reads; a
  rejected rollback is ignored.
\<close>

definition xact_body ::
  "js_string \<Rightarrow> bool \<Rightarrow> ('w, 'c) pg_pool \<Rightarrow> 'c \<Rightarrow> 'g option \<Rightarrow>
   (('g, 'c) pg_guarded \<Rightarrow> ('w, thrown, 'a) action) \<Rightarrow> ('w lock_env, thrown, (thrown + 'a) \<times> bool) action" where
  "xact_body key wait pool client grant work =
     bind_st (settled (exec pool client key BEGIN Pg_begin)) (\<lambda>begun.
     case begun of
       Inl err \<Rightarrow> return_st (Inl err, False)
     | Inr _ \<Rightarrow>
         bind_st (settled (xact_inner key wait pool client grant work)) (\<lambda>outcome.
         case outcome of
           Inr v \<Rightarrow> return_st (Inr v, False)
         | Inl err \<Rightarrow>
             bind_st (settled (perform (Ev_step Pg_rollback) (client_query pool client ROLLBACK))) (\<lambda>_.
             return_st (Inl err, True))))"

definition connect ::
  "('w, 'c) pg_pool \<Rightarrow> js_string \<Rightarrow> lock_step \<Rightarrow> ('w lock_env, thrown, 'c) action" where
  "connect pool key step =
     catch_st (perform Ev_connect (pool_connect pool)) (\<lambda>c. throw_st (database key step c))"

text \<open>\<open>finally { client.release(flag) }\<close> around a body that reports its flag.\<close>

definition release_client ::
  "('w, 'c) pg_pool \<Rightarrow> 'c \<Rightarrow> (thrown + 'a) \<times> bool \<Rightarrow> ('w lock_env, thrown, 'a) action" where
  "release_client pool client outcome =
     bind_st (perform (Ev_client_release (snd outcome)) (client_release pool client (snd outcome))) (\<lambda>_.
     lift_st (fst outcome))"

definition runXact ::
  "js_string \<Rightarrow> bool \<Rightarrow> ('w, 'c) pg_pool \<Rightarrow> 'g option \<Rightarrow>
   (('g, 'c) pg_guarded \<Rightarrow> ('w, thrown, 'a) action) \<Rightarrow> ('w lock_env, thrown, 'a) action" where
  "runXact key wait pool grant work =
     bind_st (connect pool key Pg_begin) (\<lambda>client.
     bind_st (xact_body key wait pool client grant work) (release_client pool client))"

text \<open>The part of \<open>runSession\<close> after the lock: work, then unlock, with the flag \<open>poisoned\<close>.\<close>

definition session_unlock ::
  "js_string \<Rightarrow> ('w, 'c) pg_pool \<Rightarrow> 'c \<Rightarrow> thrown + 'a \<Rightarrow> ('w lock_env, thrown, (thrown + 'a) \<times> bool) action" where
  "session_unlock key pool client inner =
     bind_st (settled (perform (Ev_step Pg_advisory_unlock)
                (client_query pool client (SELECT_advisory_unlock (advisory_text key))))) (\<lambda>unlocked.
     case unlocked of
       Inl err \<Rightarrow> return_st (Inl (cleanup_or_both key (database key Pg_advisory_unlock err) inner), True)
     | Inr rows \<Rightarrow>
         if \<not> firstBool rows
         then return_st (Inl (cleanup_or_both key
                (Thrown_lock (LockError Database key (Some Pg_advisory_unlock) No_cause)) inner), True)
         else return_st (inner, False))"

definition session_body ::
  "js_string \<Rightarrow> bool \<Rightarrow> ('w, 'c) pg_pool \<Rightarrow> 'c \<Rightarrow> 'g option \<Rightarrow>
   (('g, 'c) pg_guarded \<Rightarrow> ('w, thrown, 'a) action) \<Rightarrow> ('w lock_env, thrown, (thrown + 'a) \<times> bool) action" where
  "session_body key wait pool client grant work =
     bind_st (settled (lock_session pool client key wait)) (\<lambda>locked.
     case locked of
       Inl err \<Rightarrow> return_st (Inl (tagStep err Pg_advisory_lock), False)
     | Inr _ \<Rightarrow>
         bind_st (settled (runWork key \<lparr>pd_key = key, pd_grant = grant, pd_client = Some client\<rparr> work)) (\<lambda>inner.
         bind_st (session_unlock key pool client inner) (\<lambda>outcome.
         return_st (catch_map (\<lambda>err. tagStep err Pg_advisory_lock) (fst outcome), snd outcome))))"

definition runSession ::
  "js_string \<Rightarrow> bool \<Rightarrow> ('w, 'c) pg_pool \<Rightarrow> 'g option \<Rightarrow>
   (('g, 'c) pg_guarded \<Rightarrow> ('w, thrown, 'a) action) \<Rightarrow> ('w lock_env, thrown, 'a) action" where
  "runSession key wait pool grant work =
     bind_st (connect pool key Pg_advisory_lock) (\<lambda>client.
     bind_st (session_body key wait pool client grant work) (release_client pool client))"

text \<open>The two routines differ in the database part they run.\<close>

definition with_layers ::
  "(('w, 'c) pg_pool \<Rightarrow> 'g option \<Rightarrow> ('w lock_env, thrown, 'a) action) \<Rightarrow>
   js_string \<Rightarrow> lock_layers \<Rightarrow> bool \<Rightarrow> acquire_options \<Rightarrow> ('w, 'g) lease option \<Rightarrow> ('w, 'c) pg_pool option \<Rightarrow>
   (('g, 'c) pg_guarded \<Rightarrow> ('w, thrown, 'a) action) \<Rightarrow> ('w lock_env, thrown, 'a) action" where
  "with_layers run_pg key layers wait opts lease pool work =
     (if ll_fiducia layers \<and> lease = None then throw_st (invalidPlan key)
      else if ll_pgAdvisory layers \<and> pool = None then throw_st (invalidPlan key)
      else
        let theLease = (if ll_fiducia layers then lease else None);
            inner = (\<lambda>grant. settled
              (if ll_pgAdvisory layers then run_pg (the pool) grant
               else runWork key \<lparr>pd_key = key, pd_grant = grant, pd_client = None\<rparr> work))
        in case theLease of
             None \<Rightarrow> bind_st (inner None) lift_st
           | Some l \<Rightarrow>
               bind_st (acquireLease key wait opts l) (\<lambda>grant.
               bind_st (inner (Some grant)) (settle key l grant)))"

definition withXactLock ::
  "js_string \<Rightarrow> lock_layers \<Rightarrow> bool \<Rightarrow> acquire_options \<Rightarrow> ('w, 'g) lease option \<Rightarrow> ('w, 'c) pg_pool option \<Rightarrow>
   (('g, 'c) pg_guarded \<Rightarrow> ('w, thrown, 'a) action) \<Rightarrow> ('w lock_env, thrown, 'a) action" where
  "withXactLock key layers wait opts lease pool work =
     with_layers (\<lambda>p grant. runXact key wait p grant work) key layers wait opts lease pool work"

definition withSessionLock ::
  "js_string \<Rightarrow> lock_layers \<Rightarrow> bool \<Rightarrow> acquire_options \<Rightarrow> ('w, 'g) lease option \<Rightarrow> ('w, 'c) pg_pool option \<Rightarrow>
   (('g, 'c) pg_guarded \<Rightarrow> ('w, thrown, 'a) action) \<Rightarrow> ('w lock_env, thrown, 'a) action" where
  "withSessionLock key layers wait opts lease pool work =
     with_layers (\<lambda>p grant. runSession key wait p grant work) key layers wait opts lease pool work"

section \<open>Lemmas\<close>

definition query_result :: "('w, 'c) pg_pool \<Rightarrow> 'c \<Rightarrow> pg_statement \<Rightarrow> 'w lock_env \<Rightarrow> thrown + pg_rows" where
  "query_result pool client sql s = fst (client_query pool client sql (env_world s))"

definition after_query :: "('w, 'c) pg_pool \<Rightarrow> 'c \<Rightarrow> pg_statement \<Rightarrow> lock_step \<Rightarrow> 'w lock_env \<Rightarrow> 'w lock_env" where
  "after_query pool client sql step s =
     \<lparr>env_world = snd (client_query pool client sql (env_world s)), env_trace = env_trace s @ [Ev_step step]\<rparr>"

lemma after_query_trace [simp]: "env_trace (after_query pool client sql step s) = env_trace s @ [Ev_step step]"
  by (simp add: after_query_def)

lemma exec_apply [st_flow]:
  "exec pool client key sql step s =
     (and_then (catch_map (database key step) (query_result pool client sql s)) (\<lambda>_. Inr ()),
      after_query pool client sql step s)"
  by (simp add: exec_def st_flow query_result_def after_query_def split: sum.split)

lemma tryLock_apply [st_flow]:
  "tryLock pool client key sql step s =
     (and_then (catch_map (database key step) (query_result pool client sql s))
        (\<lambda>rows. require (firstBool rows) (contention key step)),
      after_query pool client sql step s)"
  by (simp add: tryLock_def st_flow query_result_def after_query_def split: sum.split)

lemma lock_xact_trace:
  "env_trace (snd (lock_xact pool client key wait s)) = env_trace s @ [Ev_step (xact_lock_step wait)]"
  by (simp add: lock_xact_def st_flow xact_lock_step_def)

lemma lock_session_trace:
  "env_trace (snd (lock_session pool client key wait s)) = env_trace s @ [Ev_step (session_lock_step wait)]"
  by (simp add: lock_session_def st_flow session_lock_step_def)

text \<open>The calls of the inner transaction part, and which of them a result implies.\<close>

lemma xact_inner_trace:
  assumes "xact_inner key wait pool client grant work s = (r, s')"
  shows "env_trace s' = env_trace s @ map Ev_step [xact_lock_step wait] \<and> \<not> is_ok r \<or>
    env_trace s' = env_trace s @ map Ev_step [xact_lock_step wait, Work] \<and> \<not> is_ok r \<or>
    env_trace s' = env_trace s @ map Ev_step [xact_lock_step wait, Work, Pg_commit]"
proof (cases "lock_xact pool client key wait s")
  case (Pair l s1)
  with lock_xact_trace [of pool client key wait s]
  have "env_trace s1 = env_trace s @ [Ev_step (xact_lock_step wait)]" by simp
  with Pair assms show ?thesis
    by (cases l) (auto simp: xact_inner_def st_flow catch_map_def and_then_def
        split: sum.splits prod.splits)
qed

lemma xact_body_trace:
  assumes "xact_body key wait pool client grant work s = (r, s')"
  shows "\<exists>out inner. r = Inr out \<and> env_trace s' = env_trace s @ Ev_step Pg_begin # map Ev_step inner \<and>
    (\<not> is_ok (fst out) \<and> \<not> snd out \<and> inner = [] \<or>
     \<not> is_ok (fst out) \<and> snd out \<and>
       inner \<in> {[xact_lock_step wait, Pg_rollback], [xact_lock_step wait, Work, Pg_rollback],
                [xact_lock_step wait, Work, Pg_commit, Pg_rollback]} \<or>
     \<not> snd out \<and> inner = [xact_lock_step wait, Work, Pg_commit])"
proof (cases "query_result pool client BEGIN s")
  case (Inl e)
  with assms show ?thesis by (auto simp: xact_body_def st_flow)
next
  case (Inr rows)
  define s1 where "s1 = after_query pool client BEGIN Pg_begin s"
  have tr: "env_trace s1 = env_trace s @ [Ev_step Pg_begin]" by (simp add: s1_def)
  obtain q s2 where inner: "xact_inner key wait pool client grant work s1 = (q, s2)" by fastforce
  from xact_inner_trace [OF inner] obtain tail where tail:
    "env_trace s2 = env_trace s1 @ map Ev_step (xact_lock_step wait # tail)"
    "tail = [] \<and> \<not> is_ok q \<or> tail = [Work] \<and> \<not> is_ok q \<or> tail = [Work, Pg_commit]" by blast
  show ?thesis
  proof (cases q)
    case (Inl err)
    with assms Inr inner have "r = Inr (Inl err, True)" "env_trace s' = env_trace s2 @ [Ev_step Pg_rollback]"
      by (auto simp: xact_body_def st_flow s1_def)
    with tail tr show ?thesis
      by (intro exI [of _ "(Inl err, True)"] exI [of _ "xact_lock_step wait # tail @ [Pg_rollback]"]) auto
  next
    case q: (Inr v)
    with assms Inr inner have "r = Inr (Inr v, False)" "s' = s2"
      by (auto simp: xact_body_def st_flow s1_def)
    with tail tr q show ?thesis
      by (intro exI [of _ "(Inr v, False)"] exI [of _ "xact_lock_step wait # tail"]) auto
  qed
qed

lemma connect_apply [st_flow]:
  "connect pool key step s =
     (catch_map (database key step) (fst (pool_connect pool (env_world s))),
      \<lparr>env_world = snd (pool_connect pool (env_world s)), env_trace = env_trace s @ [Ev_connect]\<rparr>)"
  by (simp add: connect_def st_flow split: sum.split)

lemma release_client_apply [st_flow]:
  "release_client pool client out s =
     (and_then (fst (client_release pool client (snd out) (env_world s))) (\<lambda>_. fst out),
      \<lparr>env_world = snd (client_release pool client (snd out) (env_world s)),
       env_trace = env_trace s @ [Ev_client_release (snd out)]\<rparr>)"
  by (simp add: release_client_def st_flow split: sum.split)

text \<open>The calls of the transaction part.\<close>

definition xact_shape :: "bool \<Rightarrow> bool \<Rightarrow> lock_event list \<Rightarrow> bool" where
  "xact_shape wait ok calls =
     (calls = [Ev_connect] \<and> \<not> ok \<or>
      calls = [Ev_connect, Ev_step Pg_begin, Ev_client_release False] \<and> \<not> ok \<or>
      (\<exists>inner \<in> {[], [Work], [Work, Pg_commit]}.
         calls = [Ev_connect, Ev_step Pg_begin, Ev_step (xact_lock_step wait)] @ map Ev_step inner @
           [Ev_step Pg_rollback, Ev_client_release True] \<and> \<not> ok) \<or>
      calls = [Ev_connect, Ev_step Pg_begin, Ev_step (xact_lock_step wait), Ev_step Work, Ev_step Pg_commit,
               Ev_client_release False])"

lemma runXact_trace:
  "\<exists>calls. env_trace (snd (runXact key wait pool grant work s)) = env_trace s @ calls \<and>
     xact_shape wait (is_ok (fst (runXact key wait pool grant work s))) calls"
proof (cases "fst (pool_connect pool (env_world s))")
  case (Inl e)
  then show ?thesis by (simp add: runXact_def st_flow xact_shape_def)
next
  case (Inr client)
  define s1 where "s1 = \<lparr>env_world = snd (pool_connect pool (env_world s)), env_trace = env_trace s @ [Ev_connect]\<rparr>"
  obtain q s2 where body: "xact_body key wait pool client grant work s1 = (q, s2)" by fastforce
  from xact_body_trace [OF body] obtain inner out where
    tr: "env_trace s2 = env_trace s1 @ Ev_step Pg_begin # map Ev_step inner" and q: "q = Inr out"
    and shape: "\<not> is_ok (fst out) \<and> \<not> snd out \<and> inner = [] \<or>
      \<not> is_ok (fst out) \<and> snd out \<and> inner \<in> {[xact_lock_step wait, Pg_rollback], [xact_lock_step wait, Work, Pg_rollback],
                [xact_lock_step wait, Work, Pg_commit, Pg_rollback]} \<or>
      \<not> snd out \<and> inner = [xact_lock_step wait, Work, Pg_commit]"
    by blast
  have "runXact key wait pool grant work s = release_client pool client out s2"
    using Inr body q by (simp add: runXact_def st_flow s1_def [symmetric])
  with tr shape show ?thesis
    by (cases "fst (client_release pool client (snd out) (env_world s2))")
      (auto simp: st_flow xact_shape_def s1_def)
qed

text \<open>The calls of the session part.\<close>

definition session_shape :: "bool \<Rightarrow> bool \<Rightarrow> lock_event list \<Rightarrow> bool" where
  "session_shape wait ok calls =
     (calls = [Ev_connect] \<and> \<not> ok \<or>
      calls = [Ev_connect, Ev_step (session_lock_step wait), Ev_client_release False] \<and> \<not> ok \<or>
      (\<exists>poisoned.
         calls = [Ev_connect, Ev_step (session_lock_step wait), Ev_step Work, Ev_step Pg_advisory_unlock,
                  Ev_client_release poisoned] \<and> (poisoned \<longrightarrow> \<not> ok)))"

lemma session_unlock_trace:
  "\<exists>out. session_unlock key pool client inner s = (Inr out, after_query pool client
       (SELECT_advisory_unlock (advisory_text key)) Pg_advisory_unlock s) \<and> (snd out \<longrightarrow> \<not> is_ok (fst out))"
  by (auto simp: session_unlock_def st_flow after_query_def split: sum.split)

lemma session_body_trace:
  "\<exists>out s'. session_body key wait pool client grant work s = (Inr out, s') \<and> (snd out \<longrightarrow> \<not> is_ok (fst out)) \<and>
     (env_trace s' = env_trace s @ [Ev_step (session_lock_step wait)] \<and> \<not> is_ok (fst out) \<and> \<not> snd out \<or>
      env_trace s' = env_trace s @ map Ev_step [session_lock_step wait, Work, Pg_advisory_unlock])"
proof (cases "lock_session pool client key wait s")
  case (Pair l s1)
  with lock_session_trace [of pool client key wait s]
  have tr: "env_trace s1 = env_trace s @ [Ev_step (session_lock_step wait)]" by simp
  show ?thesis
  proof (cases l)
    case (Inl e)
    with Pair tr show ?thesis by (simp add: session_body_def st_flow)
  next
    case (Inr u)
    define s2 where "s2 = snd (runWork key \<lparr>pd_key = key, pd_grant = grant, pd_client = Some client\<rparr> work s1)"
    define inner where "inner = fst (runWork key \<lparr>pd_key = key, pd_grant = grant, pd_client = Some client\<rparr> work s1)"
    have tr2: "env_trace s2 = env_trace s1 @ [Ev_step Work]" by (simp add: s2_def st_flow)
    obtain out where "session_unlock key pool client inner s2 = (Inr out, after_query pool client
       (SELECT_advisory_unlock (advisory_text key)) Pg_advisory_unlock s2)" "snd out \<longrightarrow> \<not> is_ok (fst out)"
      using session_unlock_trace [of key pool client inner s2] by blast
    with Inr Pair tr tr2 show ?thesis
      by (cases "fst out")
        (auto simp: session_body_def bind_st_apply settle_st_apply s2_def [symmetric] inner_def [symmetric])
  qed
qed

lemma runSession_trace:
  "\<exists>calls. env_trace (snd (runSession key wait pool grant work s)) = env_trace s @ calls \<and>
     session_shape wait (is_ok (fst (runSession key wait pool grant work s))) calls"
proof (cases "fst (pool_connect pool (env_world s))")
  case (Inl e)
  then show ?thesis by (simp add: runSession_def st_flow session_shape_def)
next
  case (Inr client)
  define s1 where "s1 = \<lparr>env_world = snd (pool_connect pool (env_world s)), env_trace = env_trace s @ [Ev_connect]\<rparr>"
  from session_body_trace [of key wait pool client grant work s1] obtain out s2 where
    body: "session_body key wait pool client grant work s1 = (Inr out, s2)"
    and shape: "snd out \<longrightarrow> \<not> is_ok (fst out)"
      "env_trace s2 = env_trace s1 @ [Ev_step (session_lock_step wait)] \<and> \<not> is_ok (fst out) \<and> \<not> snd out \<or>
       env_trace s2 = env_trace s1 @ map Ev_step [session_lock_step wait, Work, Pg_advisory_unlock]"
    by blast
  have "runSession key wait pool grant work s = release_client pool client out s2"
    using Inr body by (simp add: runSession_def st_flow s1_def [symmetric])
  with shape show ?thesis
    by (cases "fst (client_release pool client (snd out) (env_world s2))")
      (auto simp: st_flow session_shape_def s1_def)
qed

text \<open>Steps of a successful database part.\<close>

lemma runXact_steps:
  "runXact key wait pool grant work s = (Inr v, s') \<Longrightarrow>
   steps_of (env_trace s') = steps_of (env_trace s) @ [Pg_begin, xact_lock_step wait, Work, Pg_commit]"
  using runXact_trace [of key wait pool grant work s] by (auto simp: xact_shape_def)

lemma runSession_steps:
  "runSession key wait pool grant work s = (Inr v, s') \<Longrightarrow>
   steps_of (env_trace s') = steps_of (env_trace s) @ [session_lock_step wait, Work, Pg_advisory_unlock]"
  using runSession_trace [of key wait pool grant work s] by (auto simp: session_shape_def)

text \<open>The layers around a database part: steps of a successful run.\<close>

lemma with_layers_steps:
  assumes run: "with_layers run_pg key layers wait opts lease pool work s = (Inr v, s')"
    and pg: "\<And>p grant s v s'. run_pg p grant s = (Inr v, s') \<Longrightarrow>
      steps_of (env_trace s') = steps_of (env_trace s) @ pg_steps"
  shows "steps_of (env_trace s') = steps_of (env_trace s) @
    (if ll_fiducia layers then [acquire_step wait] else []) @
    (if ll_pgAdvisory layers then pg_steps else [Work]) @
    (if ll_fiducia layers then [Fiducia_release] else [])"
proof -
  define inner where "inner = (\<lambda>grant. if ll_pgAdvisory layers then run_pg (the pool) grant
               else runWork key \<lparr>pd_key = key, pd_grant = grant, pd_client = None\<rparr> work)"
  have inner_steps: "steps_of (env_trace u) = steps_of (env_trace t) @ (if ll_pgAdvisory layers then pg_steps else [Work])"
    if "inner grant t = (Inr x, u)" for grant t x u
    using that pg by (auto simp: inner_def st_flow split: if_splits)
  show ?thesis
  proof (cases "ll_fiducia layers")
    case False
    from run False have "inner None s = (Inr v, s')"
      by (auto simp: with_layers_def Let_def inner_def st_flow split: if_splits)
    from inner_steps [OF this] False show ?thesis by simp
  next
    case True
    from run True obtain l where l: "lease = Some l" by (cases lease) (simp_all add: with_layers_def)
    from run True obtain grant s1 s2 where
      "acquireLease key wait opts l s = (Inr grant, s1)" "settle key l grant (fst (inner (Some grant) s1)) (snd (inner (Some grant) s1)) = (Inr v, s')"
      by (auto simp: with_layers_def l Let_def inner_def bind_st_apply settle_st_apply
          split: if_splits sum.splits prod.splits)
    then show ?thesis
      using inner_steps [of "Some grant" s1] True
      by (cases "inner (Some grant) s1") (auto simp: st_flow settle_result_ok_iff)
  qed
qed

text \<open>A run whose acquisition succeeded: the lease is settled last, whatever the inner part did.\<close>

lemma shape_mono:
  "xact_shape wait ok calls \<Longrightarrow> ok' \<longrightarrow> ok \<Longrightarrow> xact_shape wait ok' calls"
  "session_shape wait ok calls \<Longrightarrow> ok' \<longrightarrow> ok \<Longrightarrow> session_shape wait ok' calls"
  by (auto simp: xact_shape_def session_shape_def)

lemma with_layers_settles:
  assumes "ll_fiducia layers" and "ll_pgAdvisory layers"
    and "fst (lease_acquire l key opts wait (env_world s)) = Inr grant"
    and pg: "\<And>s. \<exists>calls. env_trace (snd (run_pg pool (Some grant) s)) = env_trace s @ calls \<and>
      shape (is_ok (fst (run_pg pool (Some grant) s))) calls"
    and mono: "\<And>ok ok' calls. shape ok calls \<Longrightarrow> ok' \<longrightarrow> ok \<Longrightarrow> shape ok' calls"
  shows "\<exists>calls. env_trace (snd (with_layers run_pg key layers wait opts (Some l) (Some pool) work s)) =
      env_trace s @ Ev_step (acquire_step wait) # calls @ [Ev_step Fiducia_release] \<and>
    shape (is_ok (fst (with_layers run_pg key layers wait opts (Some l) (Some pool) work s))) calls"
proof -
  define s1 where "s1 = \<lparr>env_world = snd (lease_acquire l key opts wait (env_world s)),
       env_trace = env_trace s @ [Ev_step (acquire_step wait)]\<rparr>"
  define inner where "inner = run_pg pool (Some grant) s1"
  have run: "with_layers run_pg key layers wait opts (Some l) (Some pool) work s =
      settle key l grant (fst inner) (snd inner)"
    using assms(1-3) by (auto simp: with_layers_def Let_def bind_st_apply settle_st_apply acquireLease_apply
        s1_def inner_def)
  from pg [of s1] obtain calls where calls: "env_trace (snd inner) = env_trace s1 @ calls" "shape (is_ok (fst inner)) calls"
    unfolding inner_def by blast
  have "is_ok (fst (settle key l grant (fst inner) (snd inner))) \<longrightarrow> is_ok (fst inner)"
    by (auto simp: settle_apply settle_result_ok_iff is_ok_iff)
  with calls mono have "shape (is_ok (fst (settle key l grant (fst inner) (snd inner)))) calls" by blast
  with calls(1) show ?thesis
    unfolding run by (auto simp: settle_apply s1_def)
qed

section \<open>Properties\<close>

text \<open>
  A transaction-scoped run that returns a value performed exactly the steps of its plan, in
  order, for every combination of layers and for both waiting modes.
\<close>

theorem withXactLock_follows_plan:
  assumes "withXactLock key layers wait opts lease pool work s = (Inr v, s')"
  shows "steps_of (env_trace s') = steps_of (env_trace s) @ lp_steps (plan layers Transaction wait)"
proof -
  have "steps_of (env_trace s') = steps_of (env_trace s) @
    (if ll_fiducia layers then [acquire_step wait] else []) @
    (if ll_pgAdvisory layers then [Pg_begin, xact_lock_step wait, Work, Pg_commit] else [Work]) @
    (if ll_fiducia layers then [Fiducia_release] else [])"
    by (rule with_layers_steps [OF assms [unfolded withXactLock_def]]) (rule runXact_steps)
  then show ?thesis by (simp add: plan_steps_cases acquire_step_def xact_lock_step_def)
qed

text \<open>
  A session-scoped run that returns a value performed exactly the steps of its plan, in
  order, for every combination of layers and for both waiting modes.
\<close>

theorem withSessionLock_follows_plan:
  assumes "withSessionLock key layers wait opts lease pool work s = (Inr v, s')"
  shows "steps_of (env_trace s') = steps_of (env_trace s) @ lp_steps (plan layers Session wait)"
proof -
  have "steps_of (env_trace s') = steps_of (env_trace s) @
    (if ll_fiducia layers then [acquire_step wait] else []) @
    (if ll_pgAdvisory layers then [session_lock_step wait, Work, Pg_advisory_unlock] else [Work]) @
    (if ll_fiducia layers then [Fiducia_release] else [])"
    by (rule with_layers_steps [OF assms [unfolded withSessionLock_def]]) (rule runSession_steps)
  then show ?thesis by (simp add: plan_steps_cases acquire_step_def session_lock_step_def)
qed



text \<open>A world that counts calls: every query answers true, every call succeeds.\<close>

definition sample_pool :: "(nat, unit) pg_pool" where
  "sample_pool = \<lparr>pool_connect = (\<lambda>n. (Inr (), n + 1)),
     client_query = (\<lambda>_ _ n. (Inr [[(js ''r'', JBool True)]], n + 1)),
     client_release = (\<lambda>_ _ n. (Inr (), n + 1))\<rparr>"

abbreviation sample_env :: "nat lock_env" where
  "sample_env \<equiv> \<lparr>env_world = 0, env_trace = []\<rparr>"

lemmas pg_eval =
  with_layers_def runXact_def xact_body_def xact_inner_def lock_xact_def runSession_def session_body_def
  lock_session_def session_unlock_def query_result_def after_query_def sample_pool_def sample_lease_def
  settle_result_def firstBool_def LAYERS_BOTH_def cleanup_or_both_def

theorem withXactLock_follows_plan_witness:
  "steps_of (env_trace (snd (withXactLock (js ''k'') LAYERS_BOTH False DEFAULT_ACQUIRE_OPTIONS (Some sample_lease)
      (Some sample_pool) (\<lambda>_ n. (Inr n, n)) sample_env))) = lp_steps (plan LAYERS_BOTH Transaction False)"
proof -
  have "\<exists>s'. withXactLock (js ''k'') LAYERS_BOTH False DEFAULT_ACQUIRE_OPTIONS (Some sample_lease)
      (Some sample_pool) (\<lambda>_ n. (Inr n, n)) sample_env = (Inr 4, s')"
    by (simp add: withXactLock_def pg_eval st_flow)
  then show ?thesis using withXactLock_follows_plan by fastforce
qed

theorem withSessionLock_follows_plan_witness:
  "steps_of (env_trace (snd (withSessionLock (js ''k'') LAYERS_BOTH True DEFAULT_ACQUIRE_OPTIONS (Some sample_lease)
      (Some sample_pool) (\<lambda>_ n. (Inr n, n)) sample_env))) = lp_steps (plan LAYERS_BOTH Session True)"
proof -
  have "\<exists>s'. withSessionLock (js ''k'') LAYERS_BOTH True DEFAULT_ACQUIRE_OPTIONS (Some sample_lease)
      (Some sample_pool) (\<lambda>_ n. (Inr n, n)) sample_env = (Inr 3, s')"
    by (simp add: withSessionLock_def pg_eval st_flow)
  then show ?thesis using withSessionLock_follows_plan by fastforce
qed



end
