(* ===== verification/Renewal.thy ===== *)
theory Renewal
  imports Lease Lock_Key
begin

text \<open>
  \<open>src/ts/src/renewal.ts\<close>: supervision of a held lease. The supervisor keeps a frozen snapshot of
  its grant, a local deadline computed from a monotonic clock, and the first loss it recorded.
  Its methods may interleave (a renewal is awaited between the decision to renew and its
  acceptance), so histories are paths of a step relation whose steps are the atomic pieces:
  a decision, a rejected renewal, an accepted or refused renewal answer. Grants and policies
  arrive as untrusted values; causes of validation errors are not kept.
\<close>

section \<open>Definitions\<close>

definition MAX_RENEWAL_CLOCK_MS :: int where "MAX_RENEWAL_CLOCK_MS = 9007199254740991"
definition MAX_RENEWAL_TTL_MS :: int where "MAX_RENEWAL_TTL_MS = 9223372036854"
definition RENEWAL_MAX_FENCING_TOKEN :: int where "RENEWAL_MAX_FENCING_TOKEN = 18446744073709551615"

definition GRANT_FIELDS :: "js_string list" where
  "GRANT_FIELDS = map js [''key'', ''holder'', ''fencingToken'', ''ttlMs'', ''leaseExpiresMs'']"

definition POLICY_FIELDS :: "js_string list" where
  "POLICY_FIELDS = map js [''renewEveryMs'', ''safetyMarginMs'']"

record renewal_policy =
  rp_renewEveryMs :: int
  rp_safetyMarginMs :: int

definition DEFAULT_RENEWAL_POLICY :: renewal_policy where
  "DEFAULT_RENEWAL_POLICY = \<lparr>rp_renewEveryMs = 20000, rp_safetyMarginMs = 10000\<rparr>"

datatype renewal_loss_reason =
    Invalid_policy
  | Clock_regression
  | Expired
  | Renewal_failed
  | Identity_changed
  | Token_changed
  | Deadline_missing
  | Deadline_invalid
  | Deadline_regressed
  | Completion_after_deadline
  | Deadline_overflow
  | Invalid_ttl

datatype renewal_error = RenewalError (re_reason: renewal_loss_reason) (re_cause: "thrown option")

abbreviation loss :: "renewal_loss_reason \<Rightarrow> renewal_error" where
  "loss r \<equiv> RenewalError r None"

datatype renewal_decision = Wait int | Renew_now | Lost renewal_loss_reason

datatype renewal_checkpoint = Checked_wait int | Checked_renewed int

record supervisor =
  sv_grant :: lease_grant
  sv_policy :: renewal_policy
  sv_localDeadlineMs :: int
  sv_nextRenewalMs :: int
  sv_lastObservedMs :: int
  sv_loss :: "renewal_error option"

subsection \<open>Validation\<close>

fun isSafeMillisecond :: "js_number \<Rightarrow> bool" where
  "isSafeMillisecond (NInt i) = (is_safe_integer (NInt i) \<and> 0 \<le> i \<and> i \<le> MAX_RENEWAL_CLOCK_MS)"
| "isSafeMillisecond _ = False"

definition isPositiveSafeInteger :: "js_number \<Rightarrow> bool" where
  "isPositiveSafeInteger n = (isSafeMillisecond n \<and> int_of_number n > 0)"

fun closed_scan ::
  "renewal_loss_reason \<Rightarrow> js_string list \<Rightarrow> (prop_key \<times> js_value js_prop) list \<Rightarrow> js_fields \<Rightarrow> renewal_error + js_fields" where
  "closed_scan reason allowed [] acc = Inr acc"
| "closed_scan reason allowed ((PSymbol _, _) # ps) acc = Inl (loss reason)"
| "closed_scan reason allowed ((PName name, descriptor) # ps) acc =
     (if name \<notin> set allowed then Inl (loss reason)
      else case descriptor of
             Accessor_prop \<Rightarrow> Inl (loss reason)
           | Data_prop v \<Rightarrow> closed_scan reason allowed ps (acc @ [(name, v)]))"

definition closedOwnDataProperties ::
  "js_value \<Rightarrow> js_string list \<Rightarrow> string list \<Rightarrow> renewal_loss_reason \<Rightarrow> renewal_error + js_fields" where
  "closedOwnDataProperties v allowed required reason =
     (case v of
        JObject ps \<Rightarrow>
          and_then (closed_scan reason allowed ps []) (\<lambda>found.
          and_then (require (list_all (has_own found) required) (loss reason)) (\<lambda>_.
          Inr found))
      | _ \<Rightarrow> Inl (loss reason))"

definition validateClock :: "js_number \<Rightarrow> renewal_error + unit" where
  "validateClock n = require (isSafeMillisecond n) (loss Deadline_overflow)"

definition validateAuthorityDeadline :: "js_value \<Rightarrow> renewal_error + int option" where
  "validateAuthorityDeadline v =
     (case v of
        JUndefined \<Rightarrow> Inr None
      | JNumber n \<Rightarrow>
          if \<not> isSafeMillisecond n \<or> int_of_number n = 0 then Inl (loss Deadline_invalid)
          else Inr (Some (int_of_number n))
      | _ \<Rightarrow> Inl (loss Deadline_invalid))"

definition grant_token :: "js_value \<Rightarrow> renewal_error + int" where
  "grant_token v =
     (case v of
        JBigInt i \<Rightarrow> if i < 0 \<or> i > RENEWAL_MAX_FENCING_TOKEN then Inl (loss Token_changed) else Inr i
      | _ \<Rightarrow> Inl (loss Token_changed))"

definition grant_ttl :: "js_value \<Rightarrow> renewal_error + int" where
  "grant_ttl v =
     (case v of
        JNumber n \<Rightarrow>
          if \<not> isSafeMillisecond n \<or> int_of_number n = 0 \<or> int_of_number n > MAX_RENEWAL_TTL_MS
          then Inl (loss Invalid_ttl) else Inr (int_of_number n)
      | _ \<Rightarrow> Inl (loss Invalid_ttl))"

definition grant_holder :: "js_value \<Rightarrow> renewal_error + js_string" where
  "grant_holder v =
     (case v of JString s \<Rightarrow> if length s = 0 then Inl (loss Identity_changed) else Inr s
      | _ \<Rightarrow> Inl (loss Identity_changed))"

definition snapshotGrant :: "js_value \<Rightarrow> renewal_error + lease_grant" where
  "snapshotGrant v =
     and_then (closedOwnDataProperties v GRANT_FIELDS [''key'', ''holder'', ''fencingToken'', ''ttlMs''] Identity_changed) (\<lambda>found.
     and_then (catch_map (\<lambda>_. loss Identity_changed) (lockKey (field found ''key''))) (\<lambda>key.
     and_then (grant_holder (field found ''holder'')) (\<lambda>holder.
     and_then (grant_token (field found ''fencingToken'')) (\<lambda>fencingToken.
     and_then (grant_ttl (field found ''ttlMs'')) (\<lambda>ttlMs.
     and_then (require (\<not> (has_own found ''leaseExpiresMs'' \<and> field found ''leaseExpiresMs'' = JUndefined))
                 (loss Deadline_invalid)) (\<lambda>_.
     and_then (validateAuthorityDeadline (field found ''leaseExpiresMs'')) (\<lambda>leaseExpiresMs.
     Inr \<lparr>lg_key = key, lg_holder = holder, lg_fencingToken = fencingToken,
          lg_leaseExpiresMs = leaseExpiresMs, lg_ttlMs = ttlMs\<rparr>)))))))"

definition policy_number :: "js_value \<Rightarrow> renewal_error + int" where
  "policy_number v =
     (case v of
        JNumber n \<Rightarrow> if isPositiveSafeInteger n then Inr (int_of_number n) else Inl (loss Invalid_policy)
      | _ \<Rightarrow> Inl (loss Invalid_policy))"

definition snapshotPolicy :: "js_value \<Rightarrow> renewal_error + renewal_policy" where
  "snapshotPolicy v =
     and_then (closedOwnDataProperties v POLICY_FIELDS [''renewEveryMs'', ''safetyMarginMs''] Invalid_policy) (\<lambda>found.
     and_then (policy_number (field found ''renewEveryMs'')) (\<lambda>renewEvery.
     and_then (policy_number (field found ''safetyMarginMs'')) (\<lambda>margin.
     Inr \<lparr>rp_renewEveryMs = renewEvery, rp_safetyMarginMs = margin\<rparr>)))"

definition validateDeadlineProgress :: "int option \<Rightarrow> int option \<Rightarrow> renewal_error + unit" where
  "validateDeadlineProgress previous renewed =
     (case (previous, renewed) of
        (Some p, None) \<Rightarrow> Inl (loss Deadline_missing)
      | (Some p, Some r) \<Rightarrow> if r \<le> p then Inl (loss Deadline_regressed) else Inr ()
      | (None, _) \<Rightarrow> Inr ())"

text \<open>The schedule from a clock reading that passed \<open>validateClock\<close>.\<close>

definition makeSchedule :: "js_number \<Rightarrow> int \<Rightarrow> renewal_policy \<Rightarrow> renewal_error + int \<times> int" where
  "makeSchedule nowMs ttlMs policy =
     and_then (validateClock nowMs) (\<lambda>_.
     and_then (require (\<not> (\<not> isSafeMillisecond (NInt ttlMs) \<or> ttlMs = 0 \<or> ttlMs > MAX_RENEWAL_TTL_MS)) (loss Invalid_ttl)) (\<lambda>_.
     and_then (require (\<not> (\<not> isPositiveSafeInteger (NInt (rp_renewEveryMs policy)) \<or>
                          \<not> isPositiveSafeInteger (NInt (rp_safetyMarginMs policy)) \<or>
                          rp_renewEveryMs policy \<ge> ttlMs \<or> rp_safetyMarginMs policy \<ge> ttlMs)) (loss Invalid_policy)) (\<lambda>_.
     let now = int_of_number nowMs;
         deadlineMs = now + ttlMs;
         intervalDue = now + rp_renewEveryMs policy in
     and_then (require (\<not> (\<not> isSafeMillisecond (NInt deadlineMs) \<or> \<not> isSafeMillisecond (NInt intervalDue)))
                 (loss Deadline_overflow)) (\<lambda>_.
     let nextRenewalMs = min intervalDue (deadlineMs - rp_safetyMarginMs policy) in
     and_then (require (\<not> nextRenewalMs \<le> now) (loss Invalid_policy)) (\<lambda>_.
     Inr (deadlineMs, nextRenewalMs))))))"

subsection \<open>The supervisor\<close>

definition new_supervisor :: "js_value \<Rightarrow> js_value \<Rightarrow> js_number \<Rightarrow> renewal_error + supervisor" where
  "new_supervisor grant policy nowMs =
     and_then (snapshotGrant grant) (\<lambda>grantSnapshot.
     and_then (snapshotPolicy policy) (\<lambda>policySnapshot.
     and_then (validateClock nowMs) (\<lambda>_.
     and_then (makeSchedule nowMs (lg_ttlMs grantSnapshot) policySnapshot) (\<lambda>(deadlineMs, nextRenewalMs).
     Inr \<lparr>sv_grant = grantSnapshot, sv_policy = policySnapshot, sv_localDeadlineMs = deadlineMs,
          sv_nextRenewalMs = nextRenewalMs, sv_lastObservedMs = int_of_number nowMs, sv_loss = None\<rparr>))))"

definition isLive :: "supervisor \<Rightarrow> bool" where
  "isLive sv = (sv_loss sv = None)"

text \<open>\<open>#record\<close>: the first loss wins.\<close>

definition record_loss :: "renewal_error \<Rightarrow> supervisor \<Rightarrow> renewal_error \<times> supervisor" where
  "record_loss e sv = (case sv_loss sv of None \<Rightarrow> (e, sv\<lparr>sv_loss := Some e\<rparr>) | Some old \<Rightarrow> (old, sv))"

definition lose :: "renewal_error \<Rightarrow> supervisor \<Rightarrow> renewal_decision \<times> supervisor" where
  "lose e sv = (case record_loss e sv of (recorded, sv') \<Rightarrow> (Lost (re_reason recorded), sv'))"

definition fail :: "renewal_error \<Rightarrow> supervisor \<Rightarrow> (renewal_error + 'a) \<times> supervisor" where
  "fail e sv = (case record_loss e sv of (recorded, sv') \<Rightarrow> (Inl recorded, sv'))"

definition decide :: "js_number \<Rightarrow> supervisor \<Rightarrow> renewal_decision \<times> supervisor" where
  "decide nowMs sv =
     (case sv_loss sv of
        Some e \<Rightarrow> (Lost (re_reason e), sv)
      | None \<Rightarrow>
          case validateClock nowMs of
            Inl e \<Rightarrow> lose e sv
          | Inr _ \<Rightarrow>
              let now = int_of_number nowMs in
              if now < sv_lastObservedMs sv then lose (loss Clock_regression) sv
              else
                let sv1 = sv\<lparr>sv_lastObservedMs := now\<rparr> in
                if now \<ge> sv_localDeadlineMs sv1 then lose (loss Expired) sv1
                else if now \<ge> sv_nextRenewalMs sv1 then (Renew_now, sv1)
                else (Wait (sv_nextRenewalMs sv1 - now), sv1))"

definition assertLive :: "js_number \<Rightarrow> supervisor \<Rightarrow> (renewal_error + unit) \<times> supervisor" where
  "assertLive nowMs sv =
     (case decide nowMs sv of
        (Lost _, sv') \<Rightarrow> (Inl (the (sv_loss sv')), sv')
      | (_, sv') \<Rightarrow> (Inr (), sv'))"

definition acceptRenewal :: "js_number \<Rightarrow> js_value \<Rightarrow> supervisor \<Rightarrow> (renewal_error + renewal_checkpoint) \<times> supervisor" where
  "acceptRenewal completedMs renewed sv =
     (case sv_loss sv of
        Some e \<Rightarrow> (Inl e, sv)
      | None \<Rightarrow>
          case and_then (validateClock completedMs) (\<lambda>_. snapshotGrant renewed) of
            Inl e \<Rightarrow> fail e sv
          | Inr candidate \<Rightarrow>
              let completed = int_of_number completedMs in
              if completed < sv_lastObservedMs sv then fail (loss Clock_regression) sv
              else
                let sv1 = sv\<lparr>sv_lastObservedMs := completed\<rparr> in
                if completed \<ge> sv_localDeadlineMs sv1 then fail (loss Completion_after_deadline) sv1
                else if lg_key candidate \<noteq> lg_key (sv_grant sv1) \<or> lg_holder candidate \<noteq> lg_holder (sv_grant sv1)
                then fail (loss Identity_changed) sv1
                else if lg_fencingToken candidate \<noteq> lg_fencingToken (sv_grant sv1)
                then fail (loss Token_changed) sv1
                else
                  case and_then (validateDeadlineProgress (lg_leaseExpiresMs (sv_grant sv1)) (lg_leaseExpiresMs candidate))
                         (\<lambda>_. makeSchedule completedMs (lg_ttlMs candidate) (sv_policy sv1)) of
                    Inl e \<Rightarrow> fail e sv1
                  | Inr (deadlineMs, nextRenewalMs) \<Rightarrow>
                      (Inr (Checked_renewed (nextRenewalMs - completed)),
                       sv1\<lparr>sv_grant := candidate, sv_localDeadlineMs := deadlineMs, sv_nextRenewalMs := nextRenewalMs\<rparr>))"

text \<open>The frozen snapshot as the object handed to the authority.\<close>

definition grant_object :: "lease_grant \<Rightarrow> js_value" where
  "grant_object g = object_literal
     ([(''key'', JString (lg_key g)), (''holder'', JString (lg_holder g)),
       (''fencingToken'', JBigInt (lg_fencingToken g)), (''ttlMs'', JNumber (NInt (lg_ttlMs g)))] @
      (case lg_leaseExpiresMs g of None \<Rightarrow> [] | Some e \<Rightarrow> [(''leaseExpiresMs'', JNumber (NInt e))]))"

definition checkpoint ::
  "('w, js_value) lease \<Rightarrow> ('w \<Rightarrow> js_number \<times> 'w) \<Rightarrow> supervisor \<times> 'w \<Rightarrow>
   (renewal_error + renewal_checkpoint) \<times> supervisor \<times> 'w" where
  "checkpoint lease clock = (\<lambda>(sv, w).
     case clock w of
       (now, w1) \<Rightarrow>
         (case decide now sv of
            (Wait n, sv1) \<Rightarrow> (Inr (Checked_wait n), sv1, w1)
          | (Lost _, sv1) \<Rightarrow> (Inl (the (sv_loss sv1)), sv1, w1)
          | (Renew_now, sv1) \<Rightarrow>
              (case lease_renew lease (grant_object (sv_grant sv1)) (lg_ttlMs (sv_grant sv1)) w1 of
                 (Inl c, w2) \<Rightarrow> (case fail (RenewalError Renewal_failed (Some c)) sv1 of (r, sv2) \<Rightarrow> (r, sv2, w2))
               | (Inr renewed, w2) \<Rightarrow>
                   (case clock w2 of
                      (completed, w3) \<Rightarrow>
                        (case acceptRenewal completed renewed sv1 of (r, sv2) \<Rightarrow> (r, sv2, w3))))))"

subsection \<open>Histories\<close>

inductive supervisor_step :: "supervisor \<Rightarrow> supervisor \<Rightarrow> bool" where
  step_decide: "supervisor_step sv (snd (decide now sv))"
| step_rejected: "supervisor_step sv (snd (record_loss (RenewalError Renewal_failed (Some c)) sv))"
| step_accept: "supervisor_step sv (snd (acceptRenewal completed renewed sv))"

inductive_cases supervisor_stepE: "supervisor_step sv sv'"

definition supervisor_invar :: "supervisor \<Rightarrow> bool" where
  "supervisor_invar sv =
     (0 < rp_safetyMarginMs (sv_policy sv) \<and>
      sv_nextRenewalMs sv \<le> sv_localDeadlineMs sv - rp_safetyMarginMs (sv_policy sv) \<and>
      sv_localDeadlineMs sv \<le> MAX_RENEWAL_CLOCK_MS \<and>
      (isLive sv \<longrightarrow> 0 \<le> sv_lastObservedMs sv \<and> sv_lastObservedMs sv < sv_localDeadlineMs sv))"

definition valid_grant :: "lease_grant \<Rightarrow> bool" where
  "valid_grant g =
     (valid_lock_key (lg_key g) \<and> lg_holder g \<noteq> [] \<and>
      0 \<le> lg_fencingToken g \<and> lg_fencingToken g \<le> RENEWAL_MAX_FENCING_TOKEN \<and>
      0 < lg_ttlMs g \<and> lg_ttlMs g \<le> MAX_RENEWAL_TTL_MS \<and>
      pred_option (\<lambda>e. 0 < e \<and> e \<le> MAX_RENEWAL_CLOCK_MS) (lg_leaseExpiresMs g))"

definition grant_identity :: "lease_grant \<Rightarrow> js_string \<times> js_string \<times> int" where
  "grant_identity g = (lg_key g, lg_holder g, lg_fencingToken g)"

section \<open>Lemmas\<close>

lemma renewal_clock_bound [simp]: "MAX_RENEWAL_CLOCK_MS = MAX_SAFE_INTEGER"
  by (simp add: MAX_RENEWAL_CLOCK_MS_def MAX_SAFE_INTEGER_def)

lemma renewal_ttl_bound: "MAX_RENEWAL_TTL_MS < MAX_SAFE_INTEGER"
  by (simp add: MAX_SAFE_INTEGER_def MAX_RENEWAL_TTL_MS_def)

lemma isSafeMillisecond_iff:
  "isSafeMillisecond n \<longleftrightarrow> (\<exists>i. n = NInt i \<and> 0 \<le> i \<and> i \<le> MAX_SAFE_INTEGER)"
proof -
  have "0 \<le> MAX_SAFE_INTEGER" by (simp add: MAX_SAFE_INTEGER_def)
  then show ?thesis by (cases n) auto
qed

declare isSafeMillisecond.simps(1) [simp del]

lemma isSafeMillisecond_int [simp]: "isSafeMillisecond (NInt i) \<longleftrightarrow> 0 \<le> i \<and> i \<le> MAX_SAFE_INTEGER"
  by (simp add: isSafeMillisecond_iff)

lemma validateClock_ok_iff [simp]: "validateClock n = Inr u \<longleftrightarrow> isSafeMillisecond n"
  by (simp add: validateClock_def)

lemma validateClock_err_iff: "validateClock n = Inl e \<longleftrightarrow> \<not> isSafeMillisecond n \<and> e = loss Deadline_overflow"
  by (auto simp: validateClock_def)

lemma makeSchedule_ok_iff:
  "makeSchedule nowMs ttl policy = Inr (d, n) \<longleftrightarrow>
     (\<exists>now. nowMs = NInt now \<and> 0 \<le> now \<and> 0 < ttl \<and> ttl \<le> MAX_RENEWAL_TTL_MS \<and>
        0 < rp_renewEveryMs policy \<and> rp_renewEveryMs policy < ttl \<and>
        0 < rp_safetyMarginMs policy \<and> rp_safetyMarginMs policy < ttl \<and>
        d = now + ttl \<and> d \<le> MAX_SAFE_INTEGER \<and>
        n = now + min (rp_renewEveryMs policy) (ttl - rp_safetyMarginMs policy))"
proof -
  note renewal_ttl_bound
  then show ?thesis
    by (auto simp: makeSchedule_def Let_def and_then_eq_Inr isPositiveSafeInteger_def isSafeMillisecond_iff min_def)
qed

lemma grant_parts_ok_iff:
  "grant_holder v = Inr h \<longleftrightarrow> v = JString h \<and> h \<noteq> []"
  "grant_token v = Inr i \<longleftrightarrow> v = JBigInt i \<and> 0 \<le> i \<and> i \<le> RENEWAL_MAX_FENCING_TOKEN"
  "grant_ttl v = Inr t \<longleftrightarrow> v = JNumber (NInt t) \<and> 0 < t \<and> t \<le> MAX_RENEWAL_TTL_MS"
  "validateAuthorityDeadline v = Inr x \<longleftrightarrow>
     (case x of None \<Rightarrow> v = JUndefined | Some e \<Rightarrow> v = JNumber (NInt e) \<and> 0 < e \<and> e \<le> MAX_SAFE_INTEGER)"
proof -
  note b = renewal_ttl_bound
  show "grant_holder v = Inr h \<longleftrightarrow> v = JString h \<and> h \<noteq> []"
    by (cases v) (auto simp: grant_holder_def)
  show "grant_token v = Inr i \<longleftrightarrow> v = JBigInt i \<and> 0 \<le> i \<and> i \<le> RENEWAL_MAX_FENCING_TOKEN"
    by (cases v) (auto simp: grant_token_def)
  show "grant_ttl v = Inr t \<longleftrightarrow> v = JNumber (NInt t) \<and> 0 < t \<and> t \<le> MAX_RENEWAL_TTL_MS"
  proof (cases v)
    case (JNumber n)
    with b show ?thesis by (cases n) (auto simp: grant_ttl_def)
  qed (simp_all add: grant_ttl_def)
  show "validateAuthorityDeadline v = Inr x \<longleftrightarrow>
     (case x of None \<Rightarrow> v = JUndefined | Some e \<Rightarrow> v = JNumber (NInt e) \<and> 0 < e \<and> e \<le> MAX_SAFE_INTEGER)"
    by (cases v; cases x) (auto simp: validateAuthorityDeadline_def isSafeMillisecond_iff)
qed

lemma snapshotGrant_valid:
  assumes "snapshotGrant v = Inr g"
  shows "valid_grant g"
proof -
  from assms obtain found key holder token ttl expires where
    "lockKey (field found ''key'') = Inr key" "grant_holder (field found ''holder'') = Inr holder"
    "grant_token (field found ''fencingToken'') = Inr token" "grant_ttl (field found ''ttlMs'') = Inr ttl"
    "validateAuthorityDeadline (field found ''leaseExpiresMs'') = Inr expires"
    "\<lparr>lg_key = key, lg_holder = holder, lg_fencingToken = token, lg_leaseExpiresMs = expires, lg_ttlMs = ttl\<rparr> = g"
    unfolding snapshotGrant_def and_then_eq_Inr catch_map_eq sum.inject
    by (elim exE conjE) (rule that; assumption)
  then show ?thesis
    by (auto simp: valid_grant_def grant_parts_ok_iff lockKey_ok_iff split: option.splits)
qed

lemma closed_scan_literal:
  assumes "set (map (js \<circ> fst) fs) \<subseteq> set allowed"
  shows "closed_scan reason allowed (map (\<lambda>(n, v). (PName (js n), Data_prop v)) fs) acc =
    Inr (acc @ map (\<lambda>(n, v). (js n, v)) fs)"
  using assms by (induction fs arbitrary: acc) auto

lemma grant_parts_simps [simp]:
  "h \<noteq> [] \<Longrightarrow> grant_holder (JString h) = Inr h"
  "0 \<le> i \<Longrightarrow> i \<le> RENEWAL_MAX_FENCING_TOKEN \<Longrightarrow> grant_token (JBigInt i) = Inr i"
  "0 < t \<Longrightarrow> t \<le> MAX_RENEWAL_TTL_MS \<Longrightarrow> grant_ttl (JNumber (NInt t)) = Inr t"
  "validateAuthorityDeadline JUndefined = Inr None"
  "0 < e \<Longrightarrow> e \<le> MAX_SAFE_INTEGER \<Longrightarrow> validateAuthorityDeadline (JNumber (NInt e)) = Inr (Some e)"
  by (simp_all add: grant_parts_ok_iff)

lemma snapshotGrant_object: "valid_grant g \<Longrightarrow> snapshotGrant (grant_object g) = Inr g"
  by (cases "lg_leaseExpiresMs g")
    (auto simp: snapshotGrant_def closedOwnDataProperties_def grant_object_def object_literal_def
      GRANT_FIELDS_def has_own_def field_def valid_grant_def
      closed_scan_literal [where fs = "[_, _, _, _]", simplified]
      closed_scan_literal [where fs = "[_, _, _, _, _]", simplified])

text \<open>The pieces of a step.\<close>

lemma record_loss_simps:
  "sv_loss (snd (record_loss e sv)) = Some (case sv_loss sv of None \<Rightarrow> e | Some old \<Rightarrow> old)"
  "sv_grant (snd (record_loss e sv)) = sv_grant sv"
  "sv_policy (snd (record_loss e sv)) = sv_policy sv"
  "sv_localDeadlineMs (snd (record_loss e sv)) = sv_localDeadlineMs sv"
  "sv_nextRenewalMs (snd (record_loss e sv)) = sv_nextRenewalMs sv"
  "sv_lastObservedMs (snd (record_loss e sv)) = sv_lastObservedMs sv"
  by (simp_all add: record_loss_def split: option.split)

lemma lose_fail_snd [simp]:
  "snd (lose e sv) = snd (record_loss e sv)" "snd (fail e sv) = snd (record_loss e sv)"
  by (simp_all add: lose_def fail_def split: prod.split)

lemma record_loss_invar: "supervisor_invar sv \<Longrightarrow> supervisor_invar (snd (record_loss e sv))"
  by (simp add: supervisor_invar_def record_loss_simps isLive_def)

lemma observed_invar:
  "supervisor_invar sv \<Longrightarrow> 0 \<le> t \<Longrightarrow> t < sv_localDeadlineMs sv \<Longrightarrow> supervisor_invar (sv\<lparr>sv_lastObservedMs := t\<rparr>)"
  by (simp add: supervisor_invar_def isLive_def)

lemma lost_observed_invar:
  "supervisor_invar sv \<Longrightarrow> supervisor_invar (snd (record_loss e (sv\<lparr>sv_lastObservedMs := t\<rparr>)))"
  by (simp add: supervisor_invar_def record_loss_simps isLive_def)

lemma record_loss_live: "sv_loss sv = None \<Longrightarrow> record_loss e sv = (e, sv\<lparr>sv_loss := Some e\<rparr>)"
  by (simp add: record_loss_def)

lemma decide_lost [simp]: "sv_loss sv = Some e \<Longrightarrow> decide now sv = (Lost (re_reason e), sv)"
  by (simp add: decide_def)

lemma decide_live:
  assumes "sv_loss sv = None"
  shows "decide nowMs sv =
    (if \<not> isSafeMillisecond nowMs then (Lost Deadline_overflow, sv\<lparr>sv_loss := Some (loss Deadline_overflow)\<rparr>)
     else let now = int_of_number nowMs; sv1 = sv\<lparr>sv_lastObservedMs := now\<rparr> in
       if now < sv_lastObservedMs sv then (Lost Clock_regression, sv\<lparr>sv_loss := Some (loss Clock_regression)\<rparr>)
       else if sv_localDeadlineMs sv \<le> now then (Lost Expired, sv1\<lparr>sv_loss := Some (loss Expired)\<rparr>)
       else if sv_nextRenewalMs sv \<le> now then (Renew_now, sv1)
       else (Wait (sv_nextRenewalMs sv - now), sv1))"
  using assms
  by (auto simp: decide_def lose_def record_loss_live validateClock_err_iff Let_def split: sum.split)

lemma decide_keeps:
  assumes "supervisor_invar sv" and "decide now sv = (d, sv')"
  shows "supervisor_invar sv' \<and> sv_grant sv' = sv_grant sv \<and> sv_policy sv' = sv_policy sv \<and>
    (\<forall>e. sv_loss sv = Some e \<longrightarrow> sv_loss sv' = Some e) \<and> (isLive sv' \<longleftrightarrow> (\<forall>r. d \<noteq> Lost r))"
proof (cases "sv_loss sv")
  case None
  with assms show ?thesis
    by (auto simp: decide_live supervisor_invar_def isLive_def Let_def isSafeMillisecond_iff split: if_splits)
next
  case (Some e)
  with assms show ?thesis by (auto simp: isLive_def)
qed

lemma acceptRenewal_lost [simp]: "sv_loss sv = Some e \<Longrightarrow> acceptRenewal t v sv = (Inl e, sv)"
  by (simp add: acceptRenewal_def)

lemma acceptRenewal_ok_iff:
  "acceptRenewal completedMs renewed sv = (Inr cp, sv') \<longleftrightarrow>
     (\<exists>t g d n. sv_loss sv = None \<and> completedMs = NInt t \<and> sv_lastObservedMs sv \<le> t \<and> t < sv_localDeadlineMs sv \<and>
        snapshotGrant renewed = Inr g \<and> grant_identity g = grant_identity (sv_grant sv) \<and>
        validateDeadlineProgress (lg_leaseExpiresMs (sv_grant sv)) (lg_leaseExpiresMs g) = Inr () \<and>
        makeSchedule (NInt t) (lg_ttlMs g) (sv_policy sv) = Inr (d, n) \<and>
        cp = Checked_renewed (n - t) \<and>
        sv' = sv\<lparr>sv_lastObservedMs := t, sv_grant := g, sv_localDeadlineMs := d, sv_nextRenewalMs := n\<rparr>)"
    (is "?lhs \<longleftrightarrow> ?rhs")
proof
  assume ?lhs
  then show ?rhs
    by (auto simp: acceptRenewal_def fail_def record_loss_def Let_def and_then_eq_Inr grant_identity_def
        isSafeMillisecond_iff split: option.splits sum.splits if_splits prod.splits)
next
  assume ?rhs
  then obtain t g d n where r: "sv_loss sv = None" "completedMs = NInt t" "sv_lastObservedMs sv \<le> t"
    "t < sv_localDeadlineMs sv" "snapshotGrant renewed = Inr g" "grant_identity g = grant_identity (sv_grant sv)"
    "validateDeadlineProgress (lg_leaseExpiresMs (sv_grant sv)) (lg_leaseExpiresMs g) = Inr ()"
    "makeSchedule (NInt t) (lg_ttlMs g) (sv_policy sv) = Inr (d, n)" "cp = Checked_renewed (n - t)"
    "sv' = sv\<lparr>sv_lastObservedMs := t, sv_grant := g, sv_localDeadlineMs := d, sv_nextRenewalMs := n\<rparr>" by blast
  then have "isSafeMillisecond (NInt t)"
    using renewal_ttl_bound by (auto simp: makeSchedule_ok_iff)
  with r show ?lhs by (simp add: acceptRenewal_def grant_identity_def validateClock_def)
qed

lemma fail_keeps:
  assumes "fail e u = (Inl x, sv')" and "u = sv \<or> u = sv\<lparr>sv_lastObservedMs := t\<rparr>"
  shows "sv_loss sv' = Some x \<and> sv_grant sv' = sv_grant sv \<and> sv_policy sv' = sv_policy sv \<and>
    (supervisor_invar sv \<longrightarrow> supervisor_invar sv')"
  using assms record_loss_simps [of e u] record_loss_invar [of sv e] lost_observed_invar [of sv e t]
  by (cases "record_loss e u") (auto simp: fail_def record_loss_def split: option.splits)

lemmas fail_keeps_rules = fail_keeps [OF _ disjI1 [OF refl]] fail_keeps [OF _ disjI2 [OF refl]]

lemma acceptRenewal_err:
  assumes "acceptRenewal completedMs renewed sv = (Inl e, sv')"
  shows "sv_loss sv' = Some e \<and> sv_grant sv' = sv_grant sv \<and> sv_policy sv' = sv_policy sv \<and>
    (supervisor_invar sv \<longrightarrow> supervisor_invar sv')"
  using assms unfolding acceptRenewal_def Let_def
  by (simp split: option.splits sum.splits if_splits prod.splits; (elim fail_keeps_rules)?)

lemma acceptRenewal_keeps:
  assumes "supervisor_invar sv" and "acceptRenewal completedMs renewed sv = (r, sv')"
  shows "supervisor_invar sv' \<and> grant_identity (sv_grant sv') = grant_identity (sv_grant sv) \<and>
    sv_policy sv' = sv_policy sv \<and> (\<forall>e. sv_loss sv = Some e \<longrightarrow> sv_loss sv' = Some e)"
proof (cases r)
  case (Inl e)
  note err = acceptRenewal_err [OF assms(2) [unfolded Inl]]
  show ?thesis
  proof (cases "sv_loss sv")
    case None
    with err assms(1) show ?thesis by simp
  next
    case (Some x)
    with assms have "sv' = sv" by simp
    with Some assms(1) show ?thesis by simp
  qed
next
  case (Inr cp)
  with assms(2) obtain t g d n where r: "sv_loss sv = None" "grant_identity g = grant_identity (sv_grant sv)"
    "makeSchedule (NInt t) (lg_ttlMs g) (sv_policy sv) = Inr (d, n)"
    "sv' = sv\<lparr>sv_lastObservedMs := t, sv_grant := g, sv_localDeadlineMs := d, sv_nextRenewalMs := n\<rparr>"
    unfolding Inr acceptRenewal_ok_iff by blast
  with assms(1) show ?thesis by (auto simp: supervisor_invar_def isLive_def makeSchedule_ok_iff)
qed

lemma new_supervisor_ok:
  assumes "new_supervisor grant policy nowMs = Inr sv"
  shows "supervisor_invar sv \<and> isLive sv \<and> snapshotGrant grant = Inr (sv_grant sv) \<and>
    (\<exists>now. nowMs = NInt now \<and> sv_localDeadlineMs sv = now + lg_ttlMs (sv_grant sv))"
  using assms
  by (auto simp: new_supervisor_def and_then_eq_Inr makeSchedule_ok_iff supervisor_invar_def isLive_def)

definition sv_identity :: "supervisor \<Rightarrow> (js_string \<times> js_string \<times> int) \<times> renewal_policy" where
  "sv_identity sv = (grant_identity (sv_grant sv), sv_policy sv)"

interpretation supervision: fail_closed supervisor_step sv_loss sv_identity supervisor_invar
proof
  fix s t e
  assume inv: "supervisor_invar s" and step: "supervisor_step s t"
  from step have "supervisor_invar t \<and> sv_identity t = sv_identity s \<and> (\<forall>e. sv_loss s = Some e \<longrightarrow> sv_loss t = Some e)"
  proof (elim supervisor_stepE)
    fix now
    assume "t = snd (decide now s)"
    with decide_keeps [OF inv prod.collapse [symmetric], of now] show ?thesis
      by (simp add: sv_identity_def)
  next
    fix c
    assume "t = snd (record_loss (RenewalError Renewal_failed (Some c)) s)"
    with inv show ?thesis by (simp add: record_loss_simps record_loss_invar sv_identity_def)
  next
    fix completed renewed
    assume "t = snd (acceptRenewal completed renewed s)"
    with acceptRenewal_keeps [OF inv prod.collapse [symmetric], of completed renewed] show ?thesis
      by (simp add: sv_identity_def)
  qed
  then show "supervisor_invar t" "sv_identity t = sv_identity s" "sv_loss s = Some e \<Longrightarrow> sv_loss t = Some e"
    by blast+
qed

lemma reachable_supervisor:
  assumes "new_supervisor grant policy nowMs = Inr sv0" and "reachable_from supervisor_step sv0 sv"
  shows "supervisor_invar sv \<and> sv_identity sv = sv_identity sv0"
  using supervision.reachable_facts [OF assms(2)] new_supervisor_ok [OF assms(1)] by blast

section \<open>Properties\<close>

definition sample_grant :: "int \<Rightarrow> lease_grant" where
  "sample_grant e = \<lparr>lg_key = [107], lg_holder = [104], lg_fencingToken = 7, lg_leaseExpiresMs = Some e, lg_ttlMs = 100\<rparr>"

definition sample_renewal_policy :: js_value where
  "sample_renewal_policy = object_literal [(''renewEveryMs'', JNumber (NInt 40)), (''safetyMarginMs'', JNumber (NInt 30))]"

lemma sample_grant_valid: "0 < e \<Longrightarrow> e \<le> MAX_SAFE_INTEGER \<Longrightarrow> valid_grant (sample_grant e)"
proof -
  have "valid_lock_key [107]" by code_simp
  then show "0 < e \<Longrightarrow> e \<le> MAX_SAFE_INTEGER \<Longrightarrow> valid_grant (sample_grant e)"
    by (simp add: valid_grant_def sample_grant_def RENEWAL_MAX_FENCING_TOKEN_def MAX_RENEWAL_TTL_MS_def)
qed

definition sample_supervisor :: supervisor where
  "sample_supervisor = \<lparr>sv_grant = sample_grant 1100, sv_policy = \<lparr>rp_renewEveryMs = 40, rp_safetyMarginMs = 30\<rparr>,
     sv_localDeadlineMs = 110, sv_nextRenewalMs = 50, sv_lastObservedMs = 10, sv_loss = None\<rparr>"

lemma sample_supervisor_new:
  "new_supervisor (grant_object (sample_grant 1100)) sample_renewal_policy (NInt 10) = Inr sample_supervisor"
proof -
  have "snapshotPolicy sample_renewal_policy = Inr \<lparr>rp_renewEveryMs = 40, rp_safetyMarginMs = 30\<rparr>" by code_simp
  moreover have "snapshotGrant (grant_object (sample_grant 1100)) = Inr (sample_grant 1100)"
    by (rule snapshotGrant_object) (simp add: sample_grant_valid MAX_SAFE_INTEGER_def)
  moreover have "makeSchedule (NInt 10) 100 \<lparr>rp_renewEveryMs = 40, rp_safetyMarginMs = 30\<rparr> = Inr (110, 50)"
    by (simp add: makeSchedule_ok_iff MAX_RENEWAL_TTL_MS_def MAX_SAFE_INTEGER_def)
  ultimately show ?thesis
    by (simp add: new_supervisor_def validateClock_def MAX_SAFE_INTEGER_def sample_supervisor_def)
      (simp add: sample_grant_def)
qed

text \<open>
  C21: supervision fails closed. In any interleaving of decisions, rejected renewals and renewal
  answers after construction, the key, holder and fencing token of the grant and the policy never
  change; and once a loss is recorded it is final: it stays the recorded loss in every later
  state, every later decision reports it, and every later renewal answer is refused with it.
\<close>

theorem supervisor_fails_closed:
  assumes "new_supervisor grant policy nowMs = Inr sv0"
    and "reachable_from supervisor_step sv0 sv" and "reachable_from supervisor_step sv sv'"
  shows "grant_identity (sv_grant sv') = grant_identity (sv_grant sv0) \<and> sv_policy sv' = sv_policy sv0 \<and>
    (\<forall>e. sv_loss sv = Some e \<longrightarrow>
       sv_loss sv' = Some e \<and> fst (decide now sv') = Lost (re_reason e) \<and>
       acceptRenewal completed renewed sv' = (Inl e, sv'))"
proof -
  have inv: "supervisor_invar sv0" using new_supervisor_ok [OF assms(1)] by blast
  have "sv_identity sv' = sv_identity sv0"
    using reachable_supervisor [OF assms(1) reachable_trans [OF assms(3,2)]] by blast
  moreover have "sv_loss sv' = Some e" if "sv_loss sv = Some e" for e
    using supervision.never_recovers [OF assms(2,3) inv that] .
  ultimately show ?thesis by (auto simp: sv_identity_def)
qed

theorem supervisor_fails_closed_witness:
  "sv_loss (snd (decide (NInt 5) sample_supervisor)) = Some (loss Clock_regression) \<and>
   fst (decide (NInt 60) (snd (decide (NInt 5) sample_supervisor))) = Lost Clock_regression"
proof -
  let ?sv = "snd (decide (NInt 5) sample_supervisor)"
  have lost: "sv_loss ?sv = Some (loss Clock_regression)"
    by (simp add: decide_live sample_supervisor_def MAX_SAFE_INTEGER_def)
  have "reachable_from supervisor_step sample_supervisor ?sv"
    by (rule reachable_from.there, rule reachable_from.here, rule step_decide)
  from supervisor_fails_closed [OF sample_supervisor_new this reachable_from.here, of "NInt 60"] lost
  show ?thesis by simp
qed

text \<open>
  C22: decisions are on time. In every reachable state, a decision to wait is for a positive time
  that ends at least the safety margin before the local deadline; a decision to renew is made
  before the local deadline; and at or after the deadline, at an invalid clock reading, or when
  the clock went backwards the decision is always a loss, which is then recorded.
\<close>

theorem supervisor_decides_in_time:
  assumes "new_supervisor grant policy nowMs = Inr sv0" and "reachable_from supervisor_step sv0 sv"
    and "decide now sv = (d, sv')"
  shows "case d of
      Wait n \<Rightarrow> (\<exists>t. now = NInt t \<and> sv_lastObservedMs sv \<le> t \<and> 0 < n \<and>
                 t + n \<le> sv_localDeadlineMs sv - rp_safetyMarginMs (sv_policy sv0) \<and> isLive sv')
    | Renew_now \<Rightarrow> (\<exists>t. now = NInt t \<and> sv_lastObservedMs sv \<le> t \<and> t < sv_localDeadlineMs sv \<and> isLive sv')
    | Lost r \<Rightarrow> map_option re_reason (sv_loss sv') = Some r"
proof -
  have inv: "supervisor_invar sv" and pol: "sv_policy sv = sv_policy sv0"
    using reachable_supervisor [OF assms(1,2)] by (auto simp: sv_identity_def)
  show ?thesis
  proof (cases "sv_loss sv")
    case None
    with inv pol assms(3) show ?thesis
      by (auto simp: decide_live supervisor_invar_def isLive_def Let_def isSafeMillisecond_iff split: if_splits)
  next
    case (Some e)
    with assms(3) show ?thesis by auto
  qed
qed

theorem supervisor_decides_in_time_witness: "fst (decide (NInt 20) sample_supervisor) = Wait 30 \<and> 20 + 30 \<le> 110 - (30 :: int)"
proof -
  have "decide (NInt 20) sample_supervisor = (Wait 30, sample_supervisor\<lparr>sv_lastObservedMs := 20\<rparr>)"
    by (simp add: decide_live sample_supervisor_def MAX_SAFE_INTEGER_def)
  from supervisor_decides_in_time [OF sample_supervisor_new reachable_from.here this] this show ?thesis
    by (simp add: sample_supervisor_def)
qed

text \<open>
  Exactly when a renewal answer is accepted. The supervisor must be live, the completion time
  valid, not before the last observation and strictly before the old local deadline; the answer
  must be a closed, well-formed grant with the same key, holder and token, whose authority
  deadline (if one was known) is present and strictly later; and the schedule must fit. The new
  local deadline is then the completion time plus the granted term. Every other answer is an
  error that is recorded as the loss.
\<close>

theorem acceptRenewal_exact:
  "(\<exists>cp. fst (acceptRenewal completedMs renewed sv) = Inr cp) \<longleftrightarrow>
   (\<exists>t g. sv_loss sv = None \<and> completedMs = NInt t \<and> 0 \<le> t \<and> sv_lastObservedMs sv \<le> t \<and> t < sv_localDeadlineMs sv \<and>
      snapshotGrant renewed = Inr g \<and> grant_identity g = grant_identity (sv_grant sv) \<and>
      (case (lg_leaseExpiresMs (sv_grant sv), lg_leaseExpiresMs g) of
         (Some old, Some new) \<Rightarrow> old < new | (Some old, None) \<Rightarrow> False | _ \<Rightarrow> True) \<and>
      0 < rp_renewEveryMs (sv_policy sv) \<and> rp_renewEveryMs (sv_policy sv) < lg_ttlMs g \<and>
      0 < rp_safetyMarginMs (sv_policy sv) \<and> rp_safetyMarginMs (sv_policy sv) < lg_ttlMs g \<and>
      t + lg_ttlMs g \<le> MAX_SAFE_INTEGER \<and>
      sv_localDeadlineMs (snd (acceptRenewal completedMs renewed sv)) = t + lg_ttlMs g \<and>
      sv_grant (snd (acceptRenewal completedMs renewed sv)) = g)"
    (is "?lhs \<longleftrightarrow> ?rhs")
proof
  assume ?lhs
  then obtain cp where "acceptRenewal completedMs renewed sv = (Inr cp, snd (acceptRenewal completedMs renewed sv))"
    by (metis prod.collapse)
  then obtain t g d n where r: "sv_loss sv = None" "completedMs = NInt t" "sv_lastObservedMs sv \<le> t"
    "t < sv_localDeadlineMs sv" "snapshotGrant renewed = Inr g" "grant_identity g = grant_identity (sv_grant sv)"
    "validateDeadlineProgress (lg_leaseExpiresMs (sv_grant sv)) (lg_leaseExpiresMs g) = Inr ()"
    "makeSchedule (NInt t) (lg_ttlMs g) (sv_policy sv) = Inr (d, n)"
    "snd (acceptRenewal completedMs renewed sv) =
       sv\<lparr>sv_lastObservedMs := t, sv_grant := g, sv_localDeadlineMs := d, sv_nextRenewalMs := n\<rparr>"
    unfolding acceptRenewal_ok_iff by blast
  then show ?rhs
    by (intro exI [of _ t] exI [of _ g])
      (auto simp: makeSchedule_ok_iff validateDeadlineProgress_def split: option.splits if_splits)
next
  assume ?rhs
  then obtain t g where r: "sv_loss sv = None" "completedMs = NInt t" "0 \<le> t" "sv_lastObservedMs sv \<le> t"
    "t < sv_localDeadlineMs sv" "snapshotGrant renewed = Inr g" "grant_identity g = grant_identity (sv_grant sv)"
    and progress: "case (lg_leaseExpiresMs (sv_grant sv), lg_leaseExpiresMs g) of
         (Some old, Some new) \<Rightarrow> old < new | (Some old, None) \<Rightarrow> False | _ \<Rightarrow> True"
    and pol: "0 < rp_renewEveryMs (sv_policy sv)" "rp_renewEveryMs (sv_policy sv) < lg_ttlMs g"
      "0 < rp_safetyMarginMs (sv_policy sv)" "rp_safetyMarginMs (sv_policy sv) < lg_ttlMs g"
      "t + lg_ttlMs g \<le> MAX_SAFE_INTEGER" by blast
  have "valid_grant g" using r(6) by (rule snapshotGrant_valid)
  with r(3) pol obtain d n where sched: "makeSchedule (NInt t) (lg_ttlMs g) (sv_policy sv) = Inr (d, n)"
    by (auto simp: makeSchedule_ok_iff valid_grant_def)
  have "validateDeadlineProgress (lg_leaseExpiresMs (sv_grant sv)) (lg_leaseExpiresMs g) = Inr ()"
    using progress by (auto simp: validateDeadlineProgress_def split: option.splits)
  with r sched have "acceptRenewal completedMs renewed sv = (Inr (Checked_renewed (n - t)),
     sv\<lparr>sv_lastObservedMs := t, sv_grant := g, sv_localDeadlineMs := d, sv_nextRenewalMs := n\<rparr>)"
    by (subst acceptRenewal_ok_iff) blast
  then show ?lhs by simp
qed

text \<open>
  A checkpoint never passes silently. Whatever the clock and the authority do, a checkpoint
  either throws the loss that is recorded in the supervisor, or returns with the supervisor
  live; and it asks the authority to renew only in a state that is live and before the local
  deadline, with exactly the supervised grant.
\<close>

theorem checkpoint_fails_closed:
  assumes "supervisor_invar sv" and "checkpoint lease clock (sv, w) = (r, sv', w')"
  shows "(case r of Inl e \<Rightarrow> sv_loss sv' = Some e | Inr _ \<Rightarrow> isLive sv') \<and>
    grant_identity (sv_grant sv') = grant_identity (sv_grant sv) \<and>
    (r = Inr (Checked_renewed n) \<longrightarrow>
       (\<exists>t renewed. fst (clock w) = NInt t \<and> t < sv_localDeadlineMs sv \<and>
          fst (lease_renew lease (grant_object (sv_grant sv)) (lg_ttlMs (sv_grant sv)) (snd (clock w))) = Inr renewed))"
proof -
  obtain now w1 where cl: "clock w = (now, w1)" by fastforce
  obtain d sv1 where dec: "decide now sv = (d, sv1)" by fastforce
  note kept = decide_keeps [OF assms(1) dec]
  show ?thesis
  proof (cases d)
    case (Wait m)
    with assms(2) kept show ?thesis by (auto simp: checkpoint_def cl dec)
  next
    case (Lost m)
    with assms(2) kept show ?thesis by (auto simp: checkpoint_def cl dec isLive_def)
  next
    case Renew_now
    then have live: "sv_loss sv1 = None" using kept by (simp add: isLive_def)
    have time: "\<exists>t. now = NInt t \<and> t < sv_localDeadlineMs sv"
      using dec Renew_now by (cases "sv_loss sv") (auto simp: decide_live Let_def isSafeMillisecond_iff split: if_splits)
    obtain q w2 where ren: "lease_renew lease (grant_object (sv_grant sv)) (lg_ttlMs (sv_grant sv)) w1 = (q, w2)" by fastforce
    have same: "sv_grant sv1 = sv_grant sv" using kept by blast
    show ?thesis
    proof (cases q)
      case (Inl c)
      with assms(2) live kept Renew_now show ?thesis
        by (auto simp: checkpoint_def cl dec ren same fail_def record_loss_def)
    next
      case (Inr renewed)
      obtain completed w3 where cl2: "clock w2 = (completed, w3)" by fastforce
      have acc: "acceptRenewal completed renewed sv1 = (r, sv')"
        using assms(2) Inr Renew_now by (auto simp: checkpoint_def cl dec same ren cl2 split: prod.splits)
      have res: "case r of Inl e \<Rightarrow> sv_loss sv' = Some e | Inr _ \<Rightarrow> isLive sv'"
      proof (cases r)
        case (Inl e)
        from acceptRenewal_err [OF acc [unfolded Inl]] show ?thesis by (simp add: Inl)
      next
        case (Inr cp)
        from acc [unfolded Inr acceptRenewal_ok_iff] obtain t g d n where "sv_loss sv1 = None"
          "sv' = sv1\<lparr>sv_lastObservedMs := t, sv_grant := g, sv_localDeadlineMs := d, sv_nextRenewalMs := n\<rparr>" by blast
        then show ?thesis by (simp add: Inr isLive_def)
      qed
      have "supervisor_invar sv1" using kept by blast
      from acceptRenewal_keeps [OF this acc] same
      have "grant_identity (sv_grant sv') = grant_identity (sv_grant sv)" by simp
      with res time ren Inr cl show ?thesis by simp
    qed
  qed
qed

theorem checkpoint_fails_closed_witness:
  "sv_loss (fst (snd (checkpoint \<lparr>lease_acquire = \<lambda>_ _ _ w. (Inr JNull, w), lease_renew = \<lambda>_ _ w. (Inl (Thrown_error 3), w),
      lease_release = \<lambda>_ w. (Inr True, w)\<rparr> (\<lambda>w. (NInt w, w + 1)) (sample_supervisor, 60)))) =
   Some (RenewalError Renewal_failed (Some (Thrown_error 3)))"
proof -
  let ?lease = "\<lparr>lease_acquire = \<lambda>_ _ _ w. (Inr JNull, w), lease_renew = \<lambda>_ _ w. (Inl (Thrown_error 3), w),
      lease_release = \<lambda>_ w. (Inr True, w)\<rparr> :: (int, js_value) lease"
  have "fst (checkpoint ?lease (\<lambda>w. (NInt w, w + 1)) (sample_supervisor, 60)) =
      Inl (RenewalError Renewal_failed (Some (Thrown_error 3)))"
    by (simp add: checkpoint_def decide_live sample_supervisor_def MAX_SAFE_INTEGER_def fail_def record_loss_def)
  then obtain sv' w' where run: "checkpoint ?lease (\<lambda>w. (NInt w, w + 1)) (sample_supervisor, 60) =
      (Inl (RenewalError Renewal_failed (Some (Thrown_error 3))), sv', w')"
    by (cases "checkpoint ?lease (\<lambda>w. (NInt w, w + 1)) (sample_supervisor, 60)") auto
  have "supervisor_invar sample_supervisor" using new_supervisor_ok [OF sample_supervisor_new] by blast
  from checkpoint_fails_closed [OF this run, of 0] show ?thesis unfolding run by simp
qed

text \<open>
  Snapshots are faithful. A grant that came out of the snapshot is well formed (valid key,
  non-empty holder, unsigned 64-bit token, term and deadline in range), and taking a snapshot of
  the object made from it returns the same grant.
\<close>

theorem snapshotGrant_roundtrip:
  "((\<exists>v. snapshotGrant v = Inr g) \<longleftrightarrow> valid_grant g) \<and>
   (valid_grant g \<longrightarrow> snapshotGrant (grant_object g) = Inr g)"
  using snapshotGrant_valid snapshotGrant_object by blast

theorem snapshotGrant_roundtrip_witness:
  "snapshotGrant (grant_object (sample_grant 1100)) = Inr (sample_grant 1100)"
  using snapshotGrant_roundtrip [of "sample_grant 1100"] sample_grant_valid [of 1100]
  by (simp add: MAX_SAFE_INTEGER_def)

end
