(* ===== verification/Formal_Model.thy ===== *)
theory Formal_Model
  imports Js_Values Authority_Spec
begin

text \<open>
  \<open>formal/model.mjs\<close>: the bounded fencing model the repository explores exhaustively. The
  transition function, its assertions, the fixed scenario and the replay of recorded actions are
  translated; in place of the exploration, the assertions are proved of every reachable state and
  transition, whatever the length of the history.
\<close>

section \<open>Definitions\<close>

definition MAX_TIME :: nat where "MAX_TIME = 5"
definition MAX_FENCE :: nat where "MAX_FENCE = 4"
definition TTL :: nat where "TTL = 2"
definition CLIENTS :: "js_string list" where "CLIENTS = [js ''a'', js ''b'']"
definition VALUES :: "int list" where "VALUES = [1, 2]"

record model_state =
  ms_now :: nat
  ms_holder :: "js_string option"
  ms_holderAlive :: bool
  ms_leaseFence :: nat
  ms_expiresAt :: nat
  ms_lastFence :: nat
  ms_tokens :: "js_string \<Rightarrow> nat"
  ms_resourceFence :: nat
  ms_resourceValue :: int

definition initialState :: model_state where
  "initialState = \<lparr>ms_now = 0, ms_holder = None, ms_holderAlive = False, ms_leaseFence = 0, ms_expiresAt = 0,
     ms_lastFence = 0, ms_tokens = (\<lambda>_. 0), ms_resourceFence = 0, ms_resourceValue = 0\<rparr>"

datatype model_action =
    Tick
  | Acquire js_string
  | Renew js_string
  | Release js_string
  | Crash js_string
  | Write js_string int
  | Unknown_action

datatype model_reason =
    Precondition | Advanced_clock | Granted | Renewed | Released | Crashed | Replayed | Committed
  | Ambiguous_token_reuse | Stale_fence | Unknown_kind

record model_transition =
  mt_action :: model_action
  mt_before :: model_state
  mt_next :: model_state
  mt_accepted :: bool
  mt_reason :: model_reason

definition isActive :: "model_state \<Rightarrow> bool" where
  "isActive s = (ms_holder s \<noteq> None \<and> ms_holderAlive s \<and> ms_now s < ms_expiresAt s)"

definition free_lease :: "model_state \<Rightarrow> model_state" where
  "free_lease s = s\<lparr>ms_holder := None, ms_holderAlive := False, ms_leaseFence := 0, ms_expiresAt := 0\<rparr>"

definition expire :: "model_state \<Rightarrow> model_state" where
  "expire s = (if ms_holder s \<noteq> None \<and> ms_now s \<ge> ms_expiresAt s then free_lease s else s)"

definition write_reason :: "nat \<Rightarrow> int \<Rightarrow> model_state \<Rightarrow> model_reason" where
  "write_reason token v s =
     (if token = ms_resourceFence s \<and> v \<noteq> ms_resourceValue s then Ambiguous_token_reuse
      else if token < ms_resourceFence s then Stale_fence else Precondition)"

text \<open>The \<open>switch\<close> of \<open>step\<close>: the next state, whether the action was accepted, and the reason.\<close>

fun apply_action :: "model_state \<Rightarrow> model_action \<Rightarrow> model_state \<times> bool \<times> model_reason" where
  "apply_action s Tick =
     (if ms_now s < MAX_TIME then (expire (s\<lparr>ms_now := ms_now s + 1\<rparr>), True, Advanced_clock)
      else (s, False, Precondition))"
| "apply_action s (Acquire c) =
     (if c \<in> set CLIENTS \<and> ms_holder s = None \<and> ms_lastFence s < MAX_FENCE
      then let fence = ms_lastFence s + 1 in
        (s\<lparr>ms_lastFence := fence, ms_leaseFence := fence, ms_holder := Some c, ms_holderAlive := True,
           ms_expiresAt := min (MAX_TIME + TTL) (ms_now s + TTL), ms_tokens := (ms_tokens s)(c := fence)\<rparr>,
         True, Granted)
      else (s, False, Precondition))"
| "apply_action s (Renew c) =
     (if c \<in> set CLIENTS \<and> isActive s \<and> ms_holder s = Some c
      then (s\<lparr>ms_expiresAt := min (MAX_TIME + TTL) (ms_expiresAt s + 1)\<rparr>, True, Renewed)
      else (s, False, Precondition))"
| "apply_action s (Release c) =
     (if c \<in> set CLIENTS \<and> isActive s \<and> ms_holder s = Some c \<and> ms_tokens s c = ms_leaseFence s
      then (free_lease s, True, Released)
      else (s, False, Precondition))"
| "apply_action s (Crash c) =
     (if c \<in> set CLIENTS \<and> ms_holder s = Some c \<and> ms_holderAlive s
      then (s\<lparr>ms_holderAlive := False\<rparr>, True, Crashed)
      else (s, False, Precondition))"
| "apply_action s (Write c v) =
     (if c \<in> set CLIENTS \<and> v \<in> set VALUES
      then let token = ms_tokens s c;
               ownsLiveLease = (isActive s \<and> ms_holder s = Some c \<and> token = ms_leaseFence s);
               fresh = (token > ms_resourceFence s);
               exactReplay = (token = ms_resourceFence s \<and> v = ms_resourceValue s)
        in if ownsLiveLease \<and> (fresh \<or> exactReplay)
           then (s\<lparr>ms_resourceFence := token, ms_resourceValue := v\<rparr>, True, if exactReplay then Replayed else Committed)
           else (s, False, write_reason token v s)
      else (s, False, Precondition))"
| "apply_action s Unknown_action = (s, False, Unknown_kind)"

definition transition :: "model_state \<Rightarrow> model_action \<Rightarrow> model_transition" where
  "transition input action =
     (let before = expire input in
      case apply_action before action of
        (nxt, accepted, reason) \<Rightarrow>
          \<lparr>mt_action = action, mt_before = before, mt_next = nxt, mt_accepted = accepted, mt_reason = reason\<rparr>)"

definition assertState :: "model_state \<Rightarrow> bool" where
  "assertState s =
     (ms_now s \<le> MAX_TIME \<and> ms_lastFence s \<le> MAX_FENCE \<and> ms_resourceFence s \<le> ms_lastFence s \<and>
      ms_tokens s (js ''a'') \<le> ms_lastFence s \<and> ms_tokens s (js ''b'') \<le> ms_lastFence s \<and>
      (case ms_holder s of
         None \<Rightarrow> ms_leaseFence s = 0 \<and> ms_expiresAt s = 0 \<and> \<not> ms_holderAlive s
       | Some h \<Rightarrow> h \<in> set CLIENTS \<and> ms_leaseFence s > 0 \<and> ms_leaseFence s = ms_lastFence s \<and>
                  ms_tokens s h = ms_leaseFence s))"

definition assertWrite :: "model_state \<Rightarrow> model_state \<Rightarrow> bool \<Rightarrow> js_string \<Rightarrow> int \<Rightarrow> bool" where
  "assertWrite before nxt accepted c v =
     (if accepted then
        let token = ms_tokens before c in
        isActive before \<and> ms_holder before = Some c \<and> token = ms_leaseFence before \<and>
        (token > ms_resourceFence before \<or> token = ms_resourceFence before \<and> v = ms_resourceValue before) \<and>
        ms_resourceFence nxt = token
      else ms_resourceFence nxt = ms_resourceFence before \<and> ms_resourceValue nxt = ms_resourceValue before)"

definition assertTransition :: "model_state \<Rightarrow> model_transition \<Rightarrow> bool" where
  "assertTransition original t =
     (let before = mt_before t; nxt = mt_next t; accepted = mt_accepted t in
      ms_lastFence nxt \<ge> ms_lastFence original \<and> ms_resourceFence nxt \<ge> ms_resourceFence original \<and>
      (case mt_action t of
         Acquire c \<Rightarrow>
           (accepted \<longrightarrow> ms_lastFence nxt = ms_lastFence before + 1) \<and>
           (ms_holder before \<noteq> None \<and> \<not> ms_holderAlive before \<and> ms_now before < ms_expiresAt before \<longrightarrow> \<not> accepted)
       | Renew c \<Rightarrow> accepted \<longrightarrow> ms_leaseFence nxt = ms_leaseFence before
       | Crash c \<Rightarrow> accepted \<longrightarrow> ms_holder nxt = ms_holder before \<and> ms_expiresAt nxt = ms_expiresAt before
       | Write c v \<Rightarrow> assertWrite before nxt accepted c v
       | _ \<Rightarrow> True))"

datatype model_failure = State_invariant | Transition_invariant | Scenario_invariant nat

definition step :: "model_state \<Rightarrow> model_action \<Rightarrow> model_failure + model_transition" where
  "step input action =
     (let t = transition input action in
      and_then (require (assertState (mt_next t)) State_invariant) (\<lambda>_.
      and_then (require (assertTransition input t) Transition_invariant) (\<lambda>_.
      Inr t)))"

fun replay_from :: "model_state \<Rightarrow> model_action list \<Rightarrow> model_failure + model_state \<times> (bool \<times> model_reason) list" where
  "replay_from s [] = Inr (s, [])"
| "replay_from s (a # as) =
     and_then (step s a) (\<lambda>t.
     and_then (replay_from (mt_next t) as) (\<lambda>(final, outcomes).
     Inr (final, (mt_accepted t, mt_reason t) # outcomes)))"

definition replayLine :: "model_action list \<Rightarrow> model_failure + model_state \<times> (bool \<times> model_reason) list" where
  "replayLine actions = replay_from initialState actions"

fun transitions_from :: "model_state \<Rightarrow> model_action list \<Rightarrow> model_transition list" where
  "transitions_from s [] = []"
| "transitions_from s (a # as) = transition s a # transitions_from (mt_next (transition s a)) as"

definition canonical :: "model_state \<Rightarrow> nat \<times> js_string option \<times> bool \<times> nat list \<times> int" where
  "canonical s = (ms_now s, ms_holder s, ms_holderAlive s,
     [ms_leaseFence s, ms_expiresAt s, ms_lastFence s, ms_tokens s (js ''a''), ms_tokens s (js ''b''), ms_resourceFence s],
     ms_resourceValue s)"

definition explicitWitnesses :: "model_failure + unit" where
  "explicitWitnesses =
     (let a = js ''a''; b = js ''b'' in
      and_then (step initialState (Acquire a)) (\<lambda>firstGrant.
      and_then (require (mt_accepted firstGrant) (Scenario_invariant 1)) (\<lambda>_.
      and_then (step (mt_next firstGrant) (Write a 1)) (\<lambda>firstWrite.
      and_then (require (mt_accepted firstWrite) (Scenario_invariant 2)) (\<lambda>_.
      and_then (step (mt_next firstWrite) (Crash a)) (\<lambda>crashed.
      and_then (step (mt_next crashed) (Acquire b)) (\<lambda>early.
      and_then (require (\<not> mt_accepted early) (Scenario_invariant 3)) (\<lambda>_.
      and_then (step (mt_next crashed) Tick) (\<lambda>t1.
      and_then (step (mt_next t1) Tick) (\<lambda>t2.
      and_then (step (mt_next t2) (Acquire b)) (\<lambda>successor.
      and_then (require (mt_accepted successor \<and>
         ms_leaseFence (mt_next successor) > ms_leaseFence (mt_next firstGrant)) (Scenario_invariant 4)) (\<lambda>_.
      and_then (step (mt_next successor) (Write a 2)) (\<lambda>stale.
      and_then (require (\<not> mt_accepted stale) (Scenario_invariant 5)) (\<lambda>_.
      and_then (step (mt_next successor) (Write b 2)) (\<lambda>commit.
      and_then (require (mt_accepted commit) (Scenario_invariant 6)) (\<lambda>_.
      and_then (step (mt_next commit) (Write b 2)) (\<lambda>replay.
      and_then (require (mt_accepted replay \<and> canonical (mt_next replay) = canonical (mt_next commit)) (Scenario_invariant 7)) (\<lambda>_.
      and_then (step (mt_next commit) (Write b 1)) (\<lambda>reuse.
      require (\<not> mt_accepted reuse) (Scenario_invariant 8))))))))))))))))))))"

definition allActions :: "model_action list" where
  "allActions = Tick # concat (map (\<lambda>c. [Acquire c, Renew c, Release c, Crash c] @ map (Write c) VALUES) CLIENTS)"

text \<open>The states the exploration visits: it follows accepted transitions only.\<close>

inductive explored :: "model_state \<Rightarrow> bool" where
  explored_initial: "explored initialState"
| explored_step: "explored s \<Longrightarrow> action \<in> set allActions \<Longrightarrow> step s action = Inr t \<Longrightarrow> mt_accepted t \<Longrightarrow>
    explored (mt_next t)"

section \<open>Lemmas\<close>

lemma expire_keeps [simp]:
  "ms_lastFence (expire s) = ms_lastFence s" "ms_resourceFence (expire s) = ms_resourceFence s"
  "ms_resourceValue (expire s) = ms_resourceValue s" "ms_tokens (expire s) = ms_tokens s" "ms_now (expire s) = ms_now s"
  by (simp_all add: expire_def free_lease_def)

lemma expire_assertState: "assertState s \<Longrightarrow> assertState (expire s)"
  by (simp add: expire_def free_lease_def assertState_def)

lemma CLIENTS_iff [simp]: "c \<in> set CLIENTS \<longleftrightarrow> c = js ''a'' \<or> c = js ''b''"
  by (auto simp: CLIENTS_def)

lemma apply_action_assertState:
  assumes "assertState s" and "apply_action s a = (s', acc, r)"
  shows "assertState s'"
proof (cases a)
  case Tick
  show ?thesis
  proof (cases "ms_now s < MAX_TIME")
    case True
    then have "assertState (s\<lparr>ms_now := ms_now s + 1\<rparr>)" using assms(1)
      by (simp add: assertState_def split: option.splits)
    with assms(2) Tick True show ?thesis by (auto intro: expire_assertState)
  next
    case False
    with assms Tick show ?thesis by auto
  qed
next
  case (Acquire c)
  with assms show ?thesis by (auto simp: assertState_def Let_def split: if_splits)
next
  case (Write c v)
  with assms show ?thesis by (auto simp: assertState_def Let_def split: if_splits option.splits)
qed (use assms in \<open>auto simp: assertState_def free_lease_def split: if_splits\<close>)

lemma transition_assertState: "assertState s \<Longrightarrow> assertState (mt_next (transition s a))"
  by (auto simp: transition_def Let_def split: prod.split intro: apply_action_assertState [OF expire_assertState])

lemma transition_assertTransition: "assertState s \<Longrightarrow> assertTransition s (transition s a)"
  by (cases a)
    (auto simp: assertTransition_def assertWrite_def transition_def free_lease_def Let_def split: prod.split if_splits)

lemma initial_assertState: "assertState initialState"
  by (simp add: assertState_def initialState_def)

lemma step_never_fails: "assertState s \<Longrightarrow> step s a = Inr (transition s a)"
  by (simp add: step_def Let_def transition_assertState transition_assertTransition)

subsection \<open>The model as a fenced authority\<close>

definition transition_minted :: "model_transition \<Rightarrow> nat option" where
  "transition_minted t =
     (case mt_action t of Acquire _ \<Rightarrow> if mt_accepted t then Some (ms_leaseFence (mt_next t)) else None | _ \<Rightarrow> None)"

definition transition_confirmed :: "model_transition \<Rightarrow> nat option" where
  "transition_confirmed t =
     (case mt_action t of
        Renew _ \<Rightarrow> if mt_accepted t then Some (ms_leaseFence (mt_before t)) else None
      | Release _ \<Rightarrow> if mt_accepted t then Some (ms_leaseFence (mt_before t)) else None
      | _ \<Rightarrow> None)"

definition model_authority_step :: "model_state \<Rightarrow> model_action \<Rightarrow> model_transition \<times> model_state" where
  "model_authority_step s a = (transition s a, mt_next (transition s a))"

lemma model_authority_step_simps [simp]:
  "fst (model_authority_step s a) = transition s a" "snd (model_authority_step s a) = mt_next (transition s a)"
  by (simp_all add: model_authority_step_def)

interpretation model_authority:
  fenced_authority model_authority_step ms_lastFence transition_minted transition_confirmed assertState
proof
  fix s op t
  assume inv: "assertState s"
  note tr = transition_assertTransition [OF inv, of op]
  show "assertState (snd (model_authority_step s op))"
    by (simp add: transition_assertState inv)
  show "ms_lastFence s \<le> ms_lastFence (snd (model_authority_step s op))"
    using tr by (simp add: assertTransition_def Let_def)
  show "ms_lastFence s < t \<and> ms_lastFence (snd (model_authority_step s op)) = t"
    if "transition_minted (fst (model_authority_step s op)) = Some t"
    using that by (cases op)
      (auto simp: transition_minted_def transition_def Let_def split: if_splits prod.splits)
  show "t = ms_lastFence s" if "transition_confirmed (fst (model_authority_step s op)) = Some t"
    using that expire_assertState [OF inv]
    by (cases op)
      (auto simp: transition_confirmed_def transition_def assertState_def Let_def
        split: if_splits prod.splits option.splits)
qed

lemma replay_from_ok:
  "assertState s \<Longrightarrow> \<exists>outs. replay_from s as = Inr (model_authority.run_authority s as, outs) \<and>
     outs = map (\<lambda>t. (mt_accepted t, mt_reason t)) (model_authority.answers s as)"
proof (induction as arbitrary: s)
  case (Cons a as)
  from Cons.IH [OF transition_assertState [OF Cons.prems, of a]] show ?case
    by (auto simp: step_never_fails [OF Cons.prems])
qed simp

lemma transitions_from_answers: "transitions_from s as = model_authority.answers s as"
  by (induction as arbitrary: s) simp_all

lemma transitions_minted_increasing:
  "sorted_wrt (<) (List.map_filter transition_minted (transitions_from initialState actions))"
  using model_authority.minted_strictly_increasing [OF initial_assertState, of actions]
  by (simp add: transitions_from_answers model_authority.minted_tokens_def)

section \<open>Properties\<close>

text \<open>
  C27: the assertions of the model hold of every state and transition, not only of those within the
  explored bounds of a run: every state the exploration can visit satisfies the state invariant,
  every action in it is executed without an assertion failure, and any recorded action list,
  known actions or not, replays to the end with the minted fences strictly increasing.
\<close>

theorem model_assertions_never_fail:
  "(explored s \<longrightarrow> assertState s \<and> step s action = Inr (transition s action)) \<and>
   (\<exists>final outcomes. replayLine actions = Inr (final, outcomes) \<and> assertState final \<and> length outcomes = length actions) \<and>
   sorted_wrt (<) (List.map_filter transition_minted (transitions_from initialState actions))"
proof -
  have "assertState s" if "explored s"
    using that by induction (auto simp: initial_assertState step_never_fails transition_assertState)
  moreover have "length (model_authority.answers t as) = length as" for t as
    by (induction as arbitrary: t) simp_all
  ultimately show ?thesis
    using replay_from_ok [OF initial_assertState, of actions]
      model_authority.run_invar [OF initial_assertState, of actions]
    by (auto simp: replayLine_def step_never_fails transitions_minted_increasing)
qed

theorem model_assertions_never_fail_witness:
  "step initialState (Acquire (js ''a'')) = Inr (transition initialState (Acquire (js ''a'')))"
  using model_assertions_never_fail [of initialState "Acquire (js ''a'')"] explored_initial by blast

text \<open>
  A write is accepted only from the client that owns the live lease under the newest fence
  ever minted, so a client whose fence has been superseded can never write again, and accepted
  writes never lower the fence of the resource.
\<close>

theorem model_stale_writer_rejected:
  assumes "assertState s" and "mt_accepted (transition s (Write c v))"
  shows "ms_tokens s c = ms_lastFence s \<and> ms_holder (mt_before (transition s (Write c v))) = Some c \<and>
    ms_now s < ms_expiresAt s \<and> ms_resourceFence s \<le> ms_resourceFence (mt_next (transition s (Write c v))) \<and>
    ms_resourceFence (mt_next (transition s (Write c v))) = ms_lastFence s"
  using assms expire_assertState [OF assms(1)]
  by (auto simp: transition_def Let_def isActive_def assertState_def expire_def free_lease_def
      split: if_splits prod.splits option.splits)

theorem model_stale_writer_rejected_witness:
  "let s = mt_next (transition initialState (Acquire (js ''a''))) in
   ms_resourceFence (mt_next (transition s (Write (js ''a'') 1))) = 1"
proof -
  let ?s = "mt_next (transition initialState (Acquire (js ''a'')))"
  have "assertState ?s" by (rule transition_assertState [OF initial_assertState])
  moreover have "mt_accepted (transition ?s (Write (js ''a'') 1))" "ms_lastFence ?s = 1" by code_simp+
  ultimately show ?thesis using model_stale_writer_rejected [of ?s "js ''a''" 1] by simp
qed

text \<open>
  The fixed scenario of the model (crash of the holder, expiry, successor with a newer fence,
  rejection of the stale writer, idempotent retry, rejection of token reuse) runs to its end.
\<close>

theorem model_scenario_passes: "explicitWitnesses = Inr ()"
  by code_simp

end
