(* ===== verification/Maintained_Model.thy ===== *)
theory Maintained_Model
  imports Prelude
begin

text \<open>
  \<open>formal/maintained-model.mjs\<close>: the protocol model of a maintained transaction (acquire, begin, lock,
  work, final renewal, commit or rollback, release), with every failure class and bounded
  numbers of periodic renewals and contention retries. The script enumerates its states; here its
  assertions are proved of all reachable states by induction, its exploration is shown to end,
  and the two existence checks of the script are exhibited as paths.
\<close>

section \<open>Definitions\<close>

definition MAX_PERIODIC_RENEWALS :: nat where "MAX_PERIODIC_RENEWALS = 2"
definition MAX_CONTENTION_RETRIES :: nat where "MAX_CONTENTION_RETRIES = 2"

datatype failure_code =
    Acquire_failed
  | Begin_failed
  | Periodic_renew_failed
  | Periodic_token_changed
  | Lock_failed
  | Lock_timeout
  | Work_failed
  | Final_renew_failed
  | Final_token_changed
  | Commit_failed
  | Rollback_failed
  | Release_failed
  | Release_mismatch

definition CLEANUP_FAILURES :: "failure_code list" where
  "CLEANUP_FAILURES = [Rollback_failed, Release_failed, Release_mismatch]"

datatype model_phase =
    Ph_acquire | Ph_begin | Ph_lock | Ph_work | Ph_final_renew | Ph_commit | Ph_rollback | Ph_release | Ph_done

datatype run_result = Res_success | Res_error

record txn_state =
  tx_phase :: model_phase
  tx_acquired :: bool
  tx_begun :: bool
  tx_locked :: bool
  tx_workCompleted :: bool
  tx_finalRenewAttempted :: bool
  tx_finalRenewed :: bool
  tx_commitAttempted :: bool
  tx_committed :: bool
  tx_rollbackAttempted :: bool
  tx_rolledBack :: bool
  tx_releaseAttempts :: nat
  tx_released :: bool
  tx_authorityLive :: bool
  tx_authorityLost :: bool
  tx_authorityLostBeforeCommit :: bool
  tx_periodicRenewals :: nat
  tx_contentionRetries :: nat
  tx_primaryFailure :: "failure_code option"
  tx_failures :: "failure_code list"
  tx_result :: "run_result option"

definition txn_initial :: txn_state where
  "txn_initial = \<lparr>tx_phase = Ph_acquire, tx_acquired = False, tx_begun = False, tx_locked = False,
     tx_workCompleted = False, tx_finalRenewAttempted = False, tx_finalRenewed = False,
     tx_commitAttempted = False, tx_committed = False, tx_rollbackAttempted = False, tx_rolledBack = False,
     tx_releaseAttempts = 0, tx_released = False, tx_authorityLive = False, tx_authorityLost = False,
     tx_authorityLostBeforeCommit = False, tx_periodicRenewals = 0, tx_contentionRetries = 0,
     tx_primaryFailure = None, tx_failures = [], tx_result = None\<rparr>"

definition recordFailure :: "txn_state \<Rightarrow> failure_code \<Rightarrow> bool \<Rightarrow> txn_state" where
  "recordFailure s code cleanup =
     s\<lparr>tx_failures := tx_failures s @ [code],
       tx_primaryFailure := (if cleanup \<or> tx_primaryFailure s = None then Some code else tx_primaryFailure s)\<rparr>"

definition loseAuthority :: "txn_state \<Rightarrow> failure_code \<Rightarrow> txn_state" where
  "loseAuthority s code =
     recordFailure (s\<lparr>tx_authorityLive := False, tx_authorityLost := True,
       tx_authorityLostBeforeCommit := (\<not> tx_commitAttempted s \<and> \<not> tx_committed s)\<rparr>) code False"

definition periodic_success :: "txn_state \<Rightarrow> (string \<times> txn_state) list" where
  "periodic_success s =
     (if tx_periodicRenewals s < MAX_PERIODIC_RENEWALS
      then [(''periodic_renew.success'', s\<lparr>tx_periodicRenewals := tx_periodicRenewals s + 1\<rparr>)] else [])"

definition periodic_loss :: "txn_state \<Rightarrow> model_phase \<Rightarrow> (string \<times> txn_state) list" where
  "periodic_loss s ph =
     [(''periodic_renew.failure'', (loseAuthority s Periodic_renew_failed)\<lparr>tx_phase := ph\<rparr>),
      (''periodic_renew.token_drift'', (loseAuthority s Periodic_token_changed)\<lparr>tx_phase := ph\<rparr>)]"

definition successors :: "bool \<Rightarrow> txn_state \<Rightarrow> (string \<times> txn_state) list" where
  "successors requireFinalRenewal s =
     (case tx_phase s of
        Ph_acquire \<Rightarrow>
          [(''acquire.success'', s\<lparr>tx_phase := Ph_begin, tx_acquired := True, tx_authorityLive := True\<rparr>),
           (''acquire.failure'',
             recordFailure (s\<lparr>tx_phase := Ph_done, tx_result := Some Res_error\<rparr>) Acquire_failed False)]
      | Ph_begin \<Rightarrow>
          [(''pg.begin.success'', s\<lparr>tx_phase := Ph_lock, tx_begun := True\<rparr>),
           (''pg.begin.failure'', recordFailure (s\<lparr>tx_phase := Ph_release\<rparr>) Begin_failed False)]
          @ periodic_loss s Ph_release @ periodic_success s
      | Ph_lock \<Rightarrow>
          [(''pg.lock.success'', s\<lparr>tx_phase := Ph_work, tx_locked := True\<rparr>),
           (''pg.lock.database_failure'', recordFailure (s\<lparr>tx_phase := Ph_rollback\<rparr>) Lock_failed False),
           (''pg.lock.timeout'', recordFailure (s\<lparr>tx_phase := Ph_rollback\<rparr>) Lock_timeout False)]
          @ periodic_loss s Ph_rollback
          @ (if tx_contentionRetries s < MAX_CONTENTION_RETRIES
             then [(''pg.lock.contention_retry'', s\<lparr>tx_contentionRetries := tx_contentionRetries s + 1\<rparr>)] else [])
          @ periodic_success s
      | Ph_work \<Rightarrow>
          [(''work.success'',
             s\<lparr>tx_phase := (if requireFinalRenewal then Ph_final_renew else Ph_commit), tx_workCompleted := True\<rparr>),
           (''work.failure'', recordFailure (s\<lparr>tx_phase := Ph_rollback\<rparr>) Work_failed False)]
          @ periodic_loss s Ph_rollback @ periodic_success s
      | Ph_final_renew \<Rightarrow>
          [(''final_renew.success'',
             s\<lparr>tx_phase := Ph_commit, tx_finalRenewAttempted := True, tx_finalRenewed := True\<rparr>),
           (''final_renew.failure'',
             (loseAuthority (s\<lparr>tx_finalRenewAttempted := True\<rparr>) Final_renew_failed)\<lparr>tx_phase := Ph_rollback\<rparr>),
           (''final_renew.token_drift'',
             (loseAuthority (s\<lparr>tx_finalRenewAttempted := True\<rparr>) Final_token_changed)\<lparr>tx_phase := Ph_rollback\<rparr>)]
      | Ph_commit \<Rightarrow>
          [(''pg.commit.success'', s\<lparr>tx_phase := Ph_release, tx_commitAttempted := True, tx_committed := True\<rparr>),
           (''pg.commit.failure'',
             recordFailure (s\<lparr>tx_phase := Ph_release, tx_commitAttempted := True\<rparr>) Commit_failed False)]
      | Ph_rollback \<Rightarrow>
          [(''pg.rollback.success'', s\<lparr>tx_phase := Ph_release, tx_rollbackAttempted := True, tx_rolledBack := True\<rparr>),
           (''pg.rollback.failure'',
             recordFailure (s\<lparr>tx_phase := Ph_release, tx_rollbackAttempted := True\<rparr>) Rollback_failed True)]
      | Ph_release \<Rightarrow>
          [(''fiducia.release.success'',
             s\<lparr>tx_phase := Ph_done, tx_releaseAttempts := tx_releaseAttempts s + 1, tx_released := True,
               tx_authorityLive := False,
               tx_result := Some (if tx_primaryFailure s = None \<and> tx_committed s then Res_success else Res_error)\<rparr>),
           (''fiducia.release.mismatch'',
             recordFailure (s\<lparr>tx_phase := Ph_done, tx_releaseAttempts := tx_releaseAttempts s + 1,
               tx_authorityLive := False, tx_authorityLost := True, tx_result := Some Res_error\<rparr>) Release_mismatch True),
           (''fiducia.release.failure'',
             recordFailure (s\<lparr>tx_phase := Ph_done, tx_releaseAttempts := tx_releaseAttempts s + 1,
               tx_authorityLive := False, tx_result := Some Res_error\<rparr>) Release_failed True)]
      | Ph_done \<Rightarrow> [])"

definition txn_assertState :: "bool \<Rightarrow> txn_state \<Rightarrow> bool" where
  "txn_assertState requireFinalRenewal s =
     ((tx_committed s \<longrightarrow>
        (tx_acquired s \<and> tx_begun s \<and> tx_locked s \<and> tx_workCompleted s) \<and>
        (requireFinalRenewal \<longrightarrow> tx_finalRenewAttempted s \<and> tx_finalRenewed s) \<and>
        \<not> tx_authorityLostBeforeCommit s) \<and>
      \<not> (tx_commitAttempted s \<and> tx_rollbackAttempted s) \<and>
      (tx_rolledBack s \<longrightarrow> tx_rollbackAttempted s) \<and>
      tx_releaseAttempts s \<le> 1 \<and>
      (\<not> tx_acquired s \<longrightarrow> tx_releaseAttempts s = 0) \<and>
      (tx_phase s = Ph_done \<and> tx_acquired s \<longrightarrow> tx_releaseAttempts s = 1) \<and>
      (tx_result s = Some Res_success \<longrightarrow> tx_committed s \<and> tx_released s \<and> tx_primaryFailure s = None) \<and>
      \<not> (tx_authorityLost s \<and> tx_authorityLive s) \<and>
      (case tx_primaryFailure s of None \<Rightarrow> True | Some f \<Rightarrow> f \<in> set (tx_failures s)) \<and>
      (let cleanupFailures = filter (\<lambda>c. c \<in> set CLEANUP_FAILURES) (tx_failures s)
       in cleanupFailures \<noteq> [] \<longrightarrow> tx_primaryFailure s = Some (last cleanupFailures)))"

text \<open>The edges of the exploration, and a walk along named edges.\<close>

definition txn_step :: "bool \<Rightarrow> txn_state \<Rightarrow> txn_state \<Rightarrow> bool" where
  "txn_step requireFinalRenewal s t = (t \<in> set (map snd (successors requireFinalRenewal s)))"

fun follow :: "bool \<Rightarrow> string list \<Rightarrow> txn_state \<Rightarrow> txn_state option" where
  "follow req [] s = Some s"
| "follow req (n # ns) s = (case map_of (successors req s) n of None \<Rightarrow> None | Some t \<Rightarrow> follow req ns t)"

text \<open>What each phase of a reachable state looks like.\<close>

definition untouched :: "txn_state \<Rightarrow> bool" where
  "untouched s =
     (tx_failures s = [] \<and> tx_primaryFailure s = None \<and> \<not> tx_authorityLost s \<and> \<not> tx_authorityLostBeforeCommit s \<and>
      \<not> tx_rollbackAttempted s \<and> \<not> tx_rolledBack s \<and> tx_releaseAttempts s = 0 \<and> \<not> tx_released s \<and>
      \<not> tx_committed s \<and> \<not> tx_commitAttempted s \<and> tx_result s = None)"

definition failed_once :: "txn_state \<Rightarrow> bool" where
  "failed_once s =
     (\<exists>f. tx_failures s = [f] \<and> f \<notin> set CLEANUP_FAILURES \<and> tx_primaryFailure s = Some f)"

definition rollback_ready :: "txn_state \<Rightarrow> bool" where
  "rollback_ready s =
     (failed_once s \<and> tx_acquired s \<and> \<not> (tx_authorityLost s \<and> tx_authorityLive s) \<and>
      \<not> tx_rollbackAttempted s \<and> \<not> tx_rolledBack s \<and> tx_releaseAttempts s = 0 \<and> \<not> tx_released s \<and>
      \<not> tx_committed s \<and> \<not> tx_commitAttempted s \<and> tx_result s = None)"

definition commit_earned :: "bool \<Rightarrow> txn_state \<Rightarrow> bool" where
  "commit_earned req s =
     (tx_acquired s \<and> tx_begun s \<and> tx_locked s \<and> tx_workCompleted s \<and>
      (req \<longrightarrow> tx_finalRenewAttempted s \<and> tx_finalRenewed s))"

definition release_ready :: "bool \<Rightarrow> txn_state \<Rightarrow> bool" where
  "release_ready req s =
     (tx_acquired s \<and> tx_releaseAttempts s = 0 \<and> \<not> tx_released s \<and> tx_result s = None \<and>
      \<not> (tx_authorityLost s \<and> tx_authorityLive s) \<and> \<not> (tx_commitAttempted s \<and> tx_rollbackAttempted s) \<and>
      (tx_rolledBack s \<longrightarrow> tx_rollbackAttempted s) \<and>
      (if tx_committed s
       then commit_earned req s \<and> \<not> tx_authorityLostBeforeCommit s \<and> tx_failures s = [] \<and> tx_primaryFailure s = None
       else tx_failures s \<noteq> [] \<and> tx_primaryFailure s = Some (last (tx_failures s)) \<and>
            set (butlast (tx_failures s)) \<inter> set CLEANUP_FAILURES = {}))"

definition phase_invar :: "bool \<Rightarrow> txn_state \<Rightarrow> bool" where
  "phase_invar req s =
     (case tx_phase s of
        Ph_acquire \<Rightarrow> untouched s \<and> \<not> tx_acquired s \<and> \<not> tx_authorityLive s
      | Ph_begin \<Rightarrow> untouched s \<and> tx_acquired s
      | Ph_lock \<Rightarrow> untouched s \<and> tx_acquired s \<and> tx_begun s
      | Ph_work \<Rightarrow> untouched s \<and> tx_acquired s \<and> tx_begun s \<and> tx_locked s
      | Ph_final_renew \<Rightarrow> untouched s \<and> tx_acquired s \<and> tx_begun s \<and> tx_locked s \<and> tx_workCompleted s
      | Ph_commit \<Rightarrow> untouched s \<and> commit_earned req s
      | Ph_rollback \<Rightarrow> rollback_ready s
      | Ph_release \<Rightarrow> release_ready req s
      | Ph_done \<Rightarrow> txn_assertState req s)"

definition phase_rank :: "model_phase \<Rightarrow> nat" where
  "phase_rank ph =
     (case ph of Ph_acquire \<Rightarrow> 7 | Ph_begin \<Rightarrow> 6 | Ph_lock \<Rightarrow> 5 | Ph_work \<Rightarrow> 4 | Ph_final_renew \<Rightarrow> 3
      | Ph_commit \<Rightarrow> 2 | Ph_rollback \<Rightarrow> 2 | Ph_release \<Rightarrow> 1 | Ph_done \<Rightarrow> 0)"

definition txn_measure :: "txn_state \<Rightarrow> nat" where
  "txn_measure s = phase_rank (tx_phase s) + (MAX_PERIODIC_RENEWALS - tx_periodicRenewals s) +
     (MAX_CONTENTION_RETRIES - tx_contentionRetries s)"

section \<open>Lemmas\<close>

lemmas txn_invars = untouched_def failed_once_def rollback_ready_def commit_earned_def release_ready_def

lemma phase_invar_assertState:
  assumes "phase_invar req s"
  shows "txn_assertState req s"
proof (cases "tx_phase s = Ph_release")
  case True
  have "filter P xs = (if P (last xs) then [last xs] else [])"
    if "xs \<noteq> []" "set (butlast xs) \<inter> Collect P = {}" for P and xs :: "failure_code list"
  proof -
    have "filter P (butlast xs @ [last xs]) = (if P (last xs) then [last xs] else [])"
      using that(2) by (auto simp: filter_empty_conv)
    with that(1) show ?thesis by simp
  qed
  from this [of "tx_failures s" "\<lambda>c. c \<in> set CLEANUP_FAILURES"] assms True show ?thesis
    by (auto simp: phase_invar_def txn_assertState_def release_ready_def commit_earned_def Let_def split: if_splits)
next
  case False
  with assms show ?thesis
    by (cases "tx_phase s") (auto simp: phase_invar_def txn_assertState_def txn_invars Let_def)
qed

lemmas txn_edges = txn_step_def successors_def periodic_success_def periodic_loss_def loseAuthority_def recordFailure_def

lemma early_phase_edges:
  assumes "phase_invar req s" and "tx_phase s \<in> {Ph_acquire, Ph_begin, Ph_lock, Ph_work, Ph_final_renew, Ph_commit}"
  shows "list_all (\<lambda>p. phase_invar req (snd p)) (successors req s)"
  using assms
  by (cases "tx_phase s")
    (simp_all add: successors_def periodic_success_def periodic_loss_def loseAuthority_def recordFailure_def
      phase_invar_def txn_invars txn_assertState_def CLEANUP_FAILURES_def)

lemma rollback_edges:
  assumes "phase_invar req s" and "tx_phase s = Ph_rollback"
  shows "list_all (\<lambda>p. phase_invar req (snd p)) (successors req s)"
proof -
  from assms obtain f where "tx_failures s = [f]" "f \<notin> set CLEANUP_FAILURES" "tx_primaryFailure s = Some f"
    by (auto simp: phase_invar_def rollback_ready_def failed_once_def)
  with assms show ?thesis
    by (simp add: successors_def recordFailure_def phase_invar_def rollback_ready_def release_ready_def)
qed

lemma release_edges:
  assumes "phase_invar req s" and "tx_phase s = Ph_release"
  shows "list_all (\<lambda>p. phase_invar req (snd p)) (successors req s)"
proof -
  have st: "txn_assertState req s" by (rule phase_invar_assertState [OF assms(1)])
  have r: "release_ready req s" using assms by (simp add: phase_invar_def)
  have "txn_assertState req (recordFailure (s\<lparr>tx_phase := Ph_done, tx_releaseAttempts := 1, tx_authorityLive := False,
      tx_authorityLost := lost, tx_result := Some Res_error\<rparr>) code True)" if "code \<in> set CLEANUP_FAILURES" for code lost
    using st r that by (simp add: txn_assertState_def release_ready_def recordFailure_def Let_def)
  from this [of Release_mismatch True] this [of Release_failed "tx_authorityLost s"]
  have a: "txn_assertState req (recordFailure (s\<lparr>tx_phase := Ph_done, tx_releaseAttempts := 1,
      tx_authorityLive := False, tx_authorityLost := True, tx_result := Some Res_error\<rparr>) Release_mismatch True)"
    "txn_assertState req (recordFailure (s\<lparr>tx_phase := Ph_done, tx_releaseAttempts := 1,
      tx_authorityLive := False, tx_result := Some Res_error\<rparr>) Release_failed True)"
    by (simp_all add: CLEANUP_FAILURES_def)
  have b: "txn_assertState req (s\<lparr>tx_phase := Ph_done, tx_releaseAttempts := 1, tx_released := True,
       tx_authorityLive := False,
       tx_result := Some (if tx_primaryFailure s = None \<and> tx_committed s then Res_success else Res_error)\<rparr>)"
    using st r by (cases "tx_primaryFailure s") (simp_all add: txn_assertState_def release_ready_def Let_def)
  have "tx_releaseAttempts s = 0" using r by (simp add: release_ready_def)
  then show ?thesis
    using a b by (simp add: successors_def assms(2) phase_invar_def recordFailure_def)
qed

lemma txn_step_phase_invar:
  assumes "phase_invar req s" and "txn_step req s t"
  shows "phase_invar req t"
proof -
  have "list_all (\<lambda>p. phase_invar req (snd p)) (successors req s)"
    using early_phase_edges [OF assms(1)] rollback_edges [OF assms(1)] release_edges [OF assms(1)]
    by (cases "tx_phase s") (simp_all add: successors_def)
  with assms(2) show ?thesis by (auto simp: txn_step_def list_all_iff)
qed

lemma txn_reachable_invar:
  assumes "reachable_from (txn_step req) txn_initial s"
  shows "phase_invar req s"
proof (rule reachable_invariant [OF assms, where I = "phase_invar req"])
  show "phase_invar req txn_initial" by (simp add: phase_invar_def untouched_def txn_initial_def)
qed (rule txn_step_phase_invar)

lemma txn_step_measure: "txn_step req s t \<Longrightarrow> txn_measure t < txn_measure s"
  by (cases "tx_phase s") (auto simp: txn_edges txn_measure_def phase_rank_def split: if_splits)

lemma follow_reachable: "follow req ns s = Some t \<Longrightarrow> reachable_from (txn_step req) s t"
proof (induction ns arbitrary: s)
  case (Cons n ns)
  then obtain u where u: "map_of (successors req s) n = Some u" "follow req ns u = Some t"
    by (auto split: option.splits)
  then have "txn_step req s u" by (force simp: txn_step_def dest: map_of_SomeD)
  then have "reachable_from (txn_step req) s u" by (rule reachable_from.there [OF reachable_from.here])
  with Cons.IH [OF u(2)] show ?case by (rule reachable_trans)
qed (simp add: reachable_from.here)

text \<open>A complete path of the production model for each failure class.\<close>

definition failure_path :: "failure_code \<Rightarrow> string list" where
  "failure_path f =
     (let rel = [''fiducia.release.success''];
          rb = [''pg.rollback.success''] @ rel;
          toLock = [''acquire.success'', ''pg.begin.success''];
          toWork = toLock @ [''pg.lock.success''];
          toFinal = toWork @ [''work.success''];
          toCommit = toFinal @ [''final_renew.success'']
      in case f of
           Acquire_failed \<Rightarrow> [''acquire.failure'']
         | Begin_failed \<Rightarrow> [''acquire.success'', ''pg.begin.failure''] @ rel
         | Periodic_renew_failed \<Rightarrow> toWork @ [''periodic_renew.failure''] @ rb
         | Periodic_token_changed \<Rightarrow> toWork @ [''periodic_renew.token_drift''] @ rb
         | Lock_failed \<Rightarrow> toLock @ [''pg.lock.database_failure''] @ rb
         | Lock_timeout \<Rightarrow> toLock @ [''pg.lock.timeout''] @ rb
         | Work_failed \<Rightarrow> toWork @ [''work.failure''] @ rb
         | Final_renew_failed \<Rightarrow> toFinal @ [''final_renew.failure''] @ rb
         | Final_token_changed \<Rightarrow> toFinal @ [''final_renew.token_drift''] @ rb
         | Commit_failed \<Rightarrow> toCommit @ [''pg.commit.failure''] @ rel
         | Rollback_failed \<Rightarrow> toWork @ [''work.failure'', ''pg.rollback.failure''] @ rel
         | Release_failed \<Rightarrow> toCommit @ [''pg.commit.success'', ''fiducia.release.failure'']
         | Release_mismatch \<Rightarrow> toCommit @ [''pg.commit.success'', ''fiducia.release.mismatch''])"

lemma failure_path_ends:
  "map_option (\<lambda>u. (f \<in> set (tx_failures u), tx_phase u)) (follow True (failure_path f) txn_initial) =
     Some (True, Ph_done)"
  by (cases f; hypsubst; code_simp)

lemma failure_reachable:
  "\<exists>u. reachable_from (txn_step True) txn_initial u \<and> tx_phase u = Ph_done \<and> f \<in> set (tx_failures u)"
  using failure_path_ends [of f] follow_reachable by force

section \<open>Properties\<close>

text \<open>
  C28: every state the maintained-transaction model can reach satisfies all of its assertions, with
  and without the mandatory final renewal: a commit needs acquisition, begin, lock, work and (when
  mandatory) the final renewal and never follows a loss of authority; commit and rollback exclude
  each other; an acquired path releases exactly once; success means committed, released and
  clean; and a cleanup failure stays primary.
\<close>

theorem maintained_model_assertions:
  assumes "reachable_from (txn_step requireFinalRenewal) txn_initial s"
  shows "txn_assertState requireFinalRenewal s \<and>
    (requireFinalRenewal \<and> tx_result s = Some Res_success \<longrightarrow> tx_finalRenewAttempted s \<and> tx_finalRenewed s)"
  using phase_invar_assertState [OF txn_reachable_invar [OF assms]]
  by (auto simp: txn_assertState_def)

definition success_path :: "string list" where
  "success_path = [''acquire.success'', ''pg.begin.success'', ''pg.lock.contention_retry'', ''pg.lock.success'',
     ''periodic_renew.success'', ''work.success'', ''final_renew.success'', ''pg.commit.success'',
     ''fiducia.release.success'']"

theorem maintained_model_assertions_witness:
  "\<exists>s. follow True success_path txn_initial = Some s \<and> tx_result s = Some Res_success \<and> tx_finalRenewed s"
proof -
  have "map_option tx_result (follow True success_path txn_initial) = Some (Some Res_success)" by code_simp
  then obtain s where s: "follow True success_path txn_initial = Some s" "tx_result s = Some Res_success" by auto
  from maintained_model_assertions [OF follow_reachable [OF s(1)]] s show ?thesis by blast
qed

text \<open>
  The exploration of the model ends and covers what the script checks: every edge strictly
  decreases a measure that starts at 11, only finished states have no successor, and without the
  mandatory final renewal there is a path that commits and succeeds unrenewed (the negative
  control), while each failure class has a path in the production model.
\<close>

theorem maintained_model_explores:
  "(txn_step req s t \<longrightarrow> txn_measure t < txn_measure s) \<and> txn_measure txn_initial = 11 \<and>
   (successors req s = [] \<longleftrightarrow> tx_phase s = Ph_done) \<and>
   (\<exists>u. reachable_from (txn_step False) txn_initial u \<and> tx_result u = Some Res_success \<and> tx_committed u \<and>
      \<not> tx_finalRenewAttempted u \<and> \<not> tx_finalRenewed u) \<and>
   (\<exists>u. reachable_from (txn_step True) txn_initial u \<and> tx_phase u = Ph_done \<and> f \<in> set (tx_failures u))"
proof -
  define ns where "ns = [''acquire.success'', ''pg.begin.success'', ''pg.lock.success'', ''work.success'',
     ''pg.commit.success'', ''fiducia.release.success'']"
  have "map_option (\<lambda>u. (tx_result u, tx_committed u, tx_finalRenewAttempted u, tx_finalRenewed u))
      (follow False ns txn_initial) = Some (Some Res_success, True, False, False)"
    unfolding ns_def by code_simp
  then obtain u where "follow False ns txn_initial = Some u" "tx_result u = Some Res_success" "tx_committed u"
      "\<not> tx_finalRenewAttempted u" "\<not> tx_finalRenewed u" by auto
  then have "\<exists>u. reachable_from (txn_step False) txn_initial u \<and> tx_result u = Some Res_success \<and> tx_committed u \<and>
      \<not> tx_finalRenewAttempted u \<and> \<not> tx_finalRenewed u" using follow_reachable by blast
  moreover have "txn_measure txn_initial = 11" by code_simp
  moreover have "successors req s = [] \<longleftrightarrow> tx_phase s = Ph_done"
    by (cases "tx_phase s") (simp_all add: successors_def)
  ultimately show ?thesis using txn_step_measure failure_reachable by blast
qed

theorem maintained_model_explores_witness:
  "txn_measure (snd (hd (successors True txn_initial))) < txn_measure txn_initial"
proof -
  have "txn_step True txn_initial (snd (hd (successors True txn_initial)))"
    by (simp add: txn_step_def successors_def txn_initial_def)
  with maintained_model_explores show ?thesis by blast
qed

end
