(* ===== verification/Maintained.thy ===== *)
theory Maintained
  imports Pg Renewal
begin

text \<open>
  \<open>src/ts/src/maintained.ts\<close>: a transaction under an advisory lock while a background task renews
  the outer lease. The background task of \<open>LeaseMaintainer\<close> runs whenever the main flow awaits; a
  schedule (two numbers per await, before and after the effect of the awaited call) says how many
  renewals it completes there, so a theorem about
  every schedule is about every interleaving of completed renewals with the calls of the main
  flow. Options and grants arrive as untrusted values. The wait for the advisory lock is a loop
  with fuel; \<open>None\<close> is a run that is still waiting when the fuel is used up. Causes of
  validation errors are not kept.
\<close>

section \<open>Definitions\<close>

subsection \<open>Inputs\<close>

definition ACQUIRE_FIELDS :: "js_string list" where
  "ACQUIRE_FIELDS = map js [''ttlMs'', ''waitTimeoutMs'', ''retryIntervalMs'', ''holder'']"

definition MAINTENANCE_FIELDS :: "js_string list" where
  "MAINTENANCE_FIELDS = map js [''renewIntervalMs'']"

record validated_inputs =
  vi_ttlMs :: int
  vi_waitTimeoutMs :: int
  vi_retryIntervalMs :: int
  vi_holder :: "js_string option"
  vi_renewIntervalMs :: int

fun closed_properties :: "js_string list \<Rightarrow> (prop_key \<times> js_value js_prop) list \<Rightarrow> js_fields \<Rightarrow> js_fields option" where
  "closed_properties allowed [] acc = Some acc"
| "closed_properties allowed ((PSymbol _, _) # ps) acc = None"
| "closed_properties allowed ((PName name, descriptor) # ps) acc =
     (if name \<notin> set allowed then None
      else case descriptor of
             Accessor_prop \<Rightarrow> None
           | Data_prop v \<Rightarrow> closed_properties allowed ps (acc @ [(name, v)]))"

definition closed_fields :: "js_value \<Rightarrow> js_string list \<Rightarrow> string list \<Rightarrow> js_fields option" where
  "closed_fields v allowed required =
     (case v of
        JObject ps \<Rightarrow>
          (case closed_properties allowed ps [] of
             None \<Rightarrow> None
           | Some found \<Rightarrow> if list_all (has_own found) required then Some found else None)
      | _ \<Rightarrow> None)"

definition closedInputFields :: "js_string \<Rightarrow> js_value \<Rightarrow> js_string list \<Rightarrow> string list \<Rightarrow> thrown + js_fields" where
  "closedInputFields key v allowed required =
     (case closed_fields v allowed required of None \<Rightarrow> Inl (invalidPlan key) | Some found \<Rightarrow> Inr found)"

definition snapshotAcquireOptions :: "js_string \<Rightarrow> js_value \<Rightarrow> thrown + js_fields" where
  "snapshotAcquireOptions key v =
     and_then (closedInputFields key v ACQUIRE_FIELDS [''ttlMs'', ''waitTimeoutMs'', ''retryIntervalMs'']) (\<lambda>found.
     and_then (require (\<not> (has_own found ''holder'' \<and>
         (case field found ''holder'' of JString s \<Rightarrow> length s = 0 | _ \<Rightarrow> True))) (invalidPlan key)) (\<lambda>_.
     Inr found))"

definition snapshotMaintenanceOptions :: "js_string \<Rightarrow> js_value \<Rightarrow> thrown + js_value" where
  "snapshotMaintenanceOptions key v =
     and_then (closedInputFields key v MAINTENANCE_FIELDS [''renewIntervalMs'']) (\<lambda>found.
     Inr (field found ''renewIntervalMs''))"

definition safe_integer_value :: "js_value \<Rightarrow> int option" where
  "safe_integer_value v = (case v of JNumber n \<Rightarrow> if is_safe_integer n then Some (int_of_number n) else None | _ \<Rightarrow> None)"

definition requirePositiveInteger :: "js_string \<Rightarrow> js_value \<Rightarrow> thrown + int" where
  "requirePositiveInteger key v =
     (case safe_integer_value v of
        None \<Rightarrow> Inl (invalidPlan key)
      | Some i \<Rightarrow> if i \<le> 0 then Inl (invalidPlan key) else Inr i)"

definition requireNonNegativeInteger :: "js_string \<Rightarrow> js_value \<Rightarrow> thrown + int" where
  "requireNonNegativeInteger key v =
     (case safe_integer_value v of
        None \<Rightarrow> Inl (invalidPlan key)
      | Some i \<Rightarrow> if i < 0 then Inl (invalidPlan key) else Inr i)"

definition holder_option :: "js_fields \<Rightarrow> js_string option" where
  "holder_option found = (case field found ''holder'' of JString s \<Rightarrow> Some s | _ \<Rightarrow> None)"

definition validatedInputs :: "js_string \<Rightarrow> js_value \<Rightarrow> js_value \<Rightarrow> js_value \<Rightarrow> thrown + validated_inputs" where
  "validatedInputs key acquire maintenance wait =
     and_then (require (case wait of JBool _ \<Rightarrow> True | _ \<Rightarrow> False) (invalidPlan key)) (\<lambda>_.
     and_then (snapshotAcquireOptions key acquire) (\<lambda>acq.
     and_then (snapshotMaintenanceOptions key maintenance) (\<lambda>interval.
     and_then (requirePositiveInteger key (field acq ''ttlMs'')) (\<lambda>ttlMs.
     and_then (require (\<not> ttlMs > MAX_RENEWAL_TTL_MS) (invalidPlan key)) (\<lambda>_.
     and_then (requirePositiveInteger key interval) (\<lambda>renewIntervalMs.
     and_then (require (\<not> 2 * renewIntervalMs > ttlMs) (invalidPlan key)) (\<lambda>_.
     and_then (requireNonNegativeInteger key (field acq ''waitTimeoutMs'')) (\<lambda>waitTimeoutMs.
     and_then (requireNonNegativeInteger key (field acq ''retryIntervalMs'')) (\<lambda>retryIntervalMs.
     and_then (if wait = JBool True then requirePositiveInteger key (field acq ''retryIntervalMs'')
               else Inr retryIntervalMs) (\<lambda>_.
     Inr \<lparr>vi_ttlMs = ttlMs, vi_waitTimeoutMs = waitTimeoutMs, vi_retryIntervalMs = retryIntervalMs,
          vi_holder = holder_option acq, vi_renewIntervalMs = renewIntervalMs\<rparr>))))))))))"

definition validateLeaseMaintenanceOptions :: "js_string \<Rightarrow> js_value \<Rightarrow> js_value \<Rightarrow> js_value \<Rightarrow> thrown + unit" where
  "validateLeaseMaintenanceOptions key acquire maintenance wait =
     and_then (validatedInputs key acquire maintenance wait) (\<lambda>_. Inr ())"

text \<open>The frozen options as they are handed to the lease authority.\<close>

definition inputs_options :: "validated_inputs \<Rightarrow> acquire_options" where
  "inputs_options vi = \<lparr>ao_ttlMs = NInt (vi_ttlMs vi), ao_waitTimeoutMs = NInt (vi_waitTimeoutMs vi),
     ao_retryIntervalMs = NInt (vi_retryIntervalMs vi), ao_holder = vi_holder vi, ao_requestId = None\<rparr>"

subsection \<open>Grants\<close>

definition authorityGrantError :: "js_string \<Rightarrow> lock_step \<Rightarrow> lock_error_kind \<Rightarrow> thrown" where
  "authorityGrantError key step kind = Thrown_lock (LockError kind key (Some step) No_cause)"

definition snapshotAuthorityGrant :: "js_string \<Rightarrow> js_value \<Rightarrow> lock_step \<Rightarrow> lock_error_kind \<Rightarrow> thrown + lease_grant" where
  "snapshotAuthorityGrant expectedKey v step kind =
     (let err = authorityGrantError expectedKey step kind in
      case closed_fields v GRANT_FIELDS [''key'', ''holder'', ''fencingToken'', ''ttlMs''] of
        None \<Rightarrow> Inl err
      | Some found \<Rightarrow>
          and_then (catch_map (\<lambda>_. err) (lockKey (field found ''key''))) (\<lambda>key.
          and_then (require (key = expectedKey) err) (\<lambda>_.
          and_then (catch_map (\<lambda>_. err) (grant_holder (field found ''holder''))) (\<lambda>holder.
          and_then (catch_map (\<lambda>_. err) (grant_token (field found ''fencingToken''))) (\<lambda>fencingToken.
          and_then (catch_map (\<lambda>_. err) (grant_ttl (field found ''ttlMs''))) (\<lambda>ttlMs.
          and_then (if has_own found ''leaseExpiresMs''
                    then and_then (require (field found ''leaseExpiresMs'' \<noteq> JUndefined) err) (\<lambda>_.
                         catch_map (\<lambda>_. err) (validateAuthorityDeadline (field found ''leaseExpiresMs'')))
                    else Inr None) (\<lambda>leaseExpiresMs.
          Inr \<lparr>lg_key = key, lg_holder = holder, lg_fencingToken = fencingToken,
               lg_leaseExpiresMs = leaseExpiresMs, lg_ttlMs = ttlMs\<rparr>)))))))"

definition validateMaintainedAcquiredGrant :: "js_string \<Rightarrow> validated_inputs \<Rightarrow> lease_grant \<Rightarrow> lock_step \<Rightarrow> thrown + unit" where
  "validateMaintainedAcquiredGrant key acquire grant step =
     require (\<not> ((vi_holder acquire \<noteq> None \<and> Some (lg_holder grant) \<noteq> vi_holder acquire) \<or> lg_ttlMs grant \<noteq> vi_ttlMs acquire))
       (lost_lease key (Some step))"

definition renewalError :: "js_string \<Rightarrow> thrown \<Rightarrow> thrown" where
  "renewalError key c = tagStep (case c of Thrown_lock _ \<Rightarrow> c | _ \<Rightarrow> transport key c None) Fiducia_renew"

definition checked_renewal :: "lease_grant \<Rightarrow> int \<Rightarrow> js_value \<Rightarrow> thrown + lease_grant" where
  "checked_renewal original ttlMs raw =
     and_then (snapshotAuthorityGrant (lg_key original) raw Fiducia_renew Lost_lease) (\<lambda>renewed.
     and_then (require (\<not> (lg_holder renewed \<noteq> lg_holder original \<or> lg_fencingToken renewed \<noteq> lg_fencingToken original \<or>
                          lg_ttlMs renewed \<noteq> ttlMs)) (lost_lease (lg_key original) (Some Fiducia_renew))) (\<lambda>_.
     Inr renewed))"

definition renewChecked :: "('w, js_value) lease \<Rightarrow> lease_grant \<Rightarrow> int \<Rightarrow> ('w lock_env, thrown, lease_grant) action" where
  "renewChecked lease original ttlMs =
     bind_st (catch_st (perform (Ev_step Fiducia_renew) (lease_renew lease (grant_object original) ttlMs))
                (\<lambda>c. throw_st (renewalError (lg_key original) c))) (\<lambda>raw.
     lift_st (checked_renewal original ttlMs raw))"

subsection \<open>The background task\<close>

record 'w maintained =
  mn_env :: "'w lock_env"
  mn_schedule :: "nat list"
  mn_failure :: "thrown option"
  mn_stopped :: bool

record 'w maintainer =
  ma_lease :: "('w, js_value) lease"
  ma_grant :: lease_grant
  ma_ttlMs :: int

fun run_renewals :: "'w maintainer \<Rightarrow> nat \<Rightarrow> 'w maintained \<Rightarrow> 'w maintained" where
  "run_renewals ma 0 m = m"
| "run_renewals ma (Suc n) m =
     (if mn_failure m \<noteq> None \<or> mn_stopped m then m
      else case renewChecked (ma_lease ma) (ma_grant ma) (ma_ttlMs ma) (mn_env m) of
             (Inl c, e) \<Rightarrow> m\<lparr>mn_env := e, mn_failure := Some (renewalError (lg_key (ma_grant ma)) c)\<rparr>
           | (Inr _, e) \<Rightarrow> run_renewals ma n (m\<lparr>mn_env := e\<rparr>))"

text \<open>
  The renewals the background task completes at one point of the schedule. An await of the main
  flow has two: before the effect of the awaited call and after it.
\<close>

definition interleave :: "'w maintainer \<Rightarrow> 'w maintained \<Rightarrow> 'w maintained" where
  "interleave ma m = (case mn_schedule m of [] \<Rightarrow> m | n # ns \<Rightarrow> run_renewals ma n (m\<lparr>mn_schedule := ns\<rparr>))"

definition awaiting :: "'w maintainer \<Rightarrow> ('w lock_env, thrown, 'a) action \<Rightarrow> ('w maintained, thrown, 'a) action" where
  "awaiting ma act = (\<lambda>m.
     let m1 = interleave ma m
     in case act (mn_env m1) of (r, e) \<Rightarrow> (r, interleave ma (m1\<lparr>mn_env := e\<rparr>)))"

text \<open>\<open>stop()\<close> ends the task; a renewal that is in flight is awaited first.\<close>

definition stop :: "'w maintainer \<Rightarrow> 'w maintained \<Rightarrow> 'w maintained" where
  "stop ma m =
     (if mn_stopped m then m
      else (case mn_schedule m of [] \<Rightarrow> m | n # ns \<Rightarrow> run_renewals ma (min n 1) (m\<lparr>mn_schedule := ns\<rparr>))\<lparr>mn_stopped := True\<rparr>)"

subsection \<open>The transaction\<close>

definition tryXactLock :: "('w, 'c) pg_pool \<Rightarrow> 'c \<Rightarrow> js_string \<Rightarrow> bool \<Rightarrow> ('w lock_env, thrown, bool) action" where
  "tryXactLock pool client key wait =
     catch_st (bind_st (perform (Ev_step (xact_lock_step wait))
                (client_query pool client (SELECT_try_advisory_xact_lock (advisory_text key)))) (\<lambda>rows. return_st (firstBool rows)))
       (\<lambda>c. throw_st (database key (xact_lock_step wait) c))"

text \<open>The timer and the clock of the platform, as actions on the world that do not throw.\<close>

record 'w platform =
  pf_now :: "'w \<Rightarrow> int"
  pf_sleep :: "int \<Rightarrow> 'w \<Rightarrow> 'w"

definition sleepOrRenewalFailure ::
  "'w platform \<Rightarrow> 'w maintainer \<Rightarrow> int \<Rightarrow> ('w maintained, thrown, unit) action" where
  "sleepOrRenewalFailure pf ma ms = (\<lambda>m.
     case mn_failure m of
       Some e \<Rightarrow> (Inl e, m)
     | None \<Rightarrow>
         (let m1 = interleave ma m in
          case mn_failure m1 of
            Some e \<Rightarrow> (Inl e, m1)
          | None \<Rightarrow>
              (let m2 = interleave ma (m1\<lparr>mn_env := (mn_env m1)\<lparr>env_world := pf_sleep pf ms (env_world (mn_env m1))\<rparr>\<rparr>) in
               case mn_failure m2 of Some e \<Rightarrow> (Inl e, m2) | None \<Rightarrow> (Inr (), m2))))"

fun lock_loop ::
  "nat \<Rightarrow> 'w platform \<Rightarrow> 'w maintainer \<Rightarrow> ('w, 'c) pg_pool \<Rightarrow> 'c \<Rightarrow> js_string \<Rightarrow> bool \<Rightarrow> validated_inputs \<Rightarrow> int \<Rightarrow>
   'w maintained \<Rightarrow> ((thrown + unit) \<times> 'w maintained) option" where
  "lock_loop 0 pf ma pool client key wait acquire started m = None"
| "lock_loop (Suc fuel) pf ma pool client key wait acquire started m =
     (case mn_failure m of
        Some e \<Rightarrow> Some (Inl e, m)
      | None \<Rightarrow>
          (case awaiting ma (tryXactLock pool client key wait) m of
             (Inl e, m1) \<Rightarrow> Some (Inl e, m1)
           | (Inr True, m1) \<Rightarrow> Some (Inr (), m1)
           | (Inr False, m1) \<Rightarrow>
               if \<not> wait then Some (Inl (contention key Pg_try_advisory_xact_lock), m1)
               else
                 let elapsed = pf_now pf (env_world (mn_env m1)) - started in
                 if elapsed \<ge> vi_waitTimeoutMs acquire
                 then Some (Inl (timeout key Pg_advisory_xact_lock), m1)
                 else
                   (case sleepOrRenewalFailure pf ma
                           (min (vi_retryIntervalMs acquire) (vi_waitTimeoutMs acquire - elapsed)) m1 of
                      (Inl e, m2) \<Rightarrow> Some (Inl e, m2)
                    | (Inr _, m2) \<Rightarrow> lock_loop fuel pf ma pool client key wait acquire started m2)))"

definition acquireMaintainedXactLock ::
  "nat \<Rightarrow> 'w platform \<Rightarrow> 'w maintainer \<Rightarrow> ('w, 'c) pg_pool \<Rightarrow> 'c \<Rightarrow> js_string \<Rightarrow> bool \<Rightarrow> validated_inputs \<Rightarrow>
   'w maintained \<Rightarrow> ((thrown + unit) \<times> 'w maintained) option" where
  "acquireMaintainedXactLock fuel pf ma pool client key wait acquire m =
     lock_loop fuel pf ma pool client key wait acquire (pf_now pf (env_world (mn_env m))) m"

definition rollback :: "('w, 'c) pg_pool \<Rightarrow> 'c \<Rightarrow> js_string \<Rightarrow> thrown \<Rightarrow> 'w lock_env \<Rightarrow> thrown \<times> 'w lock_env" where
  "rollback pool client key inner e =
     (case perform (Ev_step Pg_rollback) (client_query pool client ROLLBACK) e of
        (Inr _, e1) \<Rightarrow> (inner, e1)
      | (Inl c, e1) \<Rightarrow> (cleanupFailure key (database key Pg_rollback c) inner, e1))"

record ('c) maintained_guarded =
  mg_key :: js_string
  mg_grant :: lease_grant
  mg_client :: 'c
  mg_aborted :: "thrown option"

text \<open>A caught value as the variable \<open>inner\<close>: the code uses \<open>undefined\<close> for "no error".\<close>

definition as_inner :: "thrown \<Rightarrow> thrown option" where
  "as_inner c = (if c = Thrown_undefined then None else Some c)"

text \<open>
  \<open>BEGIN\<close>, lock and work: the value of the work if it was reached, the error, and whether a
  transaction is open.
\<close>

definition transaction_part ::
  "nat \<Rightarrow> 'w platform \<Rightarrow> 'w maintainer \<Rightarrow> ('w, 'c) pg_pool \<Rightarrow> 'c \<Rightarrow> js_string \<Rightarrow> bool \<Rightarrow> validated_inputs \<Rightarrow>
   ('c maintained_guarded \<Rightarrow> ('w, thrown, 'a) action) \<Rightarrow> 'w maintained \<Rightarrow>
   ('a option \<times> thrown option \<times> bool \<times> 'w maintained) option" where
  "transaction_part fuel pf ma pool client key wait acquire work m =
     (case awaiting ma (perform (Ev_step Pg_begin) (client_query pool client BEGIN)) m of
        (Inl c, m1) \<Rightarrow> Some (None, as_inner c, False, m1)
      | (Inr _, m1) \<Rightarrow>
          (case acquireMaintainedXactLock fuel pf ma pool client key wait acquire m1 of
             None \<Rightarrow> None
           | Some (Inl c, m2) \<Rightarrow> Some (None, as_inner c, True, m2)
           | Some (Inr _, m2) \<Rightarrow>
               (case awaiting ma (runWork key \<lparr>mg_key = key, mg_grant = ma_grant ma, mg_client = client,
                        mg_aborted = mn_failure m2\<rparr> work) m2 of
                  (Inl c, m3) \<Rightarrow> Some (None, as_inner c, True, m3)
                | (Inr v, m3) \<Rightarrow> Some (Some v, None, True, m3))))"

text \<open>After the work: stop the task, take its failure into account, renew once more.\<close>

definition settle_authority ::
  "'w maintainer \<Rightarrow> js_string \<Rightarrow> thrown option \<Rightarrow> 'w maintained \<Rightarrow> thrown option \<times> 'w maintained" where
  "settle_authority ma key inner m =
     (let m1 = stop ma m;
          inner1 = (case mn_failure m1 of
                      None \<Rightarrow> inner
                    | Some f \<Rightarrow> Some (case inner of None \<Rightarrow> f | Some i \<Rightarrow> cleanupFailure key f i))
      in case inner1 of
           Some i \<Rightarrow> (Some i, m1)
         | None \<Rightarrow>
             (case renewChecked (ma_lease ma) (ma_grant ma) (ma_ttlMs ma) (mn_env m1) of
                (Inl c, e) \<Rightarrow> (Some (renewalError key c), m1\<lparr>mn_env := e\<rparr>)
              | (Inr _, e) \<Rightarrow> (None, m1\<lparr>mn_env := e\<rparr>)))"

text \<open>Commit or rollback, and the return of the client.\<close>

definition finish_transaction ::
  "('w, 'c) pg_pool \<Rightarrow> 'c \<Rightarrow> js_string \<Rightarrow> 'a option \<Rightarrow> thrown option \<Rightarrow> bool \<Rightarrow> ('w lock_env, thrown, 'a option) action" where
  "finish_transaction pool client key result inner began e =
     (case inner of
        Some i \<Rightarrow>
          (case (if began then rollback pool client key i e else (i, e)) of
             (i1, e1) \<Rightarrow> release_client pool client (Inl i1, True) e1)
      | None \<Rightarrow>
          (case perform (Ev_step Pg_commit) (client_query pool client COMMIT) e of
             (Inr _, e1) \<Rightarrow> release_client pool client (Inr result, False) e1
           | (Inl c, e1) \<Rightarrow> release_client pool client (Inl (database key Pg_commit c), True) e1))"

definition runMaintainedTransaction ::
  "nat \<Rightarrow> 'w platform \<Rightarrow> js_string \<Rightarrow> bool \<Rightarrow> validated_inputs \<Rightarrow> ('w, js_value) lease \<Rightarrow> lease_grant \<Rightarrow> ('w, 'c) pg_pool \<Rightarrow>
   ('c maintained_guarded \<Rightarrow> ('w, thrown, 'a) action) \<Rightarrow> nat list \<Rightarrow> 'w lock_env \<Rightarrow>
   ((thrown + 'a option) \<times> 'w lock_env) option" where
  "runMaintainedTransaction fuel pf key wait acquire lease grant pool work schedule e =
     (let ma = \<lparr>ma_lease = lease, ma_grant = grant, ma_ttlMs = vi_ttlMs acquire\<rparr>;
          m = \<lparr>mn_env = e, mn_schedule = schedule, mn_failure = None, mn_stopped = False\<rparr>
      in case awaiting ma (perform Ev_connect (pool_connect pool)) m of
           (Inl c, m1) \<Rightarrow>
             (case settle_authority ma key (Some (database key Pg_begin c)) m1 of
                (inner, m2) \<Rightarrow> Some (Inl (the inner), mn_env m2))
         | (Inr client, m1) \<Rightarrow>
             (case transaction_part fuel pf ma pool client key wait acquire work m1 of
                None \<Rightarrow> None
              | Some (result, inner, began, m2) \<Rightarrow>
                  (case settle_authority ma key inner m2 of
                     (inner1, m3) \<Rightarrow> Some (finish_transaction pool client key result inner1 began (mn_env m3)))))"

definition withMaintainedXactLock ::
  "nat \<Rightarrow> 'w platform \<Rightarrow> js_string \<Rightarrow> js_value \<Rightarrow> js_value \<Rightarrow> js_value \<Rightarrow> ('w, js_value) lease \<Rightarrow> ('w, 'c) pg_pool \<Rightarrow>
   ('c maintained_guarded \<Rightarrow> ('w, thrown, 'a) action) \<Rightarrow> nat list \<Rightarrow> 'w lock_env \<Rightarrow>
   ((thrown + 'a option) \<times> 'w lock_env) option" where
  "withMaintainedXactLock fuel pf key wait acquire maintenance lease pool work schedule e =
     (case validatedInputs key acquire maintenance wait of
        Inl err \<Rightarrow> Some (Inl err, e)
      | Inr inputs \<Rightarrow>
          let waiting = (wait = JBool True) in
          (case acquireLease key waiting (inputs_options inputs) lease e of
             (Inl err, e1) \<Rightarrow> Some (Inl err, e1)
           | (Inr rawGrant, e1) \<Rightarrow>
               (case snapshotAuthorityGrant key rawGrant (acquire_step waiting) Transport of
                  Inl err \<Rightarrow> Some (Inl err, e1)
                | Inr grant \<Rightarrow>
                    (case validateMaintainedAcquiredGrant key inputs grant (acquire_step waiting) of
                       Inl err \<Rightarrow> Some (settle key lease (grant_object grant) (Inl err) e1)
                     | Inr _ \<Rightarrow>
                         (case runMaintainedTransaction fuel pf key waiting inputs lease grant pool work schedule e1 of
                            None \<Rightarrow> None
                          | Some (inner, e2) \<Rightarrow> Some (settle key lease (grant_object grant) inner e2))))))"

definition withMaintainedBoth ::
  "nat \<Rightarrow> 'w platform \<Rightarrow> js_string \<Rightarrow> ('w, js_value) lease \<Rightarrow> ('w, 'c) pg_pool \<Rightarrow>
   ('c maintained_guarded \<Rightarrow> ('w, thrown, 'a) action) \<Rightarrow> nat list \<Rightarrow> 'w lock_env \<Rightarrow>
   ((thrown + 'a option) \<times> 'w lock_env) option" where
  "withMaintainedBoth fuel pf key lease pool work schedule e =
     withMaintainedXactLock fuel pf key (JBool True)
       (object_literal [(''ttlMs'', JNumber (NInt 60000)), (''waitTimeoutMs'', JNumber (NInt 30000)),
          (''retryIntervalMs'', JNumber (NInt 250))])
       (object_literal [(''renewIntervalMs'', JNumber (NInt 20000))]) lease pool work schedule e"

text \<open>A trace grew by calls of a given set only.\<close>

definition trace_within :: "lock_event set \<Rightarrow> 'w lock_env \<Rightarrow> 'w lock_env \<Rightarrow> bool" where
  "trace_within S e e' = (\<exists>d. env_trace e' = env_trace e @ d \<and> set d \<subseteq> S)"

abbreviation renew_ev :: lock_event where "renew_ev \<equiv> Ev_step Fiducia_renew"

text \<open>What every part of the main flow keeps while the background task runs beside it.\<close>

definition advances :: "lock_event set \<Rightarrow> 'w maintained \<Rightarrow> 'w maintained \<Rightarrow> bool" where
  "advances S m m' \<longleftrightarrow> trace_within S (mn_env m) (mn_env m') \<and> mn_stopped m' = mn_stopped m \<and>
     (mn_failure m \<noteq> Some Thrown_undefined \<longrightarrow> mn_failure m' \<noteq> Some Thrown_undefined)"

section \<open>Lemmas\<close>

lemma trace_within_refl [simp]: "trace_within S e e"
  by (simp add: trace_within_def)

lemma trace_within_trans [trans]:
  assumes "trace_within S e e'" and "trace_within S e' e''"
  shows "trace_within S e e''"
proof -
  from assms obtain d d' where "env_trace e' = env_trace e @ d" "set d \<subseteq> S" "env_trace e'' = env_trace e' @ d'" "set d' \<subseteq> S"
    unfolding trace_within_def by blast
  then show ?thesis by (simp add: trace_within_def)
qed

lemma trace_within_step: "env_trace e' = env_trace e @ [ev] \<Longrightarrow> ev \<in> S \<Longrightarrow> trace_within S e e'"
  by (simp add: trace_within_def)

lemma trace_within_body: "trace_within {renew_ev} e e' \<Longrightarrow> trace_within (insert a (insert renew_ev S)) e e'"
  by (auto simp: trace_within_def)

lemma advances_refl [simp]: "advances S m m"
  by (simp add: advances_def)

lemma advances_trans [trans]: "advances S m m' \<Longrightarrow> advances S m' m'' \<Longrightarrow> advances S m m''"
  unfolding advances_def by (metis trace_within_trans)

lemma renewalError_defined [simp]: "renewalError key c \<noteq> Thrown_undefined"
  by (cases c) (simp_all add: renewalError_def tagStep_lock transport_def)

lemma renewChecked_apply:
  "renewChecked lease g ttl e =
     (and_then (catch_map (renewalError (lg_key g)) (fst (lease_renew lease (grant_object g) ttl (env_world e))))
        (checked_renewal g ttl),
      \<lparr>env_world = snd (lease_renew lease (grant_object g) ttl (env_world e)), env_trace = env_trace e @ [renew_ev]\<rparr>)"
  by (simp add: renewChecked_def st_flow split: sum.split)

lemma snapshotAuthorityGrant_key: "snapshotAuthorityGrant key v step kind = Inr g \<Longrightarrow> lg_key g = key"
  by (auto simp: snapshotAuthorityGrant_def Let_def and_then_eq_Inr split: option.splits if_splits)

lemma checked_renewal_same:
  "checked_renewal original ttl raw = Inr g \<Longrightarrow>
   grant_identity g = grant_identity original \<and> lg_ttlMs g = ttl"
  by (auto simp: checked_renewal_def and_then_eq_Inr grant_identity_def dest: snapshotAuthorityGrant_key)

lemma run_renewals_advances:
  assumes "renew_ev \<in> S"
  shows "advances S m (run_renewals ma n m)"
proof (induction ma n m rule: run_renewals.induct)
  case (2 ma n m)
  obtain r e where re: "renewChecked (ma_lease ma) (ma_grant ma) (ma_ttlMs ma) (mn_env m) = (r, e)" by fastforce
  then have "env_trace e = env_trace (mn_env m) @ [renew_ev]" by (auto simp: renewChecked_apply)
  with assms have step: "advances S m (m\<lparr>mn_env := e\<rparr>)" "advances S m (m\<lparr>mn_env := e, mn_failure := Some (renewalError k c)\<rparr>)" for k c
    by (simp_all add: advances_def trace_within_step)
  show ?case
  proof (cases "mn_failure m \<noteq> None \<or> mn_stopped m")
    case False
    show ?thesis
    proof (cases r)
      case (Inl c)
      with False re step show ?thesis by simp
    next
      case (Inr g)
      from advances_trans [OF step(1) "2.IH" [OF False re [symmetric] Inr]] False re Inr show ?thesis by simp
    qed
  qed simp
qed simp

lemma interleave_advances: "renew_ev \<in> S \<Longrightarrow> advances S m (interleave ma m)"
  using run_renewals_advances [of S "m\<lparr>mn_schedule := _\<rparr>" ma]
  by (simp add: interleave_def advances_def split: list.split)

lemma awaiting_advances:
  assumes run: "awaiting ma act m = (r, m')" and "renew_ev \<in> S" and act: "\<And>e. trace_within S e (snd (act e))"
  shows "advances S m m' \<and> (\<exists>e. fst (act e) = r)"
proof -
  define m1 where "m1 = interleave ma m"
  obtain e where e: "act (mn_env m1) = (r, e)" and m': "m' = interleave ma (m1\<lparr>mn_env := e\<rparr>)"
    using run by (auto simp: awaiting_def m1_def [symmetric] Let_def split: prod.splits)
  have "advances S m m1" unfolding m1_def by (rule interleave_advances [OF assms(2)])
  also have "advances S m1 (m1\<lparr>mn_env := e\<rparr>)" using act [of "mn_env m1"] e by (simp add: advances_def)
  also have "advances S (m1\<lparr>mn_env := e\<rparr>) m'" unfolding m' by (rule interleave_advances [OF assms(2)])
  finally show ?thesis using e by (metis fst_conv)
qed

lemma perform_within: "ev \<in> S \<Longrightarrow> trace_within S e (snd (perform ev act e))"
  by (simp add: trace_within_def perform_apply)

lemma tryXactLock_within:
  "Ev_step (xact_lock_step wait) \<in> S \<Longrightarrow> trace_within S e (snd (tryXactLock pool client key wait e))"
  by (simp add: tryXactLock_def trace_within_def st_flow split: sum.split)

lemma runWork_within: "Ev_step Work \<in> S \<Longrightarrow> trace_within S e (snd (runWork key guard work e))"
  by (simp add: trace_within_def st_flow)

lemma tryXactLock_error: "fst (tryXactLock pool client key wait e) \<noteq> Inl Thrown_undefined"
  by (auto simp: tryXactLock_def st_flow database_def split: sum.splits)

lemma sleep_advances:
  assumes "sleepOrRenewalFailure pf ma ms m = (r, m')" and "renew_ev \<in> S" and "mn_failure m \<noteq> Some Thrown_undefined"
  shows "advances S m m' \<and> r \<noteq> Inl Thrown_undefined"
proof -
  define m1 where "m1 = interleave ma m"
  define s where "s = m1\<lparr>mn_env := (mn_env m1)\<lparr>env_world := pf_sleep pf ms (env_world (mn_env m1))\<rparr>\<rparr>"
  have a1: "advances S m m1" unfolding m1_def by (rule interleave_advances [OF assms(2)])
  have a2: "advances S m1 s" by (simp add: s_def advances_def trace_within_def)
  have a3: "advances S s (interleave ma s)" by (rule interleave_advances [OF assms(2)])
  note a12 = advances_trans [OF a1 a2]
  note a13 = advances_trans [OF a12 a3]
  have "mn_failure m1 \<noteq> Some Thrown_undefined" "mn_failure (interleave ma s) \<noteq> Some Thrown_undefined"
    using a1 a13 assms(3) by (simp_all add: advances_def)
  with assms(1,3) a1 a13 show ?thesis
    by (auto simp: sleepOrRenewalFailure_def Let_def m1_def [symmetric] s_def [symmetric] split: option.splits)
qed

text \<open>One turn of the wait: it ends, or sleeps and goes round again with less fuel.\<close>

definition lock_turn ::
  "'w platform \<Rightarrow> 'w maintainer \<Rightarrow> ('w, 'c) pg_pool \<Rightarrow> 'c \<Rightarrow> js_string \<Rightarrow> bool \<Rightarrow> validated_inputs \<Rightarrow> int \<Rightarrow>
   'w maintained \<Rightarrow> (thrown + unit) option \<times> 'w maintained" where
  "lock_turn pf ma pool client key wait acquire started m =
     (case mn_failure m of
        Some e \<Rightarrow> (Some (Inl e), m)
      | None \<Rightarrow>
          (case awaiting ma (tryXactLock pool client key wait) m of
             (Inl e, m1) \<Rightarrow> (Some (Inl e), m1)
           | (Inr got, m1) \<Rightarrow>
               if got then (Some (Inr ()), m1)
               else if \<not> wait then (Some (Inl (contention key Pg_try_advisory_xact_lock)), m1)
               else
                 let elapsed = pf_now pf (env_world (mn_env m1)) - started in
                 if elapsed \<ge> vi_waitTimeoutMs acquire
                 then (Some (Inl (timeout key Pg_advisory_xact_lock)), m1)
                 else
                   (case sleepOrRenewalFailure pf ma
                           (min (vi_retryIntervalMs acquire) (vi_waitTimeoutMs acquire - elapsed)) m1 of
                      (Inl e, m2) \<Rightarrow> (Some (Inl e), m2)
                    | (Inr _, m2) \<Rightarrow> (None, m2))))"

lemma lock_loop_turn:
  "lock_loop (Suc fuel) pf ma pool client key wait acquire started m =
     (case lock_turn pf ma pool client key wait acquire started m of
        (Some r, m1) \<Rightarrow> Some (r, m1)
      | (None, m1) \<Rightarrow> lock_loop fuel pf ma pool client key wait acquire started m1)"
  by (simp add: lock_turn_def Let_def split: option.split sum.split prod.split bool.split)

lemma lock_turn_advances:
  assumes turn: "lock_turn pf ma pool client key wait acquire started m = (r, m')"
    and S: "renew_ev \<in> S" "Ev_step (xact_lock_step wait) \<in> S" and und: "mn_failure m \<noteq> Some Thrown_undefined"
  shows "advances S m m' \<and> r \<noteq> Some (Inl Thrown_undefined)"
proof (cases "mn_failure m")
  case (Some e)
  with turn und show ?thesis by (auto simp: lock_turn_def)
next
  case None
  obtain q m1 where q: "awaiting ma (tryXactLock pool client key wait) m = (q, m1)" by fastforce
  note a = awaiting_advances [OF q S(1) tryXactLock_within [OF S(2)]]
  have und1: "mn_failure m1 \<noteq> Some Thrown_undefined" using a und by (simp add: advances_def)
  have q_und: "q \<noteq> Inl Thrown_undefined" using a tryXactLock_error by metis
  obtain z m2 where z: "sleepOrRenewalFailure pf ma
      (min (vi_retryIntervalMs acquire) (vi_waitTimeoutMs acquire - (pf_now pf (env_world (mn_env m1)) - started))) m1 = (z, m2)"
    by fastforce
  note sl = sleep_advances [OF z S(1) und1]
  have two: "advances S m m2" using a sl advances_trans by blast
  from turn None q z have "(r, m') = (case q of Inl e \<Rightarrow> (Some (Inl e), m1)
      | Inr got \<Rightarrow> if got then (Some (Inr ()), m1)
          else if \<not> wait then (Some (Inl (contention key Pg_try_advisory_xact_lock)), m1)
          else if pf_now pf (env_world (mn_env m1)) - started \<ge> vi_waitTimeoutMs acquire
            then (Some (Inl (timeout key Pg_advisory_xact_lock)), m1)
          else (case z of Inl e \<Rightarrow> (Some (Inl e), m2) | Inr _ \<Rightarrow> (None, m2)))"
    by (cases q; cases z) (simp_all add: lock_turn_def Let_def split: if_splits)
  then show ?thesis
    using a sl two q_und by (cases q; cases z) (simp_all add: contention_def timeout_def split: if_splits)
qed

lemma lock_loop_advances:
  assumes "lock_loop fuel pf ma pool client key wait acquire started m = Some (r, m')"
    and "renew_ev \<in> S" "Ev_step (xact_lock_step wait) \<in> S" "mn_failure m \<noteq> Some Thrown_undefined"
  shows "advances S m m' \<and> r \<noteq> Inl Thrown_undefined"
  using assms(1,4)
proof (induction fuel arbitrary: m)
  case (Suc fuel)
  obtain z m1 where z: "lock_turn pf ma pool client key wait acquire started m = (z, m1)" by fastforce
  note t = lock_turn_advances [OF z assms(2,3) Suc.prems(2)]
  show ?case
  proof (cases z)
    case (Some x)
    with Suc.prems z t show ?thesis by (simp only: lock_loop_turn) simp
  next
    case None
    with Suc.prems(1) z have rec: "lock_loop fuel pf ma pool client key wait acquire started m1 = Some (r, m')"
      by (simp only: lock_loop_turn) simp
    from t Suc.prems(2) have "mn_failure m1 \<noteq> Some Thrown_undefined" by (simp add: advances_def)
    from Suc.IH [OF rec this] t show ?thesis using advances_trans by blast
  qed
qed simp

text \<open>Enough turns end the wait: the clock must not go back, and a sleep must advance it.\<close>

definition clock_ok :: "'w platform \<Rightarrow> ('w, js_value) lease \<Rightarrow> ('w, 'c) pg_pool \<Rightarrow> bool" where
  "clock_ok pf lease pool \<longleftrightarrow>
     (\<forall>g ttl w. pf_now pf w \<le> pf_now pf (snd (lease_renew lease g ttl w))) \<and>
     (\<forall>client sql w. pf_now pf w \<le> pf_now pf (snd (client_query pool client sql w))) \<and>
     (\<forall>ms w. 1 \<le> ms \<longrightarrow> pf_now pf w < pf_now pf (pf_sleep pf ms w))"

abbreviation clock :: "'w platform \<Rightarrow> 'w maintained \<Rightarrow> int" where
  "clock pf m \<equiv> pf_now pf (env_world (mn_env m))"

lemma run_renewals_clock:
  assumes "clock_ok pf (ma_lease ma) pool"
  shows "clock pf m \<le> clock pf (run_renewals ma n m)"
  using assms
proof (induction ma n m rule: run_renewals.induct)
  case (2 ma n m)
  obtain r e where re: "renewChecked (ma_lease ma) (ma_grant ma) (ma_ttlMs ma) (mn_env m) = (r, e)" by fastforce
  with "2.prems" have le: "clock pf m \<le> pf_now pf (env_world e)"
    by (auto simp: renewChecked_apply clock_ok_def)
  show ?case
  proof (cases "mn_failure m \<noteq> None \<or> mn_stopped m")
    case False
    show ?thesis
    proof (cases r)
      case (Inr g)
      from "2.IH" [OF False re [symmetric] Inr "2.prems"] False re Inr le show ?thesis by simp
    qed (use False re le in simp)
  qed simp
qed simp

lemma interleave_clock: "clock_ok pf (ma_lease ma) pool \<Longrightarrow> clock pf m \<le> clock pf (interleave ma m)"
  using run_renewals_clock [of pf ma pool "m\<lparr>mn_schedule := _\<rparr>"] by (simp add: interleave_def split: list.split)

lemma lock_turn_clock:
  assumes ok: "clock_ok pf (ma_lease ma) pool" and "wait \<longrightarrow> 1 \<le> vi_retryIntervalMs acquire"
    and turn: "lock_turn pf ma pool client key wait acquire started m = (None, m')"
  shows "clock pf m - started < vi_waitTimeoutMs acquire \<and> clock pf m < clock pf m'"
proof -
  obtain q m1 where q: "awaiting ma (tryXactLock pool client key wait) m = (q, m1)" by fastforce
  define ms where "ms = min (vi_retryIntervalMs acquire) (vi_waitTimeoutMs acquire - (clock pf m1 - started))"
  from turn q have q': "q = Inr False" and wait: "wait" and early: "clock pf m1 - started < vi_waitTimeoutMs acquire"
    and sl: "sleepOrRenewalFailure pf ma ms m1 = (Inr (), m')"
    by (auto simp: lock_turn_def ms_def Let_def split: option.splits sum.splits if_splits prod.splits)
  define i where "i = interleave ma m"
  have "snd (tryXactLock pool client key wait (mn_env i)) = snd (perform (Ev_step (xact_lock_step wait))
      (client_query pool client (SELECT_try_advisory_xact_lock (advisory_text key))) (mn_env i))"
    by (simp add: tryXactLock_def st_flow split: sum.split)
  with ok have "clock pf i \<le> pf_now pf (env_world (snd (tryXactLock pool client key wait (mn_env i))))"
    by (simp add: clock_ok_def st_flow)
  moreover have "m1 = interleave ma (i\<lparr>mn_env := snd (tryXactLock pool client key wait (mn_env i))\<rparr>)"
    using q by (simp add: awaiting_def i_def [symmetric] Let_def split: prod.splits)
  ultimately have first: "clock pf m \<le> clock pf m1"
    using interleave_clock [OF ok, of m] interleave_clock [OF ok, of "i\<lparr>mn_env := _\<rparr>"]
    by (simp add: i_def) (meson order_trans)
  define j where "j = interleave ma m1"
  have "m' = interleave ma (j\<lparr>mn_env := (mn_env j)\<lparr>env_world := pf_sleep pf ms (env_world (mn_env j))\<rparr>\<rparr>)"
    using sl by (auto simp: sleepOrRenewalFailure_def Let_def j_def [symmetric] split: option.splits)
  moreover have "clock pf j < pf_now pf (pf_sleep pf ms (env_world (mn_env j)))"
    using ok early wait assms(2) by (simp add: clock_ok_def ms_def)
  moreover have "clock pf m1 \<le> clock pf j" unfolding j_def by (rule interleave_clock [OF ok])
  ultimately have "clock pf m1 < clock pf m'"
    using interleave_clock [OF ok, of "j\<lparr>mn_env := (mn_env j)\<lparr>env_world := pf_sleep pf ms (env_world (mn_env j))\<rparr>\<rparr>"] by simp
  with first early show ?thesis by simp
qed

lemma lock_loop_ends:
  assumes ok: "clock_ok pf (ma_lease ma) pool" and pos: "wait \<longrightarrow> 1 \<le> vi_retryIntervalMs acquire"
    and "nat (vi_waitTimeoutMs acquire - (clock pf m - started)) < fuel"
  shows "\<exists>x. lock_loop fuel pf ma pool client key wait acquire started m = Some x"
  using assms(3)
proof (induction fuel arbitrary: m)
  case (Suc fuel)
  obtain z m1 where z: "lock_turn pf ma pool client key wait acquire started m = (z, m1)" by fastforce
  show ?case
  proof (cases z)
    case (Some x)
    with z show ?thesis by (simp only: lock_loop_turn) simp
  next
    case None
    note t = lock_turn_clock [OF ok pos z [unfolded None]]
    with Suc.prems have "nat (vi_waitTimeoutMs acquire - (clock pf m1 - started)) < fuel" by linarith
    from Suc.IH [OF this] z None show ?thesis by (simp only: lock_loop_turn) simp
  qed
qed simp

text \<open>The part up to the end of the work.\<close>

abbreviation body_events :: "bool \<Rightarrow> lock_event set" where
  "body_events wait \<equiv> {Ev_connect, renew_ev, Ev_step Pg_begin, Ev_step (xact_lock_step wait), Ev_step Work}"

lemma commit_not_body: "set d \<subseteq> body_events wait \<Longrightarrow> Ev_step Pg_commit \<notin> set d"
  by (cases wait) (auto simp: xact_lock_step_def)

lemma as_inner_simps [simp]: "as_inner Thrown_undefined = None" "c \<noteq> Thrown_undefined \<Longrightarrow> as_inner c = Some c"
  by (simp_all add: as_inner_def)

lemma runWork_result:
  "fst (runWork key guard work e) = Inl c \<Longrightarrow> c \<noteq> Thrown_undefined"
  "fst (runWork key guard work e) = Inr v \<Longrightarrow> \<exists>w w'. work guard w = (Inr v, w')"
  by (auto simp: st_flow work_failure_def) (metis prod.collapse)

text \<open>
  What the variables hold after that part: an error unless \<open>BEGIN\<close> was refused with \<open>undefined\<close>,
  or the value the work returned for the guard that carries the grant.
\<close>

lemma transaction_part_facts:
  assumes run: "transaction_part fuel pf ma pool client key wait acquire work m = Some (result, inner, began, m')"
    and und: "mn_failure m \<noteq> Some Thrown_undefined"
  shows "advances (body_events wait) m m' \<and>
    (inner = None \<longrightarrow>
       (\<exists>v guard w w'. result = Some v \<and> mg_grant guard = ma_grant ma \<and> mg_client guard = client \<and>
          work guard w = (Inr v, w')) \<and> began \<or>
       \<not> began \<and> (\<exists>w. fst (client_query pool client BEGIN w) = Inl Thrown_undefined))"
proof -
  let ?S = "body_events wait"
  obtain b m1 where b: "awaiting ma (perform (Ev_step Pg_begin) (client_query pool client BEGIN)) m = (b, m1)" by fastforce
  note ab = awaiting_advances [OF b _ perform_within, of ?S]
  have a1: "advances ?S m m1" and und1: "mn_failure m1 \<noteq> Some Thrown_undefined"
    using ab und by (auto simp: advances_def)
  show ?thesis
  proof (cases b)
    case (Inl c)
    with ab have "\<exists>w. fst (client_query pool client BEGIN w) = Inl c" by (auto simp: perform_apply)
    with run b Inl a1 show ?thesis by (auto simp: transaction_part_def as_inner_def split: if_splits)
  next
    case (Inr rows)
    with run b obtain l m2 where l: "acquireMaintainedXactLock fuel pf ma pool client key wait acquire m1 = Some (l, m2)"
      by (auto simp: transaction_part_def split: option.splits)
    have "advances ?S m1 m2 \<and> l \<noteq> Inl Thrown_undefined"
      by (rule lock_loop_advances [OF l [unfolded acquireMaintainedXactLock_def] _ _ und1]) simp_all
    with a1 have a2: "advances ?S m m2" and l': "l \<noteq> Inl Thrown_undefined" using advances_trans by blast+
    show ?thesis
    proof (cases l)
      case l2: (Inl c)
      with run b Inr l l' a2 show ?thesis by (auto simp: transaction_part_def)
    next
      case l2: (Inr u)
      define guard where "guard = \<lparr>mg_key = key, mg_grant = ma_grant ma, mg_client = client, mg_aborted = mn_failure m2\<rparr>"
      obtain x m3 where x: "awaiting ma (runWork key guard work) m2 = (x, m3)" by fastforce
      note ax = awaiting_advances [OF x _ runWork_within, of ?S]
      have a3: "advances ?S m m3" using a2 ax advances_trans by blast
      obtain e where e: "fst (runWork key guard work e) = x" using ax by auto
      have g: "mg_grant guard = ma_grant ma" "mg_client guard = client" by (simp_all add: guard_def)
      have "transaction_part fuel pf ma pool client key wait acquire work m =
          Some (case x of Inl c \<Rightarrow> (None, as_inner c, True, m3) | Inr v \<Rightarrow> (Some v, None, True, m3))"
        using b Inr l l2 x by (simp add: transaction_part_def guard_def [symmetric] split: sum.split)
      with run have eqs: "(result, inner, began, m') =
          (case x of Inl c \<Rightarrow> (None, as_inner c, True, m3) | Inr v \<Rightarrow> (Some v, None, True, m3))" by simp
      show ?thesis
      proof (cases x)
        case (Inl c)
        with e have "c \<noteq> Thrown_undefined" by (intro runWork_result(1) [of key guard work e c]) simp
        with eqs Inl a3 show ?thesis by simp
      next
        case x': (Inr v)
        with e have "\<exists>w w'. work guard w = (Inr v, w')" by (intro runWork_result(2) [of key guard work e v]) simp
        then obtain w w' where "work guard w = (Inr v, w')" by blast
        with g have "\<exists>v' guard w w'. Some v = Some v' \<and> mg_grant guard = ma_grant ma \<and> mg_client guard = client \<and>
            work guard w = (Inr v', w')" by blast
        with eqs x' a3 show ?thesis by simp
      qed
    qed
  qed
qed

lemma stop_advances:
  assumes "renew_ev \<in> S"
  shows "trace_within S (mn_env m) (mn_env (stop ma m)) \<and>
    (mn_failure m \<noteq> Some Thrown_undefined \<longrightarrow> mn_failure (stop ma m) \<noteq> Some Thrown_undefined) \<and> mn_stopped (stop ma m)"
  using run_renewals_advances [OF assms, of "m\<lparr>mn_schedule := _\<rparr>" ma]
  by (simp add: stop_def advances_def split: list.split)

text \<open>No error is left only if the task never failed and the final renewal was confirmed.\<close>

definition confirmed :: "'w maintainer \<Rightarrow> 'w \<Rightarrow> 'w \<Rightarrow> bool" where
  "confirmed ma w w' \<longleftrightarrow>
     (\<exists>raw renewed. lease_renew (ma_lease ma) (grant_object (ma_grant ma)) (ma_ttlMs ma) w = (Inr raw, w') \<and>
        checked_renewal (ma_grant ma) (ma_ttlMs ma) raw = Inr renewed \<and>
        grant_identity renewed = grant_identity (ma_grant ma) \<and> lg_ttlMs renewed = ma_ttlMs ma)"

lemma settle_authority_facts:
  assumes "settle_authority ma key inner m = (inner', m')"
  shows "(inner \<noteq> None \<longrightarrow> inner' \<noteq> None) \<and> trace_within {renew_ev} (mn_env m) (mn_env m') \<and>
    (inner' = None \<longrightarrow> (\<exists>e. trace_within {renew_ev} (mn_env m) e \<and> env_trace (mn_env m') = env_trace e @ [renew_ev] \<and>
       confirmed ma (env_world e) (env_world (mn_env m'))) \<and> mn_failure m' = None)"
proof -
  define m1 where "m1 = stop ma m"
  have t1: "trace_within {renew_ev} (mn_env m) (mn_env m1)" using stop_advances [of "{renew_ev}" m ma] by (simp add: m1_def)
  define inner1 where "inner1 = (case mn_failure m1 of None \<Rightarrow> inner
     | Some f \<Rightarrow> Some (case inner of None \<Rightarrow> f | Some i \<Rightarrow> cleanupFailure key f i))"
  have i1: "inner \<noteq> None \<longrightarrow> inner1 \<noteq> None" "inner1 = None \<longrightarrow> mn_failure m1 = None"
    by (auto simp: inner1_def split: option.splits)
  show ?thesis
  proof (cases inner1)
    case (Some i)
    with assms have "inner' = Some i" "m' = m1"
      by (auto simp: settle_authority_def Let_def inner1_def m1_def)
    with t1 show ?thesis by simp
  next
    case None
    define r where "r = fst (renewChecked (ma_lease ma) (ma_grant ma) (ma_ttlMs ma) (mn_env m1))"
    define e where "e = snd (renewChecked (ma_lease ma) (ma_grant ma) (ma_ttlMs ma) (mn_env m1))"
    have re: "renewChecked (ma_lease ma) (ma_grant ma) (ma_ttlMs ma) (mn_env m1) = (r, e)" by (simp add: r_def e_def)
    with assms None have res: "inner' = (case r of Inl c \<Rightarrow> Some (renewalError key c) | Inr _ \<Rightarrow> None)"
      and m': "m' = m1\<lparr>mn_env := e\<rparr>"
      by (cases r; auto simp: settle_authority_def Let_def inner1_def m1_def)+
    have e_tr: "env_trace e = env_trace (mn_env m1) @ [renew_ev]" using re by (auto simp: renewChecked_apply)
    then have "trace_within {renew_ev} (mn_env m) (mn_env m')"
      using trace_within_trans [OF t1 trace_within_step, of e renew_ev] m' by simp
    moreover have "confirmed ma (env_world (mn_env m1)) (env_world e)" if "r = Inr renewed" for renewed
      using re that checked_renewal_same [of "ma_grant ma" "ma_ttlMs ma" _ renewed]
      by (auto simp: renewChecked_apply confirmed_def and_then_eq_Inr) (metis prod.collapse)
    ultimately show ?thesis
      using i1 None res t1 e_tr m' by (auto split: sum.splits)
  qed
qed

text \<open>Commit or rollback: the calls and, after a commit, the world the statement was sent in.\<close>

lemma finish_failed:
  "\<not> is_ok (fst (finish_transaction pool client key result (Some i) began e)) \<and>
   env_trace (snd (finish_transaction pool client key result (Some i) began e)) =
     env_trace e @ (if began then [Ev_step Pg_rollback] else []) @ [Ev_client_release True]"
  by (cases "fst (client_query pool client ROLLBACK (env_world e))")
    (auto simp: finish_transaction_def rollback_def st_flow is_ok_iff and_then_eq_Inr)

lemma finish_committed:
  assumes "finish_transaction pool client key result None began e = (r, e')"
  shows "\<exists>poisoned. env_trace e' = env_trace e @ [Ev_step Pg_commit, Ev_client_release poisoned] \<and>
     (is_ok r \<longrightarrow> \<not> poisoned \<and> r = Inr result) \<and>
     env_world e' = snd (client_release pool client poisoned (snd (client_query pool client COMMIT (env_world e))))"
proof (cases "fst (client_query pool client COMMIT (env_world e))")
  case (Inl c)
  with assms show ?thesis
    by (intro exI [of _ True]) (auto simp: finish_transaction_def st_flow and_then_def split: sum.splits)
next
  case (Inr rows)
  with assms show ?thesis
    by (intro exI [of _ False]) (auto simp: finish_transaction_def st_flow and_then_def split: sum.splits)
qed

text \<open>The calls of a maintained transaction.\<close>

definition maintained_shape :: "bool \<Rightarrow> bool \<Rightarrow> lock_event list \<Rightarrow> bool" where
  "maintained_shape wait ok calls \<longleftrightarrow>
     (\<exists>before. set before \<subseteq> body_events wait \<and>
        (calls = before \<and> \<not> ok \<or>
         calls = before @ [Ev_client_release True] \<and> \<not> ok \<or>
         calls = before @ [Ev_step Pg_rollback, Ev_client_release True] \<and> \<not> ok \<or>
         (\<exists>poisoned. calls = before @ [renew_ev, Ev_step Pg_commit, Ev_client_release poisoned] \<and> (ok \<longrightarrow> \<not> poisoned))))"

abbreviation maintainer_of :: "validated_inputs \<Rightarrow> ('w, js_value) lease \<Rightarrow> lease_grant \<Rightarrow> 'w maintainer" where
  "maintainer_of acquire lease grant \<equiv> \<lparr>ma_lease = lease, ma_grant = grant, ma_ttlMs = vi_ttlMs acquire\<rparr>"

text \<open>The work returned \<open>v\<close> under the grant, or \<open>BEGIN\<close> was refused with \<open>undefined\<close>.\<close>

definition work_returned ::
  "('w, 'c) pg_pool \<Rightarrow> lease_grant \<Rightarrow> ('c maintained_guarded \<Rightarrow> ('w, thrown, 'a) action) \<Rightarrow> 'a option \<Rightarrow> bool" where
  "work_returned pool grant work result \<longleftrightarrow>
     (\<exists>v guard w w'. result = Some v \<and> mg_grant guard = grant \<and> work guard w = (Inr v, w')) \<or>
     (\<exists>client w. fst (client_query pool client BEGIN w) = Inl Thrown_undefined)"

lemma runMaintainedTransaction_facts:
  assumes run: "runMaintainedTransaction fuel pf key wait acquire lease grant pool work schedule e = Some (r, e')"
  shows "\<exists>calls. env_trace e' = env_trace e @ calls \<and> maintained_shape wait (is_ok r) calls \<and>
    (Ev_step Pg_commit \<in> set calls \<longrightarrow> (\<exists>client poisoned w w'. confirmed (maintainer_of acquire lease grant) w w' \<and>
       env_world e' = snd (client_release pool client poisoned (snd (client_query pool client COMMIT w'))))) \<and>
    (\<forall>result. r = Inr result \<longrightarrow> work_returned pool grant work result)"
proof -
  let ?S = "body_events wait"
  define ma where "ma = maintainer_of acquire lease grant"
  define m where "m = \<lparr>mn_env = e, mn_schedule = schedule, mn_failure = None, mn_stopped = False\<rparr>"
  obtain c m1 where c: "awaiting ma (perform Ev_connect (pool_connect pool)) m = (c, m1)" by fastforce
  have a1: "advances ?S m m1" using awaiting_advances [OF c _ perform_within, of ?S] by simp
  then have und1: "mn_failure m1 \<noteq> Some Thrown_undefined" by (simp add: advances_def m_def)
  show ?thesis
  proof (cases c)
    case (Inl err)
    obtain i m2 where s: "settle_authority ma key (Some (database key Pg_begin err)) m1 = (i, m2)" by fastforce
    with run c Inl have r: "r = Inl (the i)" "e' = mn_env m2"
      by (auto simp: runMaintainedTransaction_def Let_def ma_def m_def)
    from settle_authority_facts [OF s] have "trace_within ?S (mn_env m1) (mn_env m2)" by (simp add: trace_within_body)
    with a1 have "trace_within ?S (mn_env m) (mn_env m2)"
      using trace_within_trans [of ?S "mn_env m" "mn_env m1" "mn_env m2"] by (simp add: advances_def)
    then obtain d where "env_trace e' = env_trace e @ d" "set d \<subseteq> ?S" using r by (auto simp: trace_within_def m_def)
    moreover from this(2) have "Ev_step Pg_commit \<notin> set d" by (rule commit_not_body)
    ultimately show ?thesis using r by (intro exI [of _ d]) (auto simp: maintained_shape_def)
  next
    case (Inr client)
    with run c obtain result inner began m2 where
      t: "transaction_part fuel pf ma pool client key wait acquire work m1 = Some (result, inner, began, m2)"
      by (auto simp: runMaintainedTransaction_def Let_def ma_def m_def split: option.splits)
    obtain i m3 where s: "settle_authority ma key inner m2 = (i, m3)" by fastforce
    with run c Inr t have f: "finish_transaction pool client key result i began (mn_env m3) = (r, e')"
      by (simp add: runMaintainedTransaction_def Let_def ma_def m_def)
    note tf = transaction_part_facts [OF t und1] and sf = settle_authority_facts [OF s]
    have a2: "trace_within ?S (mn_env m) (mn_env m2)"
      using trace_within_trans [of ?S "mn_env m" "mn_env m1" "mn_env m2"] a1 tf by (simp add: advances_def)
    show ?thesis
    proof (cases i)
      case (Some err)
      have "trace_within ?S (mn_env m) (mn_env m3)" using trace_within_trans [OF a2 trace_within_body] sf by simp
      then obtain d where d: "env_trace (mn_env m3) = env_trace e @ d" "set d \<subseteq> ?S" by (auto simp: trace_within_def m_def)
      from d(2) have "Ev_step Pg_commit \<notin> set d" by (rule commit_not_body)
      with d f Some finish_failed [of pool client key result err began "mn_env m3"] show ?thesis
        by (intro exI [of _ "d @ (if began then [Ev_step Pg_rollback] else []) @ [Ev_client_release True]"])
          (auto simp: maintained_shape_def)
    next
      case None
      with sf obtain e2 where e2: "trace_within {renew_ev} (mn_env m2) e2"
        "env_trace (mn_env m3) = env_trace e2 @ [renew_ev]" "confirmed ma (env_world e2) (env_world (mn_env m3))" by blast
      have "trace_within ?S (mn_env m) e2" using trace_within_trans [OF a2 trace_within_body] e2(1) by simp
      then obtain d where d: "env_trace e2 = env_trace e @ d" "set d \<subseteq> ?S" by (auto simp: trace_within_def m_def)
      obtain p where p: "env_trace e' = env_trace (mn_env m3) @ [Ev_step Pg_commit, Ev_client_release p]"
        "is_ok r \<longrightarrow> \<not> p \<and> r = Inr result"
        "env_world e' = snd (client_release pool client p (snd (client_query pool client COMMIT (env_world (mn_env m3)))))"
        using finish_committed [OF f [unfolded None]] by blast
      have "inner = None" using sf None by auto
      with tf have "work_returned pool grant work result" by (auto simp: work_returned_def ma_def)
      moreover have "maintained_shape wait (is_ok r) (d @ [renew_ev, Ev_step Pg_commit, Ev_client_release p])"
        using d p by (auto simp: maintained_shape_def)
      ultimately show ?thesis using d e2 p
        by (intro exI [of _ "d @ [renew_ev, Ev_step Pg_commit, Ev_client_release p]"]) (auto simp: ma_def)
    qed
  qed
qed

lemma runMaintainedTransaction_ends:
  assumes "clock_ok pf lease pool" and "wait \<longrightarrow> 1 \<le> vi_retryIntervalMs acquire"
    and "nat (vi_waitTimeoutMs acquire) < fuel"
  shows "\<exists>x. runMaintainedTransaction fuel pf key wait acquire lease grant pool work schedule e = Some x"
proof -
  have lock: "acquireMaintainedXactLock fuel pf (maintainer_of acquire lease grant) pool client key wait acquire m \<noteq> None"
    for client m
    using lock_loop_ends [of pf "maintainer_of acquire lease grant" pool wait acquire m "clock pf m" fuel client key] assms
    by (simp add: acquireMaintainedXactLock_def)
  have part: "transaction_part fuel pf (maintainer_of acquire lease grant) pool client key wait acquire work m \<noteq> None"
    for client m
  proof
    assume "transaction_part fuel pf (maintainer_of acquire lease grant) pool client key wait acquire work m = None"
    then have "\<exists>m1. acquireMaintainedXactLock fuel pf (maintainer_of acquire lease grant) pool client key wait acquire m1 = None"
      by (auto simp: transaction_part_def split: prod.splits sum.splits option.splits)
    then show False using lock [of client] by auto
  qed
  show ?thesis
  proof (cases "runMaintainedTransaction fuel pf key wait acquire lease grant pool work schedule e")
    case None
    then have "\<exists>client m. transaction_part fuel pf (maintainer_of acquire lease grant) pool client key wait acquire work m = None"
      by (auto simp: runMaintainedTransaction_def Let_def split: prod.splits sum.splits option.splits)
    then show ?thesis using part by auto
  qed simp
qed

lemma validatedInputs_bounds:
  assumes "validatedInputs key acquire maintenance wait = Inr vi"
  shows "0 < vi_ttlMs vi \<and> vi_ttlMs vi \<le> MAX_RENEWAL_TTL_MS \<and> 0 < vi_renewIntervalMs vi \<and>
    2 * vi_renewIntervalMs vi \<le> vi_ttlMs vi \<and> 0 \<le> vi_waitTimeoutMs vi \<and> 0 \<le> vi_retryIntervalMs vi \<and>
    (wait = JBool True \<longrightarrow> 1 \<le> vi_retryIntervalMs vi) \<and> vi_holder vi \<noteq> Some []"
proof -
  from assms obtain acq where acq: "snapshotAcquireOptions key acquire = Inr acq" and vi: "vi_holder vi = holder_option acq"
    by (auto simp: validatedInputs_def and_then_eq_Inr)
  have "holder_option acq \<noteq> Some []"
    using acq by (auto simp: snapshotAcquireOptions_def holder_option_def and_then_eq_Inr has_own_def field_def
        split: js_value.splits option.splits)
  with vi assms show ?thesis
    by (auto simp: validatedInputs_def and_then_eq_Inr requirePositiveInteger_def requireNonNegativeInteger_def
        split: option.splits if_splits)
qed

lemma withMaintainedXactLock_held:
  assumes "validatedInputs key acquire maintenance wait = Inr vi"
    and "acquireLease key (wait = JBool True) (inputs_options vi) lease e = (Inr raw, e1)"
    and "snapshotAuthorityGrant key raw (acquire_step (wait = JBool True)) Transport = Inr grant"
    and run: "withMaintainedXactLock fuel pf key wait acquire maintenance lease pool work schedule e = Some (r, e')"
  shows "\<exists>inner e2. (r, e') = settle key lease (grant_object grant) inner e2 \<and>
    (inner = Inl (lost_lease key (Some (acquire_step (wait = JBool True)))) \<and> e2 = e1 \<or>
     lg_ttlMs grant = vi_ttlMs vi \<and> (vi_holder vi = None \<or> vi_holder vi = Some (lg_holder grant)) \<and>
     runMaintainedTransaction fuel pf key (wait = JBool True) vi lease grant pool work schedule e1 = Some (inner, e2))"
proof (cases "validateMaintainedAcquiredGrant key vi grant (acquire_step (wait = JBool True))")
  case (Inl err)
  with run assms(1-3) show ?thesis
    by (intro exI [of _ "Inl err"] exI [of _ e1])
      (auto simp: withMaintainedXactLock_def validateMaintainedAcquiredGrant_def)
next
  case (Inr u)
  with run assms(1-3) obtain inner e2 where
    "runMaintainedTransaction fuel pf key (wait = JBool True) vi lease grant pool work schedule e1 = Some (inner, e2)"
    "(r, e') = settle key lease (grant_object grant) inner e2"
    by (auto simp: withMaintainedXactLock_def split: option.splits)
  with Inr show ?thesis
    by (intro exI [of _ inner] exI [of _ e2]) (auto simp: validateMaintainedAcquiredGrant_def)
qed

section \<open>Properties\<close>


text \<open>
  C5: a maintained run that acquired a well-formed grant releases exactly that grant, exactly once,
  as its very last call, whatever happened in between. The transaction is only started when the
  grant has the requested TTL and holder. A value is returned only if the release matched and the
  work returned that value under the grant; this needs a database client that does not refuse
  \<open>BEGIN\<close> with the value \<open>undefined\<close>.
\<close>

theorem withMaintainedXactLock_releases:
  assumes "validatedInputs key acquire maintenance wait = Inr vi"
    and "acquireLease key (wait = JBool True) (inputs_options vi) lease e = (Inr raw, e1)"
    and "snapshotAuthorityGrant key raw (acquire_step (wait = JBool True)) Transport = Inr grant"
    and "withMaintainedXactLock fuel pf key wait acquire maintenance lease pool work schedule e = Some (r, e')"
    and "\<And>client w. fst (client_query pool client BEGIN w) \<noteq> Inl Thrown_undefined"
  shows "(\<exists>calls. env_trace e' = env_trace e @ Ev_step (acquire_step (wait = JBool True)) # calls @ [Ev_step Fiducia_release] \<and>
      (calls = [] \<and> \<not> is_ok r \<or> maintained_shape (wait = JBool True) (is_ok r) calls)) \<and>
    (\<exists>w. env_world e' = snd (lease_release lease (grant_object grant) w) \<and>
      (is_ok r \<longrightarrow> fst (lease_release lease (grant_object grant) w) = Inr True)) \<and>
    (\<forall>x. r = Inr x \<longrightarrow> (\<exists>v guard w w'. x = Some v \<and> mg_grant guard = grant \<and> work guard w = (Inr v, w')))"
proof -
  obtain inner e2 where s: "(r, e') = settle key lease (grant_object grant) inner e2"
    and i: "inner = Inl (lost_lease key (Some (acquire_step (wait = JBool True)))) \<and> e2 = e1 \<or>
      runMaintainedTransaction fuel pf key (wait = JBool True) vi lease grant pool work schedule e1 = Some (inner, e2)"
    using withMaintainedXactLock_held [OF assms(1-4)] by blast
  have e1: "env_trace e1 = env_trace e @ [Ev_step (acquire_step (wait = JBool True))]"
    using assms(2) by (auto simp: acquireLease_apply)
  have e': "env_trace e' = env_trace e2 @ [Ev_step Fiducia_release]"
    "env_world e' = snd (lease_release lease (grant_object grant) (env_world e2))"
    "r = settle_result key (fst (lease_release lease (grant_object grant) (env_world e2))) inner"
    using s by (auto simp: settle_apply)
  have ok: "r = Inr x \<Longrightarrow> fst (lease_release lease (grant_object grant) (env_world e2)) = Inr True \<and> inner = Inr x" for x
    using e'(3) by (simp add: settle_result_ok_iff)
  have rel: "\<exists>w. env_world e' = snd (lease_release lease (grant_object grant) w) \<and>
      (is_ok r \<longrightarrow> fst (lease_release lease (grant_object grant) w) = Inr True)"
    using e'(2) ok by (auto simp: is_ok_iff)
  from i show ?thesis
  proof
    assume lost: "inner = Inl (lost_lease key (Some (acquire_step (wait = JBool True)))) \<and> e2 = e1"
    then have "\<not> is_ok r" using ok by (auto simp: is_ok_iff)
    with lost e' e1 rel show ?thesis by auto
  next
    assume "runMaintainedTransaction fuel pf key (wait = JBool True) vi lease grant pool work schedule e1 = Some (inner, e2)"
    from runMaintainedTransaction_facts [OF this] obtain calls where calls:
      "env_trace e2 = env_trace e1 @ calls" "maintained_shape (wait = JBool True) (is_ok inner) calls"
      "\<forall>result. inner = Inr result \<longrightarrow> work_returned pool grant work result" by blast
    have "maintained_shape (wait = JBool True) (is_ok r) calls"
      using calls(2) ok by (cases r) (auto simp: maintained_shape_def)
    moreover have "\<forall>x. r = Inr x \<longrightarrow> (\<exists>v guard w w'. x = Some v \<and> mg_grant guard = grant \<and> work guard w = (Inr v, w'))"
      using ok calls(3) assms(5) by (auto simp: work_returned_def)
    ultimately show ?thesis using e' e1 calls(1) rel by auto
  qed
qed

text \<open>
  C6: a maintained run ends. With a clock that never goes back over a renewal or a query and that a
  sleep of at least a millisecond advances, the wait for the advisory lock takes at most
  \<open>waitTimeoutMs + 1\<close> turns, so the run returns for every input, schedule and answer of the
  authority and the database.
\<close>

theorem withMaintainedXactLock_ends:
  assumes "clock_ok pf lease pool"
    and "\<And>vi. validatedInputs key acquire maintenance wait = Inr vi \<Longrightarrow> nat (vi_waitTimeoutMs vi) < fuel"
  shows "\<exists>r e'. withMaintainedXactLock fuel pf key wait acquire maintenance lease pool work schedule e = Some (r, e')"
proof (cases "validatedInputs key acquire maintenance wait")
  case (Inr vi)
  have some: "\<exists>x. runMaintainedTransaction fuel pf key (wait = JBool True) vi lease grant pool work schedule e1 = Some x" for grant e1
    by (rule runMaintainedTransaction_ends) (use assms Inr validatedInputs_bounds [OF Inr] in auto)
  show ?thesis
  proof (cases "withMaintainedXactLock fuel pf key wait acquire maintenance lease pool work schedule e")
    case None
    with Inr have "\<exists>grant e1. runMaintainedTransaction fuel pf key (wait = JBool True) vi lease grant pool work schedule e1 = None"
      by (auto simp: withMaintainedXactLock_def Let_def split: prod.splits sum.splits option.splits)
    then obtain grant e1 where
      "runMaintainedTransaction fuel pf key (wait = JBool True) vi lease grant pool work schedule e1 = None" by blast
    with some [of grant e1] show ?thesis by simp
  next
    case (Some x)
    then show ?thesis by (cases x) simp
  qed
qed (simp add: withMaintainedXactLock_def)

text \<open>
  C31: options that are accepted are within their bounds: a positive TTL of at most the maximum, a
  positive renewal interval of at most half the TTL, a non-negative wait budget, a positive retry
  interval when the run waits, and no empty holder.
\<close>

theorem validatedInputs_bounded:
  assumes "validatedInputs key acquire maintenance wait = Inr vi"
  shows "0 < vi_ttlMs vi \<and> vi_ttlMs vi \<le> MAX_RENEWAL_TTL_MS \<and> 0 < vi_renewIntervalMs vi \<and>
    2 * vi_renewIntervalMs vi \<le> vi_ttlMs vi \<and> 0 \<le> vi_waitTimeoutMs vi \<and> 0 \<le> vi_retryIntervalMs vi \<and>
    (wait = JBool True \<longrightarrow> 1 \<le> vi_retryIntervalMs vi) \<and> vi_holder vi \<noteq> Some []"
  by (rule validatedInputs_bounds [OF assms])


text \<open>A world that is its own clock: every call takes a millisecond and succeeds.\<close>

definition clock_lease :: "(int, js_value) lease" where
  "clock_lease = \<lparr>lease_acquire = (\<lambda>key opts wait w. (Inr (grant_object \<lparr>lg_key = key, lg_holder = js ''h'',
       lg_fencingToken = 7, lg_leaseExpiresMs = None, lg_ttlMs = 1000\<rparr>), w + 1)),
     lease_renew = (\<lambda>g ttl w. (Inr g, w + 1)), lease_release = (\<lambda>g w. (Inr True, w + 1))\<rparr>"

definition clock_pool :: "(int, unit) pg_pool" where
  "clock_pool = \<lparr>pool_connect = (\<lambda>w. (Inr (), w + 1)),
     client_query = (\<lambda>_ _ w. (Inr [[(js ''r'', JBool True)]], w + 1)),
     client_release = (\<lambda>_ _ w. (Inr (), w + 1))\<rparr>"

definition clock_platform :: "int platform" where
  "clock_platform = \<lparr>pf_now = (\<lambda>w. w), pf_sleep = (\<lambda>ms w. w + ms)\<rparr>"

definition sample_acquire :: js_value where
  "sample_acquire = object_literal [(''ttlMs'', JNumber (NInt 1000)), (''waitTimeoutMs'', JNumber (NInt 3)),
     (''retryIntervalMs'', JNumber (NInt 2))]"

definition sample_maintenance :: js_value where
  "sample_maintenance = object_literal [(''renewIntervalMs'', JNumber (NInt 500))]"

abbreviation clock_env :: "int lock_env" where
  "clock_env \<equiv> \<lparr>env_world = 0, env_trace = []\<rparr>"

abbreviation sample_maintained_run :: "((thrown + nat option) \<times> int lock_env) option" where
  "sample_maintained_run \<equiv> withMaintainedXactLock 5 clock_platform (js ''k'') (JBool True) sample_acquire sample_maintenance
     clock_lease clock_pool (\<lambda>_ w. (Inr 9, w)) [0, 1, 0, 0, 2] clock_env"

abbreviation sample_grant :: lease_grant where
  "sample_grant \<equiv> \<lparr>lg_key = js ''k'', lg_holder = js ''h'', lg_fencingToken = 7, lg_leaseExpiresMs = None, lg_ttlMs = 1000\<rparr>"

abbreviation sample_inputs :: validated_inputs where
  "sample_inputs \<equiv> \<lparr>vi_ttlMs = 1000, vi_waitTimeoutMs = 3, vi_retryIntervalMs = 2, vi_holder = None, vi_renewIntervalMs = 500\<rparr>"

lemma sample_validated: "validatedInputs (js ''k'') sample_acquire sample_maintenance (JBool True) = Inr sample_inputs"
  by code_simp

lemma sample_snapshot: "snapshotAuthorityGrant (js ''k'') (grant_object sample_grant) Fiducia_acquire Transport = Inr sample_grant"
  by code_simp

lemma sample_checked: "checked_renewal sample_grant 1000 (grant_object sample_grant) = Inr sample_grant"
  by code_simp

lemmas maintained_eval =
  runMaintainedTransaction_def awaiting_def interleave_def renewChecked_apply sample_checked transaction_part_def
  acquireMaintainedXactLock_def tryXactLock_def firstBool_def settle_authority_def stop_def finish_transaction_def
  clock_lease_def clock_pool_def clock_platform_def eval_nat_numeral

lemma sample_transaction:
  "runMaintainedTransaction 5 clock_platform (js ''k'') True sample_inputs clock_lease sample_grant clock_pool
     (\<lambda>_ w. (Inr (9 :: nat), w)) [0, 1, 0, 0, 2] \<lparr>env_world = 1, env_trace = [Ev_step Fiducia_acquire]\<rparr> =
   Some (Inr (Some 9), \<lparr>env_world = 10, env_trace = [Ev_step Fiducia_acquire, Ev_connect] @
     map Ev_step [Fiducia_renew, Pg_begin, Fiducia_renew, Fiducia_renew, Pg_advisory_xact_lock, Work,
        Fiducia_renew, Pg_commit] @ [Ev_client_release False]\<rparr>)"
  by (simp add: maintained_eval st_flow Let_def xact_lock_step_def)

lemma sample_acquired:
  "acquireLease (js ''k'') (JBool True = JBool True) (inputs_options sample_inputs) clock_lease clock_env =
     (Inr (grant_object sample_grant), \<lparr>env_world = 1, env_trace = [Ev_step Fiducia_acquire]\<rparr>)"
  by (simp add: acquireLease_apply clock_lease_def acquire_step_def)

lemma sample_maintained_result:
  "sample_maintained_run = Some (Inr (Some 9), \<lparr>env_world = 11, env_trace = [Ev_step Fiducia_acquire, Ev_connect] @
     map Ev_step [Fiducia_renew, Pg_begin, Fiducia_renew, Fiducia_renew, Pg_advisory_xact_lock, Work,
        Fiducia_renew, Pg_commit] @ [Ev_client_release False] @ [Ev_step Fiducia_release]\<rparr>)"
proof -
  have "validateMaintainedAcquiredGrant (js ''k'') sample_inputs sample_grant Fiducia_acquire = Inr ()"
    by (simp add: validateMaintainedAcquiredGrant_def)
  with sample_acquired sample_transaction show ?thesis
    by (simp add: withMaintainedXactLock_def sample_validated sample_snapshot acquire_step_def settle_apply
        settle_result_def clock_lease_def)
qed


theorem withMaintainedXactLock_releases_witness:
  "\<exists>e' guard w w'. sample_maintained_run = Some (Inr (Some 9), e') \<and> mg_grant guard = sample_grant \<and>
     (\<lambda>(_ :: unit maintained_guarded) w. (Inr 9 :: thrown + nat, w)) guard w = (Inr 9, w' :: int)"
proof -
  have "fst (client_query clock_pool client BEGIN w) \<noteq> Inl Thrown_undefined" for client w by (simp add: clock_pool_def)
  from withMaintainedXactLock_releases [OF sample_validated sample_acquired _ sample_maintained_result this] sample_snapshot
  have "\<exists>v (guard :: unit maintained_guarded) w w'. Some 9 = Some (v :: nat) \<and> mg_grant guard = sample_grant \<and>
    (Inr 9 :: thrown + nat, w) = (Inr v, w' :: int)" by (simp add: acquire_step_def)
  with sample_maintained_result show ?thesis by auto
qed

theorem withMaintainedXactLock_ends_witness: "\<exists>r e'. sample_maintained_run = Some (r, e')"
  by (rule withMaintainedXactLock_ends)
    (simp_all add: sample_validated clock_ok_def clock_platform_def clock_lease_def clock_pool_def)

theorem validatedInputs_bounded_witness: "2 * vi_renewIntervalMs sample_inputs \<le> vi_ttlMs sample_inputs"
  using validatedInputs_bounded [OF sample_validated] by simp

text \<open>
  A client that refuses \<open>BEGIN\<close> with \<open>undefined\<close>: the code takes the refusal for "no error", sends
  \<open>COMMIT\<close> and returns without having run the work.
\<close>

definition undefined_pool :: "(int, unit) pg_pool" where
  "undefined_pool = clock_pool\<lparr>client_query := (\<lambda>_ sql w. if sql = BEGIN then (Inl Thrown_undefined, w + 1) else (Inr [], w + 1))\<rparr>"

lemma maintained_begin_undefined:
  "runMaintainedTransaction 5 clock_platform (js ''k'') True sample_inputs clock_lease sample_grant undefined_pool
     (\<lambda>_ w. (Inr (9 :: nat), w)) [] clock_env =
   Some (Inr None, \<lparr>env_world = 5, env_trace = [Ev_connect, Ev_step Pg_begin, Ev_step Fiducia_renew, Ev_step Pg_commit,
     Ev_client_release False]\<rparr>)"
  by (simp add: maintained_eval undefined_pool_def st_flow Let_def as_inner_def)

end
