(* ===== verification/File_Programs.thy ===== *)
theory File_Programs
  imports Js_Values Prelude
begin

text \<open>
  Programs over a file system. The local file lock is a sequence of calls of \<open>node:fs\<close> with
  other processes running between any two of them, so its operations are programs: trees whose
  inner nodes are calls and whose branches are the answers. \<open>run\<close> executes a program alone on a
  file system given as a step function; \<open>interleaved\<close> is the step relation of several processes
  on one file system. \<open>wp\<close> checks a program against a protocol: which calls are allowed in which
  ghost state. The locale \<open>exclusive_directory\<close> states what the lock needs of a file system and
  derives mutual exclusion for every protocol-abiding program.
\<close>

section \<open>Calls, answers, errors\<close>

text \<open>Places relative to one lock path: its parent, the lock directory, the entries in it.\<close>

datatype fs_place = Parent | Lock | Entry js_string

datatype node_kind = Directory_kind | File_kind | Symlink_kind | Other_kind

record metadata =
  md_kind :: node_kind
  md_mode :: "32 word"
  md_nlink :: int
  md_size :: int
  md_dev :: int
  md_ino :: int
  md_birthtimeMs :: int

datatype fs_call =
    Mkdir fs_place
  | Mkdir_recursive fs_place
  | Lstat fs_place
  | Open_exclusive fs_place
  | Open_read fs_place
  | Write_file nat "byte list"
  | Sync nat
  | Close nat
  | Fstat nat
  | Read_at nat nat nat
  | Rename fs_place fs_place
  | Unlink fs_place
  | Rmdir fs_place
  | Opendir fs_place
  | Read_entry nat
  | Close_dir nat
  | Now
  | Sleep rat
  | Critical

text \<open>\<open>Critical\<close> marks a point inside the caller's work; it does nothing to the file system.\<close>

datatype fs_error = Fs_error (fe_code: "string option") (fe_message: string)

datatype fs_answer =
    Ok_answer
  | Failed fs_error
  | Stat_answer metadata
  | Handle_answer nat
  | Bytes_answer "byte list"
  | Entry_answer "js_string option"
  | Time_answer rat

fun failed :: "fs_answer \<Rightarrow> bool" where
  "failed (Failed _) = True"
| "failed _ = False"

datatype local_kind = LContention | LTimeout | LCompromised | LIo | LInvalid_input

datatype scoped_kind = Scoped_lock | Scoped_work | Scoped_work_and_release

text \<open>
  What the code throws: a \<open>LocalFileLockError\<close> (its path is always the lock path), an error of the
  file system, the simulated crash, a scoped error, or a value thrown by the caller's work.
\<close>

datatype local_thrown =
    Local_error local_kind string "local_thrown option"
  | Primary_and_rollback local_thrown local_thrown
  | Fs_thrown fs_error
  | Test_crash string
  | Scoped_error scoped_kind "local_thrown option" "local_thrown option"
  | Work_value nat
  | Undefined_value

section \<open>Programs\<close>

datatype 'a prog = Return 'a | Throw local_thrown | Call fs_call "fs_answer \<Rightarrow> 'a prog"

primrec bind_prog :: "'a prog \<Rightarrow> ('a \<Rightarrow> 'b prog) \<Rightarrow> 'b prog" where
  "bind_prog (Return a) f = f a"
| "bind_prog (Throw e) f = Throw e"
| "bind_prog (Call c k) f = Call c (\<lambda>x. bind_prog (k x) f)"

primrec catch_prog :: "'a prog \<Rightarrow> (local_thrown \<Rightarrow> 'a prog) \<Rightarrow> 'a prog" where
  "catch_prog (Return a) h = Return a"
| "catch_prog (Throw e) h = h e"
| "catch_prog (Call c k) h = Call c (\<lambda>x. catch_prog (k x) h)"

definition settle_prog :: "'a prog \<Rightarrow> (local_thrown + 'a) prog" where
  "settle_prog p = catch_prog (bind_prog p (\<lambda>a. Return (Inr a))) (\<lambda>e. Return (Inl e))"

definition lift_prog :: "local_thrown + 'a \<Rightarrow> 'a prog" where
  "lift_prog r = (case r of Inl e \<Rightarrow> Throw e | Inr a \<Rightarrow> Return a)"

text \<open>\<open>try p finally c\<close>: what \<open>c\<close> throws replaces the outcome of \<open>p\<close>.\<close>

definition finally_prog :: "'a prog \<Rightarrow> unit prog \<Rightarrow> 'a prog" where
  "finally_prog p c = bind_prog (settle_prog p) (\<lambda>r. bind_prog c (\<lambda>_. lift_prog r))"

definition when_prog :: "bool \<Rightarrow> unit prog \<Rightarrow> unit prog" where
  "when_prog b p = (if b then p else Return ())"

text \<open>One awaited call: a failure is thrown; an answer of another shape does not occur.\<close>

definition bad_answer :: local_thrown where
  "bad_answer = Fs_thrown (Fs_error None ''unexpected answer'')"

definition await_call :: "fs_call \<Rightarrow> (fs_answer \<Rightarrow> 'a option) \<Rightarrow> 'a prog" where
  "await_call c sel = Call c (\<lambda>x. case x of
     Failed e \<Rightarrow> Throw (Fs_thrown e)
   | _ \<Rightarrow> (case sel x of None \<Rightarrow> Throw bad_answer | Some a \<Rightarrow> Return a))"

definition do_call :: "fs_call \<Rightarrow> unit prog" where
  "do_call c = await_call c (\<lambda>_. Some ())"

definition lstat :: "fs_place \<Rightarrow> metadata prog" where
  "lstat p = await_call (Lstat p) (\<lambda>x. case x of Stat_answer md \<Rightarrow> Some md | _ \<Rightarrow> None)"

definition fstat :: "nat \<Rightarrow> metadata prog" where
  "fstat h = await_call (Fstat h) (\<lambda>x. case x of Stat_answer md \<Rightarrow> Some md | _ \<Rightarrow> None)"

definition handle_of :: "fs_call \<Rightarrow> nat prog" where
  "handle_of c = await_call c (\<lambda>x. case x of Handle_answer h \<Rightarrow> Some h | _ \<Rightarrow> None)"

definition next_entry :: "nat \<Rightarrow> js_string option prog" where
  "next_entry d = await_call (Read_entry d) (\<lambda>x. case x of Entry_answer n \<Rightarrow> Some n | _ \<Rightarrow> None)"

definition read_bytes :: "nat \<Rightarrow> nat \<Rightarrow> nat \<Rightarrow> byte list prog" where
  "read_bytes h len pos = await_call (Read_at h len pos) (\<lambda>x. case x of Bytes_answer bs \<Rightarrow> Some bs | _ \<Rightarrow> None)"

definition clock_now :: "rat prog" where
  "clock_now = await_call Now (\<lambda>x. case x of Time_answer t \<Rightarrow> Some t | _ \<Rightarrow> None)"

section \<open>Execution\<close>

primrec run :: "(fs_call \<Rightarrow> 's \<Rightarrow> fs_answer \<times> 's) \<Rightarrow> 'a prog \<Rightarrow> 's \<Rightarrow> (local_thrown + 'a) \<times> 's" where
  "run step (Return a) s = (Inr a, s)"
| "run step (Throw e) s = (Inl e, s)"
| "run step (Call c k) s = run step (k (fst (step c s))) (snd (step c s))"

record ('s, 'a) system =
  sys_files :: 's
  sys_procs :: "nat \<Rightarrow> 'a prog"

inductive interleaved ::
  "(fs_call \<Rightarrow> 's \<Rightarrow> fs_answer \<Rightarrow> 's \<Rightarrow> bool) \<Rightarrow> ('s, 'a) system \<Rightarrow> ('s, 'a) system \<Rightarrow> bool"
  for answers :: "fs_call \<Rightarrow> 's \<Rightarrow> fs_answer \<Rightarrow> 's \<Rightarrow> bool" where
  call: "sys_procs s i = Call c k \<Longrightarrow> answers c (sys_files s) x f \<Longrightarrow>
    interleaved answers s (s\<lparr>sys_files := f, sys_procs := (sys_procs s)(i := k x)\<rparr>)"

section \<open>Protocols\<close>

text \<open>
  \<open>wp allowed next Q E p g\<close>: from ghost state \<open>g\<close> every call of \<open>p\<close> is allowed where it is made,
  whatever the answers, and \<open>p\<close> ends in \<open>Q\<close> or throws in \<open>E\<close>.
\<close>

primrec wp ::
  "('g \<Rightarrow> fs_call \<Rightarrow> bool) \<Rightarrow> ('g \<Rightarrow> fs_call \<Rightarrow> fs_answer \<Rightarrow> 'g) \<Rightarrow> ('g \<Rightarrow> 'a \<Rightarrow> bool) \<Rightarrow> ('g \<Rightarrow> local_thrown \<Rightarrow> bool) \<Rightarrow>
   'a prog \<Rightarrow> 'g \<Rightarrow> bool" where
  "wp allowed nxt Q E (Return a) g = Q g a"
| "wp allowed nxt Q E (Throw e) g = E g e"
| "wp allowed nxt Q E (Call c k) g = (allowed g c \<and> (\<forall>x. wp allowed nxt Q E (k x) (nxt g c x)))"

lemma wp_bind: "wp allowed nxt Q E (bind_prog p f) g = wp allowed nxt (\<lambda>g a. wp allowed nxt Q E (f a) g) E p g"
  by (induction p arbitrary: g) simp_all

lemma wp_catch: "wp allowed nxt Q E (catch_prog p h) g = wp allowed nxt Q (\<lambda>g e. wp allowed nxt Q E (h e) g) p g"
  by (induction p arbitrary: g) simp_all

lemma wp_mono:
  assumes "wp allowed nxt Q E p g" and "\<And>g a. Q g a \<Longrightarrow> Q' g a" and "\<And>g e. E g e \<Longrightarrow> E' g e"
  shows "wp allowed nxt Q' E' p g"
  using assms(1) by (induction p arbitrary: g) (auto intro: assms(2,3))

lemma wp_settle:
  "wp allowed nxt Q E (settle_prog p) g = wp allowed nxt (\<lambda>g a. Q g (Inr a)) (\<lambda>g e. Q g (Inl e)) p g"
  by (simp add: settle_prog_def wp_catch wp_bind)

lemma wp_lift: "wp allowed nxt Q E (lift_prog r) g = (case r of Inl e \<Rightarrow> E g e | Inr a \<Rightarrow> Q g a)"
  by (simp add: lift_prog_def split: sum.split)

lemma wp_finally:
  "wp allowed nxt Q E (finally_prog p c) g =
     wp allowed nxt (\<lambda>g a. wp allowed nxt (\<lambda>g _. Q g a) E c g) (\<lambda>g e. wp allowed nxt (\<lambda>g _. E g e) E c g) p g"
  by (simp add: finally_prog_def wp_bind wp_settle wp_lift)

lemma wp_when: "wp allowed nxt Q E (when_prog b p) g = (if b then wp allowed nxt Q E p g else Q g ())"
  by (simp add: when_prog_def)

lemmas wp_flow = wp_bind wp_catch wp_settle wp_lift wp_finally wp_when

text \<open>Programs all of whose calls are of a given set.\<close>

primrec only_calls :: "(fs_call \<Rightarrow> bool) \<Rightarrow> 'a prog \<Rightarrow> bool" where
  "only_calls P (Return a) = True"
| "only_calls P (Throw e) = True"
| "only_calls P (Call c k) = (P c \<and> (\<forall>x. only_calls P (k x)))"

named_theorems quiet \<open>which calls the parts of a program make\<close>

lemma only_calls_bind [quiet]: "only_calls P p \<Longrightarrow> (\<And>a. only_calls P (f a)) \<Longrightarrow> only_calls P (bind_prog p f)"
  by (induction p) simp_all

lemma only_calls_catch [quiet]: "only_calls P p \<Longrightarrow> (\<And>e. only_calls P (h e)) \<Longrightarrow> only_calls P (catch_prog p h)"
  by (induction p) simp_all

lemma only_calls_lift [quiet]: "only_calls P (lift_prog r)"
  by (simp add: lift_prog_def split: sum.split)

lemma only_calls_settle [quiet]: "only_calls P p \<Longrightarrow> only_calls P (settle_prog p)"
  unfolding settle_prog_def by (intro quiet) simp_all

lemma only_calls_finally [quiet]: "only_calls P p \<Longrightarrow> only_calls P c \<Longrightarrow> only_calls P (finally_prog p c)"
  unfolding finally_prog_def by (intro quiet)

lemma only_calls_when [quiet]: "only_calls P p \<Longrightarrow> only_calls P (when_prog b p)"
  by (simp add: when_prog_def)

lemma only_calls_leaf [quiet, simp]: "only_calls P (Return a)" "only_calls P (Throw e)"
  by simp_all

lemma only_calls_await [quiet]: "P c \<Longrightarrow> only_calls P (await_call c sel)"
  by (simp add: await_call_def split: fs_answer.split option.split)

lemma only_calls_if [quiet]: "only_calls P p \<Longrightarrow> only_calls P q \<Longrightarrow> only_calls P (if b then p else q)"
  by simp

text \<open>A program of calls that the protocol allows and that do not move the ghost state.\<close>

lemma wp_only_calls:
  assumes "only_calls P p" and "\<And>c. P c \<Longrightarrow> allowed g c" and "\<And>c x. P c \<Longrightarrow> nxt g c x = g"
    and "\<And>a. Q g a" and "\<And>e. E g e"
  shows "wp allowed nxt Q E p g"
  using assms(1) by (induction p) (simp_all add: assms(2-5))

lemma run_bind:
  "run step (bind_prog p f) s = (case run step p s of (Inl e, t) \<Rightarrow> (Inl e, t) | (Inr a, t) \<Rightarrow> run step (f a) t)"
  by (induction p arbitrary: s) simp_all

lemma run_catch:
  "run step (catch_prog p h) s = (case run step p s of (Inl e, t) \<Rightarrow> run step (h e) t | (Inr a, t) \<Rightarrow> (Inr a, t))"
  by (induction p arbitrary: s) simp_all

lemma run_settle: "run step (settle_prog p) s = (case run step p s of (r, t) \<Rightarrow> (Inr r, t))"
  by (simp add: settle_prog_def run_catch run_bind split: prod.split sum.split)

lemma run_lift: "run step (lift_prog r) s = (r, s)"
  by (simp add: lift_prog_def split: sum.split)

lemma run_finally:
  "run step (finally_prog p c) s = (case run step p s of (r, t) \<Rightarrow>
     (case run step c t of (Inl e, u) \<Rightarrow> (Inl e, u) | (Inr _, u) \<Rightarrow> (r, u)))"
  by (simp add: finally_prog_def run_bind run_settle run_lift split: prod.split sum.split)

lemma run_when: "run step (when_prog b p) s = (if b then run step p s else (Inr (), s))"
  by (simp add: when_prog_def)

lemmas run_flow = run_bind run_catch run_settle run_lift run_finally run_when

text \<open>A program run alone only sees the calls it is allowed to make.\<close>

lemma run_invariant:
  assumes "only_calls P p" and "\<And>c s. P c \<Longrightarrow> I s \<Longrightarrow> I (snd (step c s))" and "I s"
  shows "I (snd (run step p s))"
  using assms(1,3) by (induction p arbitrary: s) (simp_all add: assms(2))

section \<open>Exclusive directories\<close>

text \<open>
  The ownership protocol of the lock: creating the directory makes the caller its owner, removing
  it ends that; entries are created, moved and deleted, and the critical section is entered, only
  by the owner.
\<close>

fun owner_call :: "fs_call \<Rightarrow> bool" where
  "owner_call (Rmdir p) = True"
| "owner_call (Unlink p) = True"
| "owner_call (Rename p q) = True"
| "owner_call (Open_exclusive p) = True"
| "owner_call (Write_file h bs) = True"
| "owner_call Critical = True"
| "owner_call _ = False"

definition own_allowed :: "bool \<Rightarrow> fs_call \<Rightarrow> bool" where
  "own_allowed g c = ((owner_call c \<longrightarrow> g) \<and> (c = Mkdir Lock \<longrightarrow> \<not> g) \<and> (\<forall>p. c = Rmdir p \<longrightarrow> p = Lock))"

definition own_next :: "bool \<Rightarrow> fs_call \<Rightarrow> fs_answer \<Rightarrow> bool" where
  "own_next g c x = (if failed x then g else if c = Mkdir Lock then True else if c = Rmdir Lock then False else g)"

abbreviation owned_wp :: "(bool \<Rightarrow> 'a \<Rightarrow> bool) \<Rightarrow> (bool \<Rightarrow> local_thrown \<Rightarrow> bool) \<Rightarrow> 'a prog \<Rightarrow> bool \<Rightarrow> bool" where
  "owned_wp \<equiv> wp own_allowed own_next"

definition at_critical :: "('s, 'a) system \<Rightarrow> nat \<Rightarrow> bool" where
  "at_critical s i \<longleftrightarrow> (\<exists>k. sys_procs s i = Call Critical k)"

locale exclusive_directory =
  fixes answers :: "fs_call \<Rightarrow> 's \<Rightarrow> fs_answer \<Rightarrow> 's \<Rightarrow> bool"
    and present :: "'s \<Rightarrow> bool"
  assumes mkdir_ok: "answers (Mkdir Lock) s x t \<Longrightarrow> \<not> failed x \<Longrightarrow> \<not> present s \<and> present t"
    and call_failed: "answers c s x t \<Longrightarrow> failed x \<Longrightarrow> present t = present s"
    and rmdir_ok: "answers (Rmdir Lock) s x t \<Longrightarrow> \<not> failed x \<Longrightarrow> \<not> present t"
    and other_call: "answers c s x t \<Longrightarrow> c \<noteq> Mkdir Lock \<Longrightarrow> c \<noteq> Rmdir Lock \<Longrightarrow> present t = present s"
begin

definition owned_by :: "('s, 'a) system \<Rightarrow> nat option \<Rightarrow> bool" where
  "owned_by s own \<longleftrightarrow> (own \<noteq> None \<longrightarrow> present (sys_files s)) \<and>
     (\<forall>i. owned_wp (\<lambda>_ _. True) (\<lambda>_ _. True) (sys_procs s i) (own = Some i))"

lemma owned_step:
  assumes "interleaved answers s t" and "owned_by s own"
  shows "\<exists>own'. owned_by t own'"
  using assms(1)
proof (cases rule: interleaved.cases)
  case (call i c k x f)
  have ok: "own_allowed (own = Some i) c"
    and ki: "owned_wp (\<lambda>_ _. True) (\<lambda>_ _. True) (k x) (own_next (own = Some i) c x)"
    using assms(2) call(2) by (auto simp: owned_by_def dest!: spec [of _ i])
  have others: "owned_wp (\<lambda>_ _. True) (\<lambda>_ _. True) (sys_procs s j) (own = Some j)" for j
    using assms(2) by (simp add: owned_by_def)
  define own' where "own' = (if failed x then own else if c = Mkdir Lock then Some i
     else if c = Rmdir Lock then None else own)"
  have mk: "own = None" if "c = Mkdir Lock" "\<not> failed x"
    using mkdir_ok call(3) that assms(2) by (auto simp: owned_by_def)
  have rm: "own = Some i" if "c = Rmdir Lock" using ok that by (simp add: own_allowed_def)
  have "(own' = Some i) = own_next (own = Some i) c x" by (auto simp: own'_def own_next_def)
  moreover have "(own' = Some j) = (own = Some j)" if "j \<noteq> i" for j
    using that mk rm by (auto simp: own'_def)
  moreover have "own' \<noteq> None \<longrightarrow> present f"
    using call(3) mkdir_ok call_failed other_call assms(2) by (auto simp: own'_def owned_by_def split: if_splits)
  ultimately have "owned_by t own'"
    using ki others by (simp add: owned_by_def call(1))
  then show ?thesis by blast
qed

text \<open>A program that runs alone: it owns the directory exactly when the directory is there.\<close>

lemma run_alone:
  assumes "owned_wp Q E p (present s)" and "\<And>c s. answers c s (fst (step c s)) (snd (step c s))"
  shows "case run step p s of (Inr a, t) \<Rightarrow> Q (present t) a | (Inl e, t) \<Rightarrow> E (present t) e"
  using assms(1)
proof (induction p arbitrary: s)
  case (Call c k)
  define x t where "x = fst (step c s)" and "t = snd (step c s)"
  have ans: "answers c s x t" by (simp add: x_def t_def assms(2))
  have "own_next (present s) c x = present t"
    using ans mkdir_ok [of s x t] call_failed [of c s x t] rmdir_ok [of s x t] other_call [of c s x t]
    by (auto simp: own_next_def)
  moreover have "owned_wp Q E (k x) (own_next (present s) c x)" using Call.prems by simp
  ultimately show ?case using Call.IH [of "k x" t] by (simp add: x_def t_def)
qed simp_all

text \<open>At most one process is in its critical section, in every reachable state.\<close>

lemma mutual_exclusion:
  assumes "\<And>i. owned_wp (\<lambda>_ _. True) (\<lambda>_ _. True) (sys_procs s0 i) False"
    and "reachable_from (interleaved answers) s0 s"
    and "at_critical s i" and "at_critical s j"
  shows "i = j"
proof -
  have "\<exists>own. owned_by s own"
    using assms(2)
  proof (rule reachable_invariant)
    show "\<exists>own. owned_by s0 own" using assms(1) by (auto simp: owned_by_def intro: exI [of _ None])
  qed (blast dest: owned_step)
  then obtain own where own: "owned_by s own" by blast
  have "own = Some k" if "at_critical s k" for k
    using own that by (auto simp: owned_by_def at_critical_def own_allowed_def dest!: spec [of _ k])
  from this [OF assms(3)] this [OF assms(4)] show ?thesis by simp
qed

end

end
