(* ===== verification/Local_File.thy ===== *)
theory Local_File
  imports File_Programs
begin

unbundle bit_operations_syntax

text \<open>
  \<open>src/ts/src/local-file.ts\<close>, \<open>local-file-scoped.ts\<close> and \<open>local-file-test-faults.ts\<close>: a lock that is a
  private directory holding one owner marker. Every operation is a program over the file system
  (theory \<open>File_Programs\<close>), with the calls in the order the source makes them. The platform and the
  configured test faults are arguments. Messages are those of the source, because the recovery
  code looks into them; the number of a timeout message is left out. Two overlapping calls of
  \<open>release\<close> on one handle share a promise in the source; here a handle is released by one call at a
  time. Times are rationals, as \<open>performance.now()\<close> is not an integer.
\<close>

section \<open>Definitions\<close>

subsection \<open>Platform and test faults\<close>

record local_config =
  cf_win32 :: bool
  cf_faults :: "string list"

definition set_local_file_test_faults :: "string list \<Rightarrow> local_config \<Rightarrow> local_config" where
  "set_local_file_test_faults points cf = cf\<lparr>cf_faults := points\<rparr>"

definition clear_local_file_test_faults :: "local_config \<Rightarrow> local_config" where
  "clear_local_file_test_faults cf = cf\<lparr>cf_faults := []\<rparr>"

definition local_file_test_fault_enabled :: "local_config \<Rightarrow> string \<Rightarrow> bool" where
  "local_file_test_fault_enabled cf point = (point \<in> set (cf_faults cf))"

definition maybe_inject_local_file_test_fault :: "local_config \<Rightarrow> string \<Rightarrow> string \<Rightarrow> unit prog" where
  "maybe_inject_local_file_test_fault cf point code =
     (if \<not> local_file_test_fault_enabled cf point then Return ()
      else Throw (Fs_thrown (Fs_error (Some code) (''injected local-file fault at '' @ point))))"

definition maybe_simulate_local_file_test_crash :: "local_config \<Rightarrow> string \<Rightarrow> unit prog" where
  "maybe_simulate_local_file_test_crash cf point =
     (if local_file_test_fault_enabled cf point then Throw (Test_crash point) else Return ())"

fun is_local_file_test_crash :: "local_thrown \<Rightarrow> bool" where
  "is_local_file_test_crash (Test_crash _) = True"
| "is_local_file_test_crash _ = False"

subsection \<open>Errors\<close>

fun error_code :: "local_thrown \<Rightarrow> string option" where
  "error_code (Fs_thrown e) = fe_code e"
| "error_code _ = None"

fun describe_error :: "local_thrown \<Rightarrow> string" where
  "describe_error (Local_error _ message _) = message"
| "describe_error (Fs_thrown e) = fe_message e"
| "describe_error (Test_crash point) = ''simulated abrupt local-file crash at '' @ point"
| "describe_error _ = ''''"

definition io_error :: "string \<Rightarrow> local_thrown \<Rightarrow> local_thrown" where
  "io_error operation err = Local_error LIo (operation @ '' failed: '' @ describe_error err) (Some err)"

definition compromised_error :: "string \<Rightarrow> local_thrown" where
  "compromised_error message = Local_error LCompromised message None"

fun is_local_error :: "local_thrown \<Rightarrow> bool" where
  "is_local_error (Local_error _ _ _) = True"
| "is_local_error _ = False"

text \<open>The catch block \<open>if (error instanceof LocalFileLockError) throw error; throw io_error(...)\<close>.\<close>

definition wrap_io :: "string \<Rightarrow> local_thrown \<Rightarrow> 'a prog" where
  "wrap_io operation err = (if is_local_error err then Throw err else Throw (io_error operation err))"

text \<open>The same, with a missing file as \<open>compromised\<close>.\<close>

definition wrap_missing :: "string \<Rightarrow> string \<Rightarrow> local_thrown \<Rightarrow> 'a prog" where
  "wrap_missing missing operation err =
     (if is_local_error err then Throw err
      else if error_code err = Some ''ENOENT'' then Throw (Local_error LCompromised missing (Some err))
      else Throw (io_error operation err))"

subsection \<open>Names and bounds\<close>

definition LOCAL_FILE_LOCK_OWNER_FILE :: js_string where
  "LOCAL_FILE_LOCK_OWNER_FILE = js ''owner''"

definition LOCAL_FILE_LOCK_OWNER_PENDING_FILE :: js_string where
  "LOCAL_FILE_LOCK_OWNER_PENDING_FILE = js ''owner.pending''"

definition MAX_LOCAL_FILE_LOCK_OWNER_CODEPOINTS :: nat where
  "MAX_LOCAL_FILE_LOCK_OWNER_CODEPOINTS = 512"

definition MAX_LOCAL_FILE_LOCK_OWNER_UTF8_BYTES :: nat where
  "MAX_LOCAL_FILE_LOCK_OWNER_UTF8_BYTES = MAX_LOCAL_FILE_LOCK_OWNER_CODEPOINTS * 4"

definition MAX_LOCAL_FILE_LOCK_TIMER_DELAY_MS :: rat where
  "MAX_LOCAL_FILE_LOCK_TIMER_DELAY_MS = 2147483647"

abbreviation owner_place :: fs_place where "owner_place \<equiv> Entry LOCAL_FILE_LOCK_OWNER_FILE"
abbreviation pending_place :: fs_place where "pending_place \<equiv> Entry LOCAL_FILE_LOCK_OWNER_PENDING_FILE"

subsection \<open>Validation of inputs\<close>

definition invalid_input :: "string \<Rightarrow> local_thrown" where
  "invalid_input message = Local_error LInvalid_input message None"

fun has_lone_surrogate :: "js_string \<Rightarrow> bool" where
  "has_lone_surrogate [] = False"
| "has_lone_surrogate [u] = (is_lead u \<or> is_trail u)"
| "has_lone_surrogate (u # v # us) =
     (if is_lead u then (if \<not> is_trail v then True else has_lone_surrogate us)
      else if is_trail u then True
      else has_lone_surrogate (v # us))"

text \<open>
  String functions of the Windows path check. Only ASCII letters change case: no other character
  is mapped onto the characters the check compares with.
\<close>

definition ascii_upper :: "code_unit \<Rightarrow> code_unit" where
  "ascii_upper u = (if 97 \<le> u \<and> u \<le> 122 then u - 32 else u)"

definition ascii_letter :: "code_unit \<Rightarrow> bool" where
  "ascii_letter u = ((65 \<le> u \<and> u \<le> 90) \<or> (97 \<le> u \<and> u \<le> 122))"

fun split_units :: "code_unit \<Rightarrow> js_string \<Rightarrow> js_string list" where
  "split_units sep [] = [[]]"
| "split_units sep (u # us) =
     (if u = sep then [] # split_units sep us
      else case split_units sep us of [] \<Rightarrow> [[u]] | c # cs \<Rightarrow> (u # c) # cs)"

definition starts_with :: "js_string \<Rightarrow> js_string \<Rightarrow> bool" where
  "starts_with prefix s = (take (length prefix) s = prefix)"

definition WINDOWS_RESERVED_DEVICE_BASES :: "js_string list" where
  "WINDOWS_RESERVED_DEVICE_BASES = map js [''CON'', ''PRN'', ''AUX'', ''NUL'',
     ''COM1'', ''COM2'', ''COM3'', ''COM4'', ''COM5'', ''COM6'', ''COM7'', ''COM8'', ''COM9'',
     ''LPT1'', ''LPT2'', ''LPT3'', ''LPT4'', ''LPT5'', ''LPT6'', ''LPT7'', ''LPT8'', ''LPT9'']"

definition component_admitted :: "js_string \<Rightarrow> bool" where
  "component_admitted c =
     (last c \<noteq> 46 \<and> last c \<noteq> 32 \<and> 58 \<notin> set c \<and>
      map ascii_upper (js_trim (hd (split_units 46 c))) \<notin> set WINDOWS_RESERVED_DEVICE_BASES)"

fun components_admitted :: "bool \<Rightarrow> js_string list \<Rightarrow> bool" where
  "components_admitted first [] = True"
| "components_admitted first (c # cs) =
     (if length c = 0 then components_admitted first cs
      else if c = js ''.'' \<or> c = js ''..'' then components_admitted first cs
      else if first \<and> length c = 2 \<and> ascii_letter (c ! 0) \<and> c ! 1 = 58 then components_admitted False cs
      else component_admitted c \<and> components_admitted False cs)"

definition windows_local_file_lock_path_admitted :: "js_string \<Rightarrow> bool" where
  "windows_local_file_lock_path_admitted path =
     (let normalized = map (\<lambda>u. if u = 92 then 47 else u) path in
      \<not> (starts_with (js ''//?/'') normalized \<or> starts_with (js ''//./'') normalized \<or>
         starts_with (js ''/??/'') normalized) \<and>
      components_admitted True (split_units 47 normalized))"

definition validate_local_file_lock_path :: "local_config \<Rightarrow> js_string \<Rightarrow> local_thrown + unit" where
  "validate_local_file_lock_path cf path =
     and_then (require (length path \<noteq> 0) (invalid_input ''local lock path must not be empty'')) (\<lambda>_.
     and_then (require (0 \<notin> set path) (invalid_input ''local lock path must not contain NUL'')) (\<lambda>_.
     and_then (require (\<not> has_lone_surrogate path)
       (invalid_input ''local lock path must contain only valid Unicode scalar values'')) (\<lambda>_.
     require (\<not> (cf_win32 cf \<and> \<not> windows_local_file_lock_path_admitted path))
       (invalid_input ''Windows local lock paths must avoid device namespaces, reserved device names, trailing dot/space components, and alternate-data-stream syntax''))))"

definition validate_local_file_lock_owner :: "js_string \<Rightarrow> local_thrown + unit" where
  "validate_local_file_lock_owner owner =
     and_then (require (length owner \<noteq> 0) (invalid_input ''owner token must not be empty'')) (\<lambda>_.
     and_then (require (\<not> has_lone_surrogate owner)
       (invalid_input ''owner token must contain only valid Unicode scalar values'')) (\<lambda>_.
     require (\<not> length (scalars owner) > MAX_LOCAL_FILE_LOCK_OWNER_CODEPOINTS)
       (invalid_input ''owner token must not exceed 512 Unicode code points'')))"

text \<open>The options after \<open>{ ...DEFAULT_LOCAL_FILE_LOCK_OPTIONS, ...options }\<close>.\<close>

fun truthy :: "js_value \<Rightarrow> bool" where
  "truthy JUndefined = False"
| "truthy JNull = False"
| "truthy (JBool b) = b"
| "truthy (JNumber n) = (n \<noteq> NInt 0 \<and> n \<noteq> NNaN)"
| "truthy (JBigInt i) = (i \<noteq> 0)"
| "truthy (JString s) = (s \<noteq> [])"
| "truthy _ = True"

definition resolved_option :: "js_fields \<Rightarrow> string \<Rightarrow> js_value \<Rightarrow> js_value" where
  "resolved_option options name fallback = (if has_own options name then field options name else fallback)"

record local_options =
  lo_wait :: bool
  lo_wait_timeout_ms :: int
  lo_retry_interval_ms :: int

definition non_negative_safe :: "js_value \<Rightarrow> int option" where
  "non_negative_safe v =
     (case v of JNumber n \<Rightarrow> if is_safe_integer n \<and> 0 \<le> int_of_number n then Some (int_of_number n) else None | _ \<Rightarrow> None)"

definition validate_options :: "js_fields \<Rightarrow> local_thrown + local_options" where
  "validate_options options =
     (case non_negative_safe (resolved_option options ''wait_timeout_ms'' (JNumber (NInt 30000))) of
        None \<Rightarrow> Inl (invalid_input ''wait timeout must be a non-negative JavaScript safe integer number of milliseconds'')
      | Some wait_timeout_ms \<Rightarrow>
          (case non_negative_safe (resolved_option options ''retry_interval_ms'' (JNumber (NInt 50))) of
             None \<Rightarrow> Inl (invalid_input ''retry interval must be a non-negative JavaScript safe integer number of milliseconds'')
           | Some retry_interval_ms \<Rightarrow>
               let wait = truthy (resolved_option options ''wait'' (JBool True)) in
               if wait \<and> retry_interval_ms = 0
               then Inl (invalid_input ''retry interval must be greater than zero when waiting'')
               else Inr \<lparr>lo_wait = wait, lo_wait_timeout_ms = wait_timeout_ms, lo_retry_interval_ms = retry_interval_ms\<rparr>))"

subsection \<open>Checks of the file system\<close>

definition validate_posix_private_mode :: "local_config \<Rightarrow> 32 word \<Rightarrow> string \<Rightarrow> unit prog" where
  "validate_posix_private_mode cf mode label =
     (if cf_win32 cf then Return ()
      else if mode AND 0x3F \<noteq> 0
      then Throw (compromised_error (label @ '' permissions widened beyond the private POSIX contract''))
      else Return ())"

definition validate_real_directory :: "fs_place \<Rightarrow> string \<Rightarrow> unit prog" where
  "validate_real_directory place label =
     catch_prog (bind_prog (lstat place) (\<lambda>md.
        if md_kind md = Directory_kind then Return ()
        else Throw (compromised_error (label @ '' is not an unaliased directory''))))
      (wrap_missing (label @ '' is missing'') (''inspect '' @ label))"

definition validate_posix_trusted_parent :: "local_config \<Rightarrow> fs_place \<Rightarrow> unit prog" where
  "validate_posix_trusted_parent cf place =
     (if cf_win32 cf then Return ()
      else catch_prog (bind_prog (lstat place) (\<lambda>md.
             if md_mode md AND 0x12 \<noteq> 0
             then Throw (compromised_error ''lock parent is group/world writable and is outside the trusted private-root boundary'')
             else Return ()))
           (wrap_io ''inspect POSIX lock-parent permissions''))"

definition validate_posix_private_lock_directory :: "local_config \<Rightarrow> fs_place \<Rightarrow> unit prog" where
  "validate_posix_private_lock_directory cf place =
     (if cf_win32 cf then Return ()
      else catch_prog (bind_prog (lstat place) (\<lambda>md. validate_posix_private_mode cf (md_mode md) ''lock directory''))
           (wrap_io ''inspect POSIX lock-directory permissions''))"

definition validate_regular_file :: "local_config \<Rightarrow> fs_place \<Rightarrow> string \<Rightarrow> unit prog" where
  "validate_regular_file cf place label =
     catch_prog (bind_prog (lstat place) (\<lambda>md.
        if md_kind md = File_kind \<and> md_nlink md = 1
        then validate_posix_private_mode cf (md_mode md) label
        else Throw (compromised_error
          (if md_kind md = File_kind \<and> md_nlink md \<noteq> 1 then label @ '' has multiple filesystem links''
           else label @ '' is not an unaliased regular file''))))
      (wrap_missing (label @ '' is missing'') (''inspect '' @ label))"

definition read_local_file_lock_entry_names_bounded :: "fs_place \<Rightarrow> js_string list prog" where
  "read_local_file_lock_entry_names_bounded place =
     bind_prog (catch_prog (handle_of (Opendir place)) (wrap_io ''list local lock directory'')) (\<lambda>d.
     finally_prog
       (catch_prog
         (bind_prog (next_entry d) (\<lambda>first.
          case first of
            None \<Rightarrow> Return []
          | Some n \<Rightarrow> bind_prog (next_entry d) (\<lambda>second.
              case second of None \<Rightarrow> Return [n] | Some n' \<Rightarrow> Return [n, n'])))
         (wrap_io ''list local lock directory''))
       (do_call (Close_dir d)))"

record owner_identity =
  oi_dev :: int
  oi_ino :: int
  oi_birthtime_ms :: int

definition read_local_file_owner_identity :: "fs_place \<Rightarrow> owner_identity prog" where
  "read_local_file_owner_identity place =
     bind_prog (catch_prog (lstat place) (\<lambda>e. Throw (io_error ''inspect local lock owner identity'' e))) (\<lambda>md.
     if \<not> (md_kind md = File_kind) \<or> md_nlink md \<noteq> 1
     then Throw (compromised_error ''owner marker identity is not a single-link unaliased regular file'')
     else Return \<lparr>oi_dev = md_dev md, oi_ino = md_ino md, oi_birthtime_ms = md_birthtimeMs md\<rparr>)"

definition same_local_file_owner_identity :: "owner_identity \<Rightarrow> owner_identity \<Rightarrow> bool" where
  "same_local_file_owner_identity left right =
     (oi_dev left = oi_dev right \<and> oi_ino left = oi_ino right \<and> oi_birthtime_ms left = oi_birthtime_ms right)"

definition owner_too_large :: local_thrown where
  "owner_too_large = compromised_error ''owner token exceeds the portable 2048-byte UTF-8 storage bound''"

definition decoding_error :: local_thrown where
  "decoding_error = Fs_thrown (Fs_error (Some ''ERR_ENCODING_INVALID_ENCODED_DATA'') ''The encoded data was not valid for encoding utf-8'')"

text \<open>The checks before and after opening the marker, the read loop and the decoding.\<close>

definition owner_path_checked :: "local_config \<Rightarrow> fs_place \<Rightarrow> metadata prog" where
  "owner_path_checked cf place =
     bind_prog (maybe_inject_local_file_test_fault cf ''owner_read_permission'' ''EACCES'') (\<lambda>_.
     bind_prog (lstat place) (\<lambda>md.
     if \<not> (md_kind md = File_kind) then Throw (compromised_error ''owner token is not an unaliased regular file'')
     else if md_nlink md \<noteq> 1
     then Throw (compromised_error ''owner token has multiple filesystem links; refusing aliased ownership state'')
     else bind_prog (validate_posix_private_mode cf (md_mode md) ''owner token'') (\<lambda>_.
     if md_size md > int MAX_LOCAL_FILE_LOCK_OWNER_UTF8_BYTES then Throw owner_too_large else Return md)))"

definition opened_owner_checked :: "local_config \<Rightarrow> metadata \<Rightarrow> nat \<Rightarrow> unit prog" where
  "opened_owner_checked cf path_md h =
     bind_prog (fstat h) (\<lambda>md.
     if \<not> (md_kind md = File_kind) \<or> md_nlink md \<noteq> 1 \<or> md_dev md \<noteq> md_dev path_md \<or> md_ino md \<noteq> md_ino path_md
     then Throw (compromised_error ''owner token identity changed or became multiply linked while opening; refusing raced path-to-handle state'')
     else bind_prog (validate_posix_private_mode cf (md_mode md) ''opened owner token'') (\<lambda>_.
     if md_size md > int MAX_LOCAL_FILE_LOCK_OWNER_UTF8_BYTES then Throw owner_too_large else Return ()))"

text \<open>
  The read loop over a buffer of one byte more than the bound. The system never returns more
  bytes than were asked for, so the buffer is what was read so far; a turn that reads nothing ends
  the loop, so the buffer size bounds the number of turns.
\<close>

fun read_owner_bytes :: "nat \<Rightarrow> nat \<Rightarrow> byte list \<Rightarrow> byte list prog" where
  "read_owner_bytes 0 h buffer = Return buffer"
| "read_owner_bytes (Suc turns) h buffer =
     (if length buffer < MAX_LOCAL_FILE_LOCK_OWNER_UTF8_BYTES + 1
      then bind_prog (read_bytes h (MAX_LOCAL_FILE_LOCK_OWNER_UTF8_BYTES + 1 - length buffer) (length buffer)) (\<lambda>bs.
           if bs = [] then Return buffer else read_owner_bytes turns h (buffer @ bs))
      else Return buffer)"

definition owner_decoded :: "nat \<Rightarrow> js_string prog" where
  "owner_decoded h =
     bind_prog (read_owner_bytes (MAX_LOCAL_FILE_LOCK_OWNER_UTF8_BYTES + 1) h []) (\<lambda>bytes.
     if length bytes > MAX_LOCAL_FILE_LOCK_OWNER_UTF8_BYTES then Throw owner_too_large
     else case text_decode_fatal bytes of
            None \<Rightarrow> Throw (Local_error LCompromised ''owner token is not valid UTF-8'' (Some decoding_error))
          | Some owner \<Rightarrow> Return owner)"

definition wrap_owner_read :: "local_thrown \<Rightarrow> 'a prog" where
  "wrap_owner_read = wrap_missing ''owner token is missing'' ''read local lock owner token''"

definition read_bounded_local_file_lock_owner :: "local_config \<Rightarrow> fs_place \<Rightarrow> js_string prog" where
  "read_bounded_local_file_lock_owner cf place =
     bind_prog (catch_prog (bind_prog (owner_path_checked cf place) (\<lambda>md.
          bind_prog (handle_of (Open_read place)) (\<lambda>h. Return (md, h)))) wrap_owner_read) (\<lambda>(md, h).
     finally_prog
       (catch_prog (bind_prog (opened_owner_checked cf md h) (\<lambda>_. owner_decoded h)) wrap_owner_read)
       (do_call (Close h)))"

subsection \<open>The handle\<close>

datatype release_state = Held | Released | Partial local_thrown

record local_lock =
  lk_owner :: js_string
  lk_identity :: owner_identity
  lk_state :: release_state

definition release_checks :: "local_config \<Rightarrow> local_lock \<Rightarrow> unit prog" where
  "release_checks cf lk =
     bind_prog (validate_real_directory Lock ''lock directory'') (\<lambda>_.
     bind_prog (validate_posix_private_lock_directory cf Lock) (\<lambda>_.
     bind_prog (read_local_file_lock_entry_names_bounded Lock) (\<lambda>entries.
     if entries \<noteq> [LOCAL_FILE_LOCK_OWNER_FILE]
     then Throw (compromised_error ''lock directory must contain exactly one published owner marker before release'')
     else
     bind_prog (validate_regular_file cf owner_place ''owner token'') (\<lambda>_.
     bind_prog (read_local_file_owner_identity owner_place) (\<lambda>current.
     if \<not> same_local_file_owner_identity (lk_identity lk) current
     then Throw (compromised_error ''owner marker identity changed; refusing stale-handle release across recovery/reacquisition'')
     else
     bind_prog (read_bounded_local_file_lock_owner cf owner_place) (\<lambda>observed.
     if observed \<noteq> lk_owner lk
     then Throw (compromised_error ''owner token changed; refusing to remove a lock that may belong to another acquisition'')
     else Return ()))))))"

text \<open>The error of a failed removal.\<close>

definition removal_error :: "string \<Rightarrow> local_thrown \<Rightarrow> local_thrown" where
  "removal_error operation e =
     Local_error (if error_code e \<in> {Some ''ENOTEMPTY'', Some ''EEXIST''} then LCompromised else LIo)
       (operation @ describe_error e) (Some e)"

definition release_once :: "local_config \<Rightarrow> local_lock \<Rightarrow> (release_state \<times> (local_thrown + unit)) prog" where
  "release_once cf lk =
     bind_prog (settle_prog (release_checks cf lk)) (\<lambda>checked.
     case checked of
       Inl e \<Rightarrow> Return (Held, Inl e)
     | Inr _ \<Rightarrow>
         bind_prog (settle_prog (do_call (Unlink owner_place))) (\<lambda>removed.
         case removed of
           Inl e \<Rightarrow> Return (Held, Inl (removal_error ''remove local lock directory failed: '' e))
         | Inr _ \<Rightarrow>
             bind_prog (settle_prog (bind_prog (maybe_inject_local_file_test_fault cf ''release_rmdir_failure'' ''EIO'') (\<lambda>_.
                          do_call (Rmdir Lock)))) (\<lambda>gone.
             case gone of
               Inl e \<Rightarrow> let wrapped = removal_error ''remove local lock directory failed: '' e
                         in Return (Partial wrapped, Inl wrapped)
             | Inr _ \<Rightarrow> Return (Released, Inr ()))))"

text \<open>\<open>release()\<close>: the handle afterwards and the outcome.\<close>

definition release :: "local_config \<Rightarrow> local_lock \<Rightarrow> (local_lock \<times> (local_thrown + unit)) prog" where
  "release cf lk =
     (case lk_state lk of
        Released \<Rightarrow> Return (lk, Inr ())
      | Partial e \<Rightarrow> Return (lk, Inl e)
      | Held \<Rightarrow> bind_prog (release_once cf lk) (\<lambda>(state, outcome). Return (lk\<lparr>lk_state := state\<rparr>, outcome)))"

subsection \<open>Acquisition\<close>

definition prepare_parent :: "local_config \<Rightarrow> unit prog" where
  "prepare_parent cf =
     catch_prog
       (bind_prog (maybe_inject_local_file_test_fault cf ''parent_prepare_ero_fs'' ''EROFS'') (\<lambda>_.
        bind_prog (do_call (Mkdir_recursive Parent)) (\<lambda>_.
        bind_prog (validate_real_directory Parent ''lock parent'') (\<lambda>_.
        validate_posix_trusted_parent cf Parent))))
       (wrap_io ''prepare local lock parent'')"

text \<open>What to do when the directory exists: \<open>True\<close> is \<open>continue\<close>, \<open>False\<close> is \<open>return null\<close>.\<close>

definition inspect_contended :: "bool \<Rightarrow> local_thrown \<Rightarrow> bool prog" where
  "inspect_contended retry_left err =
     catch_prog
       (bind_prog (lstat Lock) (\<lambda>md.
        if md_kind md = Directory_kind then Return False
        else Throw (Local_error LCompromised ''lock path already exists but is not an unaliased directory'' (Some err))))
       (\<lambda>e. if is_local_error e then Throw e
            else if error_code e = Some ''ENOENT'' then Return retry_left
            else Throw (io_error ''inspect contended local lock path'' e))"

fun create_directory :: "local_config \<Rightarrow> nat \<Rightarrow> bool prog" where
  "create_directory cf 0 = Return False"
| "create_directory cf (Suc attempts_left) =
     bind_prog (settle_prog (bind_prog (do_call (Mkdir Lock)) (\<lambda>_. validate_posix_private_lock_directory cf Lock))) (\<lambda>made.
     case made of
       Inr _ \<Rightarrow> Return True
     | Inl e \<Rightarrow>
         if is_local_error e then Throw e
         else if error_code e \<noteq> Some ''EEXIST'' then Throw (io_error ''atomically create local lock directory'' e)
         else bind_prog (inspect_contended (attempts_left \<noteq> 0) e) (\<lambda>continue.
              if continue then create_directory cf attempts_left else Return False))"

definition ignore_missing :: "local_thrown \<Rightarrow> unit prog" where
  "ignore_missing e = (if error_code e \<noteq> Some ''ENOENT'' then Throw e else Return ())"

definition undo_publication :: "local_config \<Rightarrow> unit prog" where
  "undo_publication cf =
     bind_prog (catch_prog (do_call (Unlink pending_place)) ignore_missing) (\<lambda>_.
     bind_prog (catch_prog (do_call (Unlink owner_place)) ignore_missing) (\<lambda>_.
     bind_prog (maybe_inject_local_file_test_fault cf ''rollback_rmdir_failure'' ''EIO'') (\<lambda>_.
     do_call (Rmdir Lock))))"

definition close_pending :: "nat option \<Rightarrow> unit prog" where
  "close_pending pending =
     (case pending of None \<Rightarrow> Return () | Some h \<Rightarrow> catch_prog (do_call (Close h)) (\<lambda>_. Return ()))"

text \<open>The catch block of the publication; it always throws.\<close>

definition publication_failed :: "local_config \<Rightarrow> nat option \<Rightarrow> local_thrown \<Rightarrow> 'a prog" where
  "publication_failed cf pending e =
     (if is_local_file_test_crash e then Throw e
      else
        bind_prog (close_pending pending) (\<lambda>_.
        bind_prog (settle_prog (undo_publication cf)) (\<lambda>undone.
        case undone of
          Inl rollback \<Rightarrow> Throw (Local_error LCompromised
            (''owner publication failed: '' @ describe_error e @ ''; provisional lock rollback also failed: '' @ describe_error rollback)
            (Some (Primary_and_rollback e rollback)))
        | Inr _ \<Rightarrow>
            if is_local_error e then Throw e
            else if error_code e = Some ''EEXIST''
            then Throw (Local_error LCompromised ''owner publication marker already exists after winning lock directory creation'' (Some e))
            else Throw (io_error ''publish local lock owner token'' e))))"

definition write_pending :: "local_config \<Rightarrow> js_string \<Rightarrow> nat \<Rightarrow> unit prog" where
  "write_pending cf owner h =
     bind_prog (maybe_simulate_local_file_test_crash cf ''after_pending_create_crash'') (\<lambda>_.
     bind_prog
       (if local_file_test_fault_enabled cf ''owner_short_write''
        then bind_prog (do_call (Write_file h (text_encode (take (max 1 (length owner div 2)) owner)))) (\<lambda>_.
             maybe_inject_local_file_test_fault cf ''owner_short_write'' ''EIO'')
        else do_call (Write_file h (text_encode owner))) (\<lambda>_.
     bind_prog (maybe_inject_local_file_test_fault cf ''owner_sync_failure'' ''EIO'') (\<lambda>_.
     bind_prog (do_call (Sync h)) (\<lambda>_.
     do_call (Close h)))))"

definition owner_target_free :: "unit prog" where
  "owner_target_free =
     catch_prog (bind_prog (lstat owner_place) (\<lambda>_.
        Throw (compromised_error ''published owner target already exists before atomic publication'')))
      (\<lambda>e. if is_local_error e then Throw e
           else if error_code e \<noteq> Some ''ENOENT'' then Throw (io_error ''inspect owner publication target'' e)
           else Return ())"

definition publish_pending :: "local_config \<Rightarrow> unit prog" where
  "publish_pending cf =
     bind_prog (maybe_inject_local_file_test_fault cf ''owner_close_failure'' ''EIO'') (\<lambda>_.
     bind_prog (maybe_simulate_local_file_test_crash cf ''after_pending_sync_crash'') (\<lambda>_.
     bind_prog owner_target_free (\<lambda>_.
     bind_prog (maybe_inject_local_file_test_fault cf ''owner_rename_failure'' ''EIO'') (\<lambda>_.
     bind_prog (do_call (Rename pending_place owner_place)) (\<lambda>_.
     maybe_simulate_local_file_test_crash cf ''after_owner_rename_crash'')))))"

definition publish_owner :: "local_config \<Rightarrow> js_string \<Rightarrow> unit prog" where
  "publish_owner cf owner =
     bind_prog (catch_prog (handle_of (Open_exclusive pending_place)) (publication_failed cf None)) (\<lambda>h.
     bind_prog (catch_prog (write_pending cf owner h) (publication_failed cf (Some h))) (\<lambda>_.
     catch_prog (publish_pending cf) (publication_failed cf None)))"

definition published_identity :: "local_config \<Rightarrow> owner_identity prog" where
  "published_identity cf =
     catch_prog
       (bind_prog (validate_regular_file cf owner_place ''owner token'') (\<lambda>_.
        read_local_file_owner_identity owner_place))
       (\<lambda>e.
        bind_prog (settle_prog (bind_prog (do_call (Unlink owner_place)) (\<lambda>_. do_call (Rmdir Lock)))) (\<lambda>undone.
        case undone of
          Inl rollback \<Rightarrow> Throw (Local_error LCompromised
            (''owner token was published but validation failed and rollback also failed: '' @ describe_error rollback) (Some rollback))
        | Inr _ \<Rightarrow> Throw e))"

definition try_acquire_local_file_lock :: "local_config \<Rightarrow> js_string \<Rightarrow> js_string \<Rightarrow> local_lock option prog" where
  "try_acquire_local_file_lock cf path owner =
     bind_prog (lift_prog (validate_local_file_lock_path cf path)) (\<lambda>_.
     bind_prog (lift_prog (validate_local_file_lock_owner owner)) (\<lambda>_.
     bind_prog (prepare_parent cf) (\<lambda>_.
     bind_prog (create_directory cf 2) (\<lambda>created.
     if \<not> created then Return None
     else
     bind_prog (publish_owner cf owner) (\<lambda>_.
     bind_prog (published_identity cf) (\<lambda>identity.
     Return (Some \<lparr>lk_owner = owner, lk_identity = identity, lk_state = Held\<rparr>)))))))"

definition local_file_lock_sleep_delay_ms :: "rat \<Rightarrow> rat \<Rightarrow> rat" where
  "local_file_lock_sleep_delay_ms retryIntervalMs remainingMs =
     max 0 (min (min retryIntervalMs remainingMs) MAX_LOCAL_FILE_LOCK_TIMER_DELAY_MS)"

text \<open>The wait, with fuel for its turns: \<open>None\<close> is a wait that is not over when the fuel is.\<close>

fun acquire_loop :: "nat \<Rightarrow> local_config \<Rightarrow> js_string \<Rightarrow> js_string \<Rightarrow> local_options \<Rightarrow> rat \<Rightarrow> local_lock option prog" where
  "acquire_loop 0 cf path owner opts started = Return None"
| "acquire_loop (Suc fuel) cf path owner opts started =
     bind_prog (try_acquire_local_file_lock cf path owner) (\<lambda>lock.
     if lock \<noteq> None then Return lock
     else if \<not> lo_wait opts
     then Throw (Local_error LContention ''lock is already held by another owner'' None)
     else
     bind_prog clock_now (\<lambda>now.
     if now - started \<ge> of_int (lo_wait_timeout_ms opts)
     then Throw (Local_error LTimeout ''timed out waiting for local lock'' None)
     else
     bind_prog (do_call (Sleep (local_file_lock_sleep_delay_ms (of_int (lo_retry_interval_ms opts))
                  (of_int (lo_wait_timeout_ms opts) - (now - started))))) (\<lambda>_.
     acquire_loop fuel cf path owner opts started)))"

definition acquire_local_file_lock ::
  "nat \<Rightarrow> local_config \<Rightarrow> js_string \<Rightarrow> js_string \<Rightarrow> js_fields \<Rightarrow> local_lock option prog" where
  "acquire_local_file_lock fuel cf path owner options =
     bind_prog (lift_prog (validate_local_file_lock_path cf path)) (\<lambda>_.
     bind_prog (lift_prog (validate_local_file_lock_owner owner)) (\<lambda>_.
     bind_prog (lift_prog (validate_options options)) (\<lambda>opts.
     bind_prog clock_now (\<lambda>started.
     acquire_loop fuel cf path owner opts started))))"

definition local_file_lock_exists :: "local_config \<Rightarrow> js_string \<Rightarrow> bool prog" where
  "local_file_lock_exists cf path =
     bind_prog (lift_prog (validate_local_file_lock_path cf path)) (\<lambda>_.
     bind_prog (settle_prog (lstat Lock)) (\<lambda>found.
     case found of
       Inl e \<Rightarrow> if error_code e = Some ''ENOENT'' then Return False else Throw (io_error ''inspect local lock path'' e)
     | Inr md \<Rightarrow>
         if \<not> (md_kind md = Directory_kind)
         then Throw (compromised_error ''lock path exists but is not an unaliased directory'')
         else
         bind_prog (validate_posix_private_mode cf (md_mode md) ''lock directory'') (\<lambda>_.
         bind_prog (read_local_file_lock_entry_names_bounded Lock) (\<lambda>entries.
         if entries \<noteq> [LOCAL_FILE_LOCK_OWNER_FILE]
         then Throw (compromised_error ''lock directory must contain exactly one published owner marker'')
         else
         bind_prog (validate_regular_file cf owner_place ''owner token'') (\<lambda>_.
         bind_prog (read_bounded_local_file_lock_owner cf owner_place) (\<lambda>owner.
         if length owner = 0 \<or> length (scalars owner) > MAX_LOCAL_FILE_LOCK_OWNER_CODEPOINTS
         then Throw (compromised_error ''owner token violates the portable owner contract'')
         else Return True))))))"

subsection \<open>The scoped lock\<close>

text \<open>
  \<open>local-file-scoped.ts\<close>. The variables \<open>work_error\<close> and \<open>lock_error\<close> use \<open>undefined\<close> for "none";
  a value is \<open>None\<close> when the work did not return one.
\<close>

definition caught :: "local_thrown + 'a \<Rightarrow> local_thrown option" where
  "caught r = (case r of Inl e \<Rightarrow> if e = Undefined_value then None else Some e | Inr _ \<Rightarrow> None)"

definition scoped_outcome :: "local_thrown + 'a \<Rightarrow> local_thrown + unit \<Rightarrow> 'a option prog" where
  "scoped_outcome worked released =
     (case (caught worked, caught released) of
        (Some w, Some l) \<Rightarrow> Throw (Scoped_error Scoped_work_and_release (Some l) (Some w))
      | (Some w, None) \<Rightarrow> Throw (Scoped_error Scoped_work None (Some w))
      | (None, Some l) \<Rightarrow> Throw (Scoped_error Scoped_lock (Some l) None)
      | (None, None) \<Rightarrow> Return (case worked of Inr v \<Rightarrow> Some v | Inl _ \<Rightarrow> None))"

text \<open>The work gets the handle and may use it; it returns its outcome and the handle afterwards.\<close>

definition with_local_file_lock ::
  "nat \<Rightarrow> local_config \<Rightarrow> js_string \<Rightarrow> js_string \<Rightarrow> js_fields \<Rightarrow>
   (local_lock \<Rightarrow> ((local_thrown + 'a) \<times> local_lock) prog) \<Rightarrow> 'a option option prog" where
  "with_local_file_lock fuel cf path owner options work =
     bind_prog (catch_prog (acquire_local_file_lock fuel cf path owner options)
        (\<lambda>e. Throw (Scoped_error Scoped_lock (Some e) None))) (\<lambda>acquired.
     case acquired of
       None \<Rightarrow> Return None
     | Some lock \<Rightarrow>
         bind_prog (work lock) (\<lambda>(worked, lock1).
         bind_prog (release cf lock1) (\<lambda>(_, released).
         bind_prog (scoped_outcome worked released) (\<lambda>v. Return (Some v)))))"

section \<open>Strings\<close>

lemma has_lone_surrogate_iff: "has_lone_surrogate s \<longleftrightarrow> \<not> well_formed s"
  by (induction s rule: has_lone_surrogate.induct) auto

section \<open>Which calls the parts make\<close>

fun read_call :: "fs_call \<Rightarrow> bool" where
  "read_call (Lstat p) = True"
| "read_call (Open_read p) = True"
| "read_call (Close h) = True"
| "read_call (Fstat h) = True"
| "read_call (Read_at h n i) = True"
| "read_call (Opendir p) = True"
| "read_call (Read_entry d) = True"
| "read_call (Close_dir d) = True"
| "read_call Now = True"
| "read_call (Sleep t) = True"
| "read_call _ = False"

abbreviation reads :: "'a prog \<Rightarrow> bool" where "reads \<equiv> only_calls read_call"

lemma reads_calls [quiet]:
  "reads (lstat p)" "reads (fstat h)" "reads (next_entry d)" "reads (read_bytes h n i)" "reads clock_now"
  "reads (handle_of (Open_read p))" "reads (handle_of (Opendir p))"
  "reads (do_call (Close h))" "reads (do_call (Close_dir h))" "reads (do_call (Sleep t))"
  by (simp_all add: lstat_def fstat_def next_entry_def read_bytes_def clock_now_def handle_of_def do_call_def
      only_calls_await)

lemma reads_faults [quiet]:
  "only_calls P (maybe_inject_local_file_test_fault cf point code)"
  "only_calls P (maybe_simulate_local_file_test_crash cf point)"
  "only_calls P (wrap_io op e)" "only_calls P (wrap_missing m op e)" "only_calls P (wrap_owner_read e)"
  "only_calls P (validate_posix_private_mode cf mode label)"
  by (simp_all add: maybe_inject_local_file_test_fault_def maybe_simulate_local_file_test_crash_def wrap_io_def
      wrap_missing_def wrap_owner_read_def validate_posix_private_mode_def)

lemma reads_validate [quiet]:
  "reads (validate_real_directory p l)" "reads (validate_posix_trusted_parent cf p)"
  "reads (validate_posix_private_lock_directory cf p)" "reads (validate_regular_file cf p l)"
  "reads (read_local_file_owner_identity p)"
  unfolding validate_real_directory_def validate_posix_trusted_parent_def validate_posix_private_lock_directory_def
    validate_regular_file_def read_local_file_owner_identity_def
  by (intro quiet)+

lemma reads_entries [quiet]: "reads (read_local_file_lock_entry_names_bounded p)"
  unfolding read_local_file_lock_entry_names_bounded_def
  by (auto intro!: quiet split: option.split)

lemma reads_owner_bytes [quiet]: "reads (read_owner_bytes n h buffer)"
  by (induction n arbitrary: buffer) (auto intro!: quiet)

lemma reads_owner [quiet]: "reads (read_bounded_local_file_lock_owner cf p)"
  unfolding read_bounded_local_file_lock_owner_def owner_path_checked_def opened_owner_checked_def owner_decoded_def
  by (auto intro!: quiet split: option.split)

lemma reads_release_checks [quiet]: "reads (release_checks cf lk)"
  unfolding release_checks_def by (intro quiet)

lemma reads_inspect_contended [quiet]: "reads (inspect_contended b e)"
  unfolding inspect_contended_def by (intro quiet)

lemma reads_target_free [quiet]: "reads owner_target_free"
  unfolding owner_target_free_def by (intro quiet)

lemma reads_exists: "reads (local_file_lock_exists cf path)"
  unfolding local_file_lock_exists_def by (auto intro!: quiet split: sum.split)

section \<open>The ownership protocol\<close>

lemma wp_await:
  "wp A N Q E (await_call c sel) g \<longleftrightarrow> A g c \<and>
     (\<forall>x. case x of Failed e \<Rightarrow> E (N g c x) (Fs_thrown e)
        | _ \<Rightarrow> (case sel x of None \<Rightarrow> E (N g c x) bad_answer | Some a \<Rightarrow> Q (N g c x) a))"
  by (auto simp: await_call_def split: fs_answer.split option.split)

lemma owned_reads:
  assumes "reads p" and "\<And>a. Q g a" and "\<And>e. E g e"
  shows "owned_wp Q E p g"
  by (rule wp_only_calls [OF assms(1)])
    (auto simp: own_allowed_def own_next_def assms(2,3) elim: read_call.elims owner_call.elims)

lemma owned_call:
  assumes "own_allowed g c" and "c \<noteq> Mkdir Lock" and "c \<noteq> Rmdir Lock" and "\<And>a. Q g a" and "\<And>e. E g e"
  shows "owned_wp Q E (await_call c sel) g"
  using assms by (simp add: wp_await own_next_def split: fs_answer.split option.split)

lemma owned_mkdir:
  assumes "Q True ()" and "\<And>e. E False (Fs_thrown e)"
  shows "owned_wp Q E (do_call (Mkdir Lock)) False"
  using assms by (simp add: do_call_def wp_await own_next_def own_allowed_def split: fs_answer.split)

lemma owned_rmdir:
  assumes "Q False ()" and "\<And>e. E True (Fs_thrown e)"
  shows "owned_wp Q E (do_call (Rmdir Lock)) True"
  using assms by (simp add: do_call_def wp_await own_next_def own_allowed_def split: fs_answer.split)

lemma owned_edits:
  assumes "\<And>a. Q True a" and "\<And>e. E True e"
  shows "owned_wp Q E (do_call (Unlink p)) True" "owned_wp Q E (do_call (Rename p q)) True"
    "owned_wp Q E (do_call (Write_file h bs)) True" "owned_wp Q E (do_call (Sync h)) True"
  unfolding do_call_def by (rule owned_call; simp add: own_allowed_def assms)+

lemma owned_open:
  assumes "\<And>a. Q True a" and "\<And>e. E True e"
  shows "owned_wp Q E (handle_of (Open_exclusive p)) True"
  unfolding handle_of_def by (rule owned_call) (simp_all add: own_allowed_def assms)

lemma owned_mkdir_parent:
  assumes "\<And>a. Q g a" and "\<And>e. E g e"
  shows "owned_wp Q E (do_call (Mkdir_recursive Parent)) g"
  unfolding do_call_def by (rule owned_call) (simp_all add: own_allowed_def assms)

text \<open>
  The errors after which the directory may still be there: \<open>compromised\<close>, the simulated crash, and
  an I/O error of the permission check that follows the creation.
\<close>

fun leaves_directory :: "local_thrown \<Rightarrow> bool" where
  "leaves_directory (Local_error k m c) =
     (k = LCompromised \<or> k = LIo \<and> (\<exists>x. m = ''inspect POSIX lock-directory permissions failed: '' @ x))"
| "leaves_directory (Test_crash _) = True"
| "leaves_directory _ = False"

definition acquire_error :: "bool \<Rightarrow> local_thrown \<Rightarrow> bool" where
  "acquire_error g e \<longleftrightarrow> (g \<longrightarrow> leaves_directory e)"

lemma acquire_error_simps [simp]:
  "acquire_error False e" "acquire_error g (Test_crash x)" "acquire_error g (Local_error LCompromised m c)"
  by (simp_all add: acquire_error_def)

lemma acquire_error_crash: "is_local_file_test_crash e \<Longrightarrow> acquire_error g e"
  by (cases e) simp_all

lemma owned_private_directory:
  assumes "\<And>a. Q g a" and "\<And>k m c. leaves_directory (Local_error k m c) \<Longrightarrow> E g (Local_error k m c)"
  shows "owned_wp Q E (validate_posix_private_lock_directory cf p) g"
proof -
  have "owned_wp Q (\<lambda>g e. owned_wp Q E (wrap_io ''inspect POSIX lock-directory permissions'' e) g)
      (bind_prog (lstat p) (\<lambda>md. validate_posix_private_mode cf (md_mode md) ''lock directory'')) g"
    unfolding wp_bind lstat_def wp_await
    by (auto simp: assms validate_posix_private_mode_def wrap_io_def io_error_def compromised_error_def bad_answer_def
        own_allowed_def own_next_def split: fs_answer.split option.split)
  then show ?thesis by (simp add: validate_posix_private_lock_directory_def wp_catch assms)
qed

lemmas owned_quiet =
  reads_calls [THEN owned_reads] reads_faults [THEN owned_reads] reads_validate(1,2,4,5) [THEN owned_reads]
  reads_entries [THEN owned_reads] reads_release_checks [THEN owned_reads] reads_inspect_contended [THEN owned_reads]
  reads_target_free [THEN owned_reads]

lemmas owned_intros = owned_mkdir owned_mkdir_parent owned_rmdir owned_edits owned_open owned_private_directory owned_quiet

lemma owned_prepare: "owned_wp (\<lambda>g _. \<not> g) (\<lambda>g _. \<not> g) (prepare_parent cf) False"
  unfolding prepare_parent_def wp_flow by (intro owned_intros; simp)

lemma owned_create: "owned_wp (\<lambda>g created. g = created) acquire_error (create_directory cf n) False"
proof (induction n)
  case (Suc n)
  have again: "owned_wp (\<lambda>g created. g = created) acquire_error (bind_prog (inspect_contended b e) (\<lambda>continue.
      if continue then create_directory cf n else Return False)) False" for b e
    unfolding wp_bind by (rule owned_reads [OF reads_inspect_contended]) (simp_all add: Suc.IH)
  show ?case
    unfolding create_directory.simps wp_bind [of _ _ _ _ "settle_prog _"] wp_settle wp_bind [of _ _ _ _ "do_call _"]
    by (intro owned_mkdir owned_private_directory)
      (auto simp: again acquire_error_def simp del: leaves_directory.simps)
qed simp

lemma owned_undo: "owned_wp (\<lambda>g _. \<not> g) (\<lambda>_ _. True) (undo_publication cf) True"
  unfolding undo_publication_def wp_flow
  by (intro owned_intros; simp add: ignore_missing_def; intro conjI impI owned_intros; simp)

lemma owned_close_pending:
  assumes "\<And>a. Q g a"
  shows "owned_wp Q E (close_pending pending) g"
  using assms by (auto simp: close_pending_def wp_flow intro!: owned_intros split: option.split)

lemma owned_publication_failed: "owned_wp Q acquire_error (publication_failed cf pending e) True"
  unfolding publication_failed_def
  by (auto simp: wp_flow acquire_error_crash intro!: owned_close_pending wp_mono [OF owned_undo] split: sum.split)

lemma owned_write_pending:
  assumes "\<And>a. Q True a" and "\<And>e. E True e"
  shows "owned_wp Q E (write_pending cf owner h) True"
  unfolding write_pending_def using assms by (auto simp: wp_flow intro!: owned_intros)

lemma owned_publish_pending:
  assumes "\<And>a. Q True a" and "\<And>e. E True e"
  shows "owned_wp Q E (publish_pending cf) True"
  unfolding publish_pending_def using assms by (auto simp: wp_flow intro!: owned_intros)

lemma owned_publish:
  assumes "\<And>a. Q True a"
  shows "owned_wp Q acquire_error (publish_owner cf owner) True"
  unfolding publish_owner_def wp_flow
  by (intro owned_open owned_write_pending owned_publish_pending owned_publication_failed assms)

lemma owned_identity:
  assumes "\<And>a. Q True a"
  shows "owned_wp Q acquire_error (published_identity cf) True"
  unfolding published_identity_def using assms by (auto simp: wp_flow intro!: owned_intros)

lemma owned_release: "owned_wp (\<lambda>_ _. True) (\<lambda>_ _. True) (release cf lk) True"
  unfolding release_def release_once_def Let_def
  by (auto simp: wp_flow intro!: owned_intros split: release_state.split)

text \<open>A returned lock is owned; without one the directory is not owned.\<close>

definition lock_owned :: "bool \<Rightarrow> local_lock option \<Rightarrow> bool" where
  "lock_owned g lock \<longleftrightarrow> g = (lock \<noteq> None)"

lemma lock_owned_simps [simp]: "lock_owned g None = (\<not> g)" "lock_owned g (Some lk) = g"
  by (simp_all add: lock_owned_def)

lemma owned_try_acquire:
  "owned_wp lock_owned acquire_error (try_acquire_local_file_lock cf path owner) False"
proof -
  have body: "owned_wp lock_owned acquire_error (if \<not> created then Return None
     else bind_prog (publish_owner cf owner) (\<lambda>_. bind_prog (published_identity cf) (\<lambda>identity.
       Return (Some \<lparr>lk_owner = owner, lk_identity = identity, lk_state = Held\<rparr>)))) created" for created
    by (cases created) (simp_all add: wp_bind owned_publish owned_identity)
  have "owned_wp lock_owned acquire_error (bind_prog (prepare_parent cf) (\<lambda>_. bind_prog (create_directory cf 2)
      (\<lambda>created. if \<not> created then Return None
     else bind_prog (publish_owner cf owner) (\<lambda>_. bind_prog (published_identity cf) (\<lambda>identity.
       Return (Some \<lparr>lk_owner = owner, lk_identity = identity, lk_state = Held\<rparr>)))))) False"
    unfolding wp_bind [of _ _ _ _ "prepare_parent cf"] wp_bind [of _ _ _ _ "create_directory cf 2"]
    by (rule wp_mono [OF owned_prepare]) (use body wp_mono [OF owned_create] in fastforce)+
  then show ?thesis
    unfolding try_acquire_local_file_lock_def wp_bind [of _ _ _ _ "lift_prog _"] wp_lift
    by (simp split: sum.split)
qed

lemma owned_acquire_loop:
  "owned_wp lock_owned acquire_error (acquire_loop fuel cf path owner opts started) False"
proof (induction fuel)
  case (Suc fuel)
  show ?case
    unfolding acquire_loop.simps wp_bind
    by (rule wp_mono [OF owned_try_acquire]) (auto simp: wp_bind Suc.IH intro!: owned_intros)
qed simp

lemma owned_acquire:
  "owned_wp lock_owned acquire_error (acquire_local_file_lock fuel cf path owner options) False"
  unfolding acquire_local_file_lock_def wp_bind wp_lift
  by (auto split: sum.split intro!: owned_intros owned_acquire_loop)

lemma owned_scoped:
  assumes "\<And>lock. owned_wp (\<lambda>g _. g) (\<lambda>_ _. True) (work lock) True"
  shows "owned_wp (\<lambda>_ _. True) (\<lambda>_ _. True) (with_local_file_lock fuel cf path owner options work) False"
proof -
  have "owned_wp (\<lambda>_ _. True) (\<lambda>_ _. True) (case acquired of
       None \<Rightarrow> Return None
     | Some lock \<Rightarrow>
         bind_prog (work lock) (\<lambda>(worked, lock1).
         bind_prog (release cf lock1) (\<lambda>(_, released).
         bind_prog (scoped_outcome worked released) (\<lambda>v. Return (Some v))))) g" if "lock_owned g acquired" for acquired g
    using that by (auto simp: wp_bind scoped_outcome_def split: option.split
        intro!: wp_mono [OF assms] wp_mono [OF owned_release] split: option.splits)
  then show ?thesis
    unfolding with_local_file_lock_def wp_bind [of _ _ _ _ "catch_prog _ _"] wp_catch
    by (auto intro!: wp_mono [OF owned_acquire])
qed

end
