(* ===== verification/Local_Fs.thy ===== *)
theory Local_Fs
  imports Local_File
begin

text \<open>
  A file system around one lock path: the parent directory, the lock directory with its entries,
  the inodes the entries name, open directory streams and the clock. \<open>posix\<close> is the effect of each
  call when nothing goes wrong; \<open>fs_answers\<close> adds that any call may fail without effect and that
  time passes. The theory shows that this file system meets the contract \<open>exclusive_directory\<close>, and
  what the lock does on it.
\<close>

section \<open>Definitions\<close>

record inode =
  nd_kind :: node_kind
  nd_mode :: "32 word"
  nd_bytes :: "byte list"
  nd_nlink :: int
  nd_birth :: int

datatype lock_node = Lock_directory "32 word" "(js_string \<times> nat) list" | Lock_other node_kind

record files =
  fl_parent :: "32 word option"
  fl_lock :: "lock_node option"
  fl_inodes :: "nat \<Rightarrow> inode option"
  fl_streams :: "nat \<Rightarrow> js_string list"
  fl_next :: nat
  fl_clock :: rat

definition failing :: "string \<Rightarrow> fs_answer" where
  "failing code = Failed (Fs_error (Some code) code)"

definition stat_inode :: "nat \<Rightarrow> inode \<Rightarrow> metadata" where
  "stat_inode i nd = \<lparr>md_kind = nd_kind nd, md_mode = nd_mode nd, md_nlink = nd_nlink nd,
     md_size = int (length (nd_bytes nd)), md_dev = 1, md_ino = int i, md_birthtimeMs = nd_birth nd\<rparr>"

definition stat_kind :: "node_kind \<Rightarrow> 32 word \<Rightarrow> metadata" where
  "stat_kind k mode = \<lparr>md_kind = k, md_mode = mode, md_nlink = 1, md_size = 0, md_dev = 1, md_ino = 0, md_birthtimeMs = 0\<rparr>"

definition entries_of :: "files \<Rightarrow> (js_string \<times> nat) list" where
  "entries_of f = (case fl_lock f of Some (Lock_directory _ es) \<Rightarrow> es | _ \<Rightarrow> [])"

definition set_entries :: "(js_string \<times> nat) list \<Rightarrow> files \<Rightarrow> files" where
  "set_entries es f = (case fl_lock f of Some (Lock_directory mode _) \<Rightarrow> f\<lparr>fl_lock := Some (Lock_directory mode es)\<rparr> | _ \<Rightarrow> f)"

definition find_inode :: "js_string \<Rightarrow> files \<Rightarrow> (nat \<times> inode) option" where
  "find_inode name f =
     (case map_of (entries_of f) name of
        None \<Rightarrow> None
      | Some i \<Rightarrow> (case fl_inodes f i of None \<Rightarrow> None | Some nd \<Rightarrow> Some (i, nd)))"

definition without :: "js_string \<Rightarrow> (js_string \<times> nat) list \<Rightarrow> (js_string \<times> nat) list" where
  "without name es = filter (\<lambda>(n, _). n \<noteq> name) es"

fun posix :: "fs_call \<Rightarrow> files \<Rightarrow> fs_answer \<times> files" where
  "posix (Mkdir Lock) f =
     (if fl_parent f = None then (failing ''ENOENT'', f)
      else if fl_lock f \<noteq> None then (failing ''EEXIST'', f)
      else (Ok_answer, f\<lparr>fl_lock := Some (Lock_directory 0x1C0 [])\<rparr>))"
| "posix (Mkdir_recursive Parent) f =
     (Ok_answer, f\<lparr>fl_parent := Some (case fl_parent f of None \<Rightarrow> 0x1C0 | Some mode \<Rightarrow> mode)\<rparr>)"
| "posix (Lstat Parent) f =
     (case fl_parent f of None \<Rightarrow> failing ''ENOENT'' | Some mode \<Rightarrow> Stat_answer (stat_kind Directory_kind mode), f)"
| "posix (Lstat Lock) f =
     (case fl_lock f of
        None \<Rightarrow> failing ''ENOENT''
      | Some (Lock_directory mode _) \<Rightarrow> Stat_answer (stat_kind Directory_kind mode)
      | Some (Lock_other kind) \<Rightarrow> Stat_answer (stat_kind kind 0x180), f)"
| "posix (Lstat (Entry name)) f =
     (case find_inode name f of None \<Rightarrow> failing ''ENOENT'' | Some (i, nd) \<Rightarrow> Stat_answer (stat_inode i nd), f)"
| "posix (Open_exclusive (Entry name)) f =
     (case fl_lock f of
        Some (Lock_directory mode es) \<Rightarrow>
          (if map_of es name \<noteq> None then (failing ''EEXIST'', f)
           else (Handle_answer (fl_next f),
                 f\<lparr>fl_lock := Some (Lock_directory mode (es @ [(name, fl_next f)])),
                   fl_inodes := (fl_inodes f)(fl_next f \<mapsto>
                     \<lparr>nd_kind = File_kind, nd_mode = 0x180, nd_bytes = [], nd_nlink = 1, nd_birth = \<lfloor>fl_clock f\<rfloor>\<rparr>),
                   fl_next := fl_next f + 1\<rparr>))
      | _ \<Rightarrow> (failing ''ENOENT'', f))"
| "posix (Open_read (Entry name)) f =
     (case find_inode name f of
        None \<Rightarrow> failing ''ENOENT''
      | Some (i, nd) \<Rightarrow> if nd_kind nd = File_kind then Handle_answer i else failing ''ELOOP'', f)"
| "posix (Write_file h bytes) f =
     (case fl_inodes f h of
        None \<Rightarrow> (failing ''EBADF'', f)
      | Some nd \<Rightarrow> (Ok_answer, f\<lparr>fl_inodes := (fl_inodes f)(h \<mapsto> nd\<lparr>nd_bytes := bytes\<rparr>)\<rparr>))"
| "posix (Fstat h) f =
     (case fl_inodes f h of None \<Rightarrow> failing ''EBADF'' | Some nd \<Rightarrow> Stat_answer (stat_inode h nd), f)"
| "posix (Read_at h len pos) f =
     (case fl_inodes f h of None \<Rightarrow> failing ''EBADF'' | Some nd \<Rightarrow> Bytes_answer (take len (drop pos (nd_bytes nd))), f)"
| "posix (Rename (Entry a) (Entry b)) f =
     (case map_of (entries_of f) a of
        None \<Rightarrow> (failing ''ENOENT'', f)
      | Some i \<Rightarrow> (Ok_answer, set_entries (without a (without b (entries_of f)) @ [(b, i)]) f))"
| "posix (Unlink (Entry name)) f =
     (if map_of (entries_of f) name = None then (failing ''ENOENT'', f)
      else (Ok_answer, set_entries (without name (entries_of f)) f))"
| "posix (Rmdir Lock) f =
     (case fl_lock f of
        None \<Rightarrow> (failing ''ENOENT'', f)
      | Some (Lock_other _) \<Rightarrow> (failing ''ENOTDIR'', f)
      | Some (Lock_directory _ es) \<Rightarrow> if es \<noteq> [] then (failing ''ENOTEMPTY'', f) else (Ok_answer, f\<lparr>fl_lock := None\<rparr>))"
| "posix (Opendir Lock) f =
     (case fl_lock f of
        Some (Lock_directory _ es) \<Rightarrow>
          (Handle_answer (fl_next f), f\<lparr>fl_streams := (fl_streams f)(fl_next f := map fst es), fl_next := fl_next f + 1\<rparr>)
      | Some (Lock_other _) \<Rightarrow> (failing ''ENOTDIR'', f)
      | None \<Rightarrow> (failing ''ENOENT'', f))"
| "posix (Read_entry d) f =
     (case fl_streams f d of
        [] \<Rightarrow> (Entry_answer None, f)
      | n # ns \<Rightarrow> (Entry_answer (Some n), f\<lparr>fl_streams := (fl_streams f)(d := ns)\<rparr>))"
| "posix Now f = (Time_answer (fl_clock f), f)"
| "posix (Sleep ms) f = (Ok_answer, f\<lparr>fl_clock := fl_clock f + max 1 ms\<rparr>)"
| "posix (Sync h) f = (Ok_answer, f)"
| "posix (Close h) f = (Ok_answer, f)"
| "posix (Close_dir d) f = (Ok_answer, f)"
| "posix Critical f = (Ok_answer, f)"
| "posix _ f = (failing ''EINVAL'', f)"

text \<open>What may happen on a call: the effect, or a failure without effect; time passes.\<close>

definition fs_answers :: "fs_call \<Rightarrow> files \<Rightarrow> fs_answer \<Rightarrow> files \<Rightarrow> bool" where
  "fs_answers c f x f' \<longleftrightarrow> (\<exists>d \<ge> 0. \<exists>g. ((x, g) = posix c f \<or> (\<exists>e. x = Failed e) \<and> g = f) \<and>
     f' = g\<lparr>fl_clock := fl_clock g + d\<rparr>)"

definition lock_present :: "files \<Rightarrow> bool" where
  "lock_present f = (fl_lock f \<noteq> None)"

section \<open>The contract\<close>

lemma set_entries_lock [simp]: "fl_lock (set_entries es f) = None \<longleftrightarrow> fl_lock f = None"
  by (auto simp: set_entries_def split: option.split lock_node.split)

lemma posix_failed: "failed (fst (posix c f)) \<Longrightarrow> snd (posix c f) = f"
  by (cases "(c, f)" rule: posix.cases) (auto split: option.splits lock_node.splits if_splits list.splits)

lemma posix_other:
  "c \<noteq> Mkdir Lock \<Longrightarrow> c \<noteq> Rmdir Lock \<Longrightarrow> fl_lock (snd (posix c f)) = None \<longleftrightarrow> fl_lock f = None"
  by (cases "(c, f)" rule: posix.cases) (simp_all split: option.split lock_node.split list.split)

lemma fs_answers_cases:
  assumes "fs_answers c f x f'"
  shows "(fst (posix c f) = x \<and> fl_lock f' = fl_lock (snd (posix c f))) \<or> (\<exists>e. x = Failed e) \<and> fl_lock f' = fl_lock f"
proof -
  from assms obtain d g where g: "(x, g) = posix c f \<or> (\<exists>e. x = Failed e) \<and> g = f" "f' = g\<lparr>fl_clock := fl_clock g + d\<rparr>"
    unfolding fs_answers_def by blast
  then show ?thesis by (cases "posix c f") auto
qed

interpretation local_fs: exclusive_directory fs_answers lock_present
proof
  fix s x t
  assume "fs_answers (Mkdir Lock) s x t" "\<not> failed x"
  then show "\<not> lock_present s \<and> lock_present t"
    by (auto simp: lock_present_def failing_def dest!: fs_answers_cases split: if_splits)
next
  fix c s x t
  assume a: "fs_answers c s x t" "failed x"
  from fs_answers_cases [OF a(1)] posix_failed [of c s] a(2) show "lock_present t = lock_present s"
    by (elim disjE) (simp_all add: lock_present_def)
next
  fix s x t
  assume "fs_answers (Rmdir Lock) s x t" "\<not> failed x"
  then show "\<not> lock_present t"
    by (auto simp: lock_present_def failing_def dest!: fs_answers_cases split: option.splits lock_node.splits if_splits)
next
  fix c s x t
  assume a: "fs_answers c s x t" "c \<noteq> Mkdir Lock" "c \<noteq> Rmdir Lock"
  from fs_answers_cases [OF a(1)] posix_other [OF a(2,3), of s] show "lock_present t = lock_present s"
    by (auto simp: lock_present_def)
qed

section \<open>Runs without interference\<close>

lemmas calls = lstat_def fstat_def handle_of_def next_entry_def read_bytes_def clock_now_def do_call_def await_call_def

lemma find_inode_single: "fl_lock f = Some (Lock_directory mode [(n, i)]) \<Longrightarrow> fl_inodes f i = Some nd \<Longrightarrow>
    find_inode n f = Some (i, nd)"
  by (simp add: find_inode_def entries_of_def)

lemma run_no_fault [simp]:
  "cf_faults cf = [] \<Longrightarrow> run step (maybe_inject_local_file_test_fault cf point code) s = (Inr (), s)"
  "cf_faults cf = [] \<Longrightarrow> run step (maybe_simulate_local_file_test_crash cf point) s = (Inr (), s)"
  by (simp_all add: maybe_inject_local_file_test_fault_def maybe_simulate_local_file_test_crash_def
      local_file_test_fault_enabled_def)

lemma run_private_mode [simp]:
  "run step (validate_posix_private_mode cf mode label) s =
     (if \<not> cf_win32 cf \<and> mode AND 0x3F \<noteq> 0
      then Inl (compromised_error (label @ '' permissions widened beyond the private POSIX contract'')) else Inr (), s)"
  by (simp add: validate_posix_private_mode_def)

text \<open>The lock directory holds exactly the marker of this handle.\<close>

definition held_by :: "local_lock \<Rightarrow> nat \<Rightarrow> inode \<Rightarrow> files \<Rightarrow> bool" where
  "held_by lk i nd f \<longleftrightarrow> (\<exists>mode. fl_lock f = Some (Lock_directory mode [(LOCAL_FILE_LOCK_OWNER_FILE, i)]) \<and> mode AND 0x3F = 0) \<and>
     fl_inodes f i = Some nd \<and> nd_kind nd = File_kind \<and> nd_nlink nd = 1 \<and> nd_mode nd AND 0x3F = 0 \<and>
     nd_bytes nd = text_encode (lk_owner lk) \<and>
     lk_identity lk = \<lparr>oi_dev = 1, oi_ino = int i, oi_birthtime_ms = nd_birth nd\<rparr> \<and> lk_state lk = Held"

lemma run_prepare:
  assumes "cf_faults cf = []" and "cf_win32 cf \<or> (case fl_parent f of None \<Rightarrow> True | Some m \<Rightarrow> m AND 0x12 = 0)"
  shows "\<exists>m. run posix (prepare_parent cf) f = (Inr (), f\<lparr>fl_parent := Some m\<rparr>)"
  using assms
  by (cases "fl_parent f")
    (auto simp: prepare_parent_def validate_real_directory_def validate_posix_trusted_parent_def calls run_flow stat_kind_def)

lemma run_create:
  assumes "fl_lock f = None" and "fl_parent f \<noteq> None"
  shows "run posix (create_directory cf (Suc n)) f = (Inr True, f\<lparr>fl_lock := Some (Lock_directory 0x1C0 [])\<rparr>)"
  using assms
  by (auto simp: validate_posix_private_lock_directory_def calls run_flow stat_kind_def)

abbreviation marker :: "js_string \<Rightarrow> files \<Rightarrow> inode" where
  "marker owner f \<equiv> \<lparr>nd_kind = File_kind, nd_mode = 0x180, nd_bytes = text_encode owner, nd_nlink = 1, nd_birth = \<lfloor>fl_clock f\<rfloor>\<rparr>"

lemma names_differ [simp]: "LOCAL_FILE_LOCK_OWNER_PENDING_FILE \<noteq> LOCAL_FILE_LOCK_OWNER_FILE"
  "LOCAL_FILE_LOCK_OWNER_FILE \<noteq> LOCAL_FILE_LOCK_OWNER_PENDING_FILE"
  by (simp_all add: LOCAL_FILE_LOCK_OWNER_PENDING_FILE_def LOCAL_FILE_LOCK_OWNER_FILE_def)

lemma run_publish:
  assumes "fl_lock f = Some (Lock_directory mode [])" and "cf_faults cf = []"
  shows "run posix (publish_owner cf owner) f = (Inr (), f\<lparr>fl_lock := Some (Lock_directory mode [(LOCAL_FILE_LOCK_OWNER_FILE, fl_next f)]),
     fl_inodes := (fl_inodes f)(fl_next f \<mapsto> marker owner f), fl_next := fl_next f + 1\<rparr>)"
  using assms
  by (simp add: publish_owner_def write_pending_def publish_pending_def owner_target_free_def calls run_flow
      local_file_test_fault_enabled_def find_inode_def entries_of_def set_entries_def without_def failing_def)

lemma run_identity:
  assumes "held_by lk i nd f"
  shows "run posix (published_identity cf) f = (Inr (lk_identity lk), f)"
    "run posix (read_local_file_owner_identity owner_place) f = (Inr (lk_identity lk), f)"
    "run posix (validate_regular_file cf owner_place label) f = (Inr (), f)"
  using assms find_inode_single [of f _ LOCAL_FILE_LOCK_OWNER_FILE i nd]
  by (auto simp: held_by_def published_identity_def validate_regular_file_def read_local_file_owner_identity_def
      calls run_flow stat_inode_def)

lemma try_acquire_free:
  assumes "validate_local_file_lock_path cf path = Inr ()" and "validate_local_file_lock_owner owner = Inr ()"
    and "cf_faults cf = []" and "fl_lock f = None"
    and "cf_win32 cf \<or> (case fl_parent f of None \<Rightarrow> True | Some m \<Rightarrow> m AND 0x12 = 0)"
  shows "\<exists>lk f'. run posix (try_acquire_local_file_lock cf path owner) f = (Inr (Some lk), f') \<and>
    lk_owner lk = owner \<and> held_by lk (fl_next f) (marker owner f) f'"
proof -
  from run_prepare [OF assms(3,5)] obtain m where m: "run posix (prepare_parent cf) f = (Inr (), f\<lparr>fl_parent := Some m\<rparr>)" ..
  define g where "g = f\<lparr>fl_parent := Some m, fl_lock := Some (Lock_directory 0x1C0 [(LOCAL_FILE_LOCK_OWNER_FILE, fl_next f)]),
     fl_inodes := (fl_inodes f)(fl_next f \<mapsto> marker owner f), fl_next := fl_next f + 1\<rparr>"
  define lk where "lk = \<lparr>lk_owner = owner, lk_identity = \<lparr>oi_dev = 1, oi_ino = int (fl_next f),
     oi_birthtime_ms = \<lfloor>fl_clock f\<rfloor>\<rparr>, lk_state = Held\<rparr>"
  have held: "held_by lk (fl_next f) (marker owner f) g" by (simp add: held_by_def g_def lk_def)
  have create: "run posix (create_directory cf 2) (f\<lparr>fl_parent := Some m\<rparr>) =
      (Inr True, f\<lparr>fl_parent := Some m, fl_lock := Some (Lock_directory 0x1C0 [])\<rparr>)"
    using run_create [of "f\<lparr>fl_parent := Some m\<rparr>" cf 1] assms(4) by (simp add: numeral_2_eq_2)
  have publish: "run posix (publish_owner cf owner) (f\<lparr>fl_parent := Some m, fl_lock := Some (Lock_directory 0x1C0 [])\<rparr>) = (Inr (), g)"
    using run_publish [of "f\<lparr>fl_parent := Some m, fl_lock := Some (Lock_directory 0x1C0 [])\<rparr>" "0x1C0" cf owner] assms(3)
    by (simp add: g_def)
  have "run posix (try_acquire_local_file_lock cf path owner) f = (Inr (Some lk), g)"
    using run_identity(1) [OF held]
    by (simp add: try_acquire_local_file_lock_def run_flow assms(1,2) m create publish lk_def)
  then show ?thesis using held by (auto simp: lk_def)
qed

lemma run_read_owner_bytes:
  assumes "fl_inodes f h = Some nd" and "length (nd_bytes nd) \<le> MAX_LOCAL_FILE_LOCK_OWNER_UTF8_BYTES"
  shows "run posix (read_owner_bytes (Suc (Suc n)) h []) f = (Inr (nd_bytes nd), f)"
  using assms by (simp add: calls run_flow)

lemma owner_within_bound:
  assumes "validate_local_file_lock_owner owner = Inr ()"
  shows "length (text_encode owner) \<le> MAX_LOCAL_FILE_LOCK_OWNER_UTF8_BYTES"
  using assms text_encode_length [of owner]
  by (auto simp: validate_local_file_lock_owner_def and_then_eq_Inr MAX_LOCAL_FILE_LOCK_OWNER_UTF8_BYTES_def)

text \<open>Reading the marker back gives the decoded bytes.\<close>

lemma run_read_owner:
  assumes "held_by lk i nd f" and "validate_local_file_lock_owner (lk_owner lk) = Inr ()" and "cf_faults cf = []"
  shows "run posix (read_bounded_local_file_lock_owner cf owner_place) f =
    (case text_decode_fatal (text_encode (lk_owner lk)) of
       None \<Rightarrow> Inl (Local_error LCompromised ''owner token is not valid UTF-8'' (Some decoding_error))
     | Some observed \<Rightarrow> Inr observed, f)"
proof -
  from assms(1) have nd: "find_inode LOCAL_FILE_LOCK_OWNER_FILE f = Some (i, nd)" "fl_inodes f i = Some nd"
    "nd_kind nd = File_kind" "nd_nlink nd = 1" "nd_mode nd AND 0x3F = 0" "nd_bytes nd = text_encode (lk_owner lk)"
    by (auto simp: held_by_def intro: find_inode_single)
  note bound = owner_within_bound [OF assms(2)]
  have bytes: "run posix (read_owner_bytes (MAX_LOCAL_FILE_LOCK_OWNER_UTF8_BYTES + 1) i []) f = (Inr (text_encode (lk_owner lk)), f)"
    using run_read_owner_bytes [OF nd(2), of "MAX_LOCAL_FILE_LOCK_OWNER_UTF8_BYTES - 1"] bound nd(6)
    by (simp add: MAX_LOCAL_FILE_LOCK_OWNER_UTF8_BYTES_def MAX_LOCAL_FILE_LOCK_OWNER_CODEPOINTS_def)
  have checked: "run posix (owner_path_checked cf owner_place) f = (Inr (stat_inode i nd), f)"
    using nd bound assms(3) by (simp add: owner_path_checked_def calls run_flow stat_inode_def)
  have opened: "run posix (opened_owner_checked cf (stat_inode i nd) i) f = (Inr (), f)"
    using nd bound by (simp add: opened_owner_checked_def calls run_flow stat_inode_def)
  have decoded: "run posix (owner_decoded i) f = (case text_decode_fatal (text_encode (lk_owner lk)) of
       None \<Rightarrow> Inl (Local_error LCompromised ''owner token is not valid UTF-8'' (Some decoding_error))
     | Some observed \<Rightarrow> Inr observed, f)"
    using bytes bound by (simp add: owner_decoded_def run_flow split: option.split)
  show ?thesis
    unfolding read_bounded_local_file_lock_owner_def
    using nd(1,3) by (simp add: run_flow checked opened decoded handle_of_def do_call_def await_call_def wrap_owner_read_def
        wrap_missing_def split: option.split)
qed

definition same_files :: "files \<Rightarrow> files \<Rightarrow> bool" where
  "same_files f g \<longleftrightarrow> fl_lock g = fl_lock f \<and> fl_parent g = fl_parent f \<and> fl_inodes g = fl_inodes f"

lemma run_entries:
  assumes "fl_lock f = Some (Lock_directory mode [(n, i)])"
  shows "\<exists>g. run posix (read_local_file_lock_entry_names_bounded Lock) f = (Inr [n], g) \<and> same_files f g"
  using assms by (simp add: read_local_file_lock_entry_names_bounded_def calls run_flow same_files_def)

lemma held_by_same: "same_files f g \<Longrightarrow> held_by lk i nd g = held_by lk i nd f"
  by (simp add: held_by_def same_files_def)

text \<open>
  The checks of \<open>release\<close> on a held lock come down to two comparisons: of the marker's identity,
  then of the owner token that is read back.
\<close>

lemma run_release_checks:
  assumes "held_by lk i nd f" and "validate_local_file_lock_owner (lk_owner lk) = Inr ()" and "cf_faults cf = []"
    and "text_decode_fatal (text_encode (lk_owner lk)) = Some observed"
  shows "\<exists>g. same_files f g \<and> run posix (release_checks cf lk') f =
    (if lk_identity lk' \<noteq> lk_identity lk
     then Inl (compromised_error ''owner marker identity changed; refusing stale-handle release across recovery/reacquisition'')
     else if observed \<noteq> lk_owner lk'
     then Inl (compromised_error ''owner token changed; refusing to remove a lock that may belong to another acquisition'')
     else Inr (), g)"
proof -
  from assms(1) obtain mode where dir: "fl_lock f = Some (Lock_directory mode [(LOCAL_FILE_LOCK_OWNER_FILE, i)])" "mode AND 0x3F = 0"
    by (auto simp: held_by_def)
  from run_entries [OF dir(1)] obtain g where
    entries: "run posix (read_local_file_lock_entry_names_bounded Lock) f = (Inr [LOCAL_FILE_LOCK_OWNER_FILE], g)"
    and g: "same_files f g" by blast
  have held: "held_by lk i nd g" using assms(1) held_by_same [OF g] by simp
  have dirs: "run posix (validate_real_directory Lock ''lock directory'') f = (Inr (), f)"
    "run posix (validate_posix_private_lock_directory cf Lock) f = (Inr (), f)"
    using dir by (simp_all add: validate_real_directory_def validate_posix_private_lock_directory_def calls run_flow stat_kind_def)
  have eq: "same_local_file_owner_identity (lk_identity lk') (lk_identity lk) = (lk_identity lk' = lk_identity lk)"
    by (cases "lk_identity lk"; cases "lk_identity lk'") (auto simp: same_local_file_owner_identity_def)
  have "run posix (release_checks cf lk') f =
    (if lk_identity lk' \<noteq> lk_identity lk
     then Inl (compromised_error ''owner marker identity changed; refusing stale-handle release across recovery/reacquisition'')
     else if observed \<noteq> lk_owner lk'
     then Inl (compromised_error ''owner token changed; refusing to remove a lock that may belong to another acquisition'')
     else Inr (), g)"
    by (simp add: release_checks_def run_flow dirs entries run_identity(2,3) [OF held]
        run_read_owner [OF held assms(2,3)] assms(4) eq)
  with g show ?thesis by blast
qed

lemma owner_well_formed: "validate_local_file_lock_owner owner = Inr () \<Longrightarrow> well_formed owner"
  by (simp add: validate_local_file_lock_owner_def and_then_eq_Inr has_lone_surrogate_iff)

lemma release_held:
  assumes "held_by lk i nd f" and "validate_local_file_lock_owner (lk_owner lk) = Inr ()" and "cf_faults cf = []"
    and "\<forall>t. lk_owner lk \<noteq> 0xFEFF # t"
  shows "\<exists>f'. run posix (release cf lk) f = (Inr (lk\<lparr>lk_state := Released\<rparr>, Inr ()), f') \<and>
    fl_lock f' = None \<and> fl_parent f' = fl_parent f \<and> fl_inodes f' = fl_inodes f"
proof -
  note decode = text_decode_encode [OF owner_well_formed [OF assms(2)] assms(4)]
  from run_release_checks [OF assms(1-3) decode, of lk] obtain g where
    checks: "run posix (release_checks cf lk) f = (Inr (), g)" and g: "same_files f g" by auto
  from assms(1) held_by_same [OF g] have "held_by lk i nd g" by simp
  with g show ?thesis
    by (auto simp: held_by_def same_files_def release_def release_once_def run_flow checks calls assms(3) entries_of_def
        set_entries_def without_def)
qed

text \<open>A refused release leaves the lock and the handle as they were.\<close>

lemma release_refused:
  assumes "held_by lk i nd f" and "validate_local_file_lock_owner (lk_owner lk) = Inr ()" and "cf_faults cf = []"
    and "text_decode_fatal (text_encode (lk_owner lk)) = Some observed"
    and "lk_identity lk' \<noteq> lk_identity lk \<or> observed \<noteq> lk_owner lk'" and "lk_state lk' = Held"
  shows "\<exists>m f'. run posix (release cf lk') f = (Inr (lk', Inl (compromised_error m)), f') \<and> held_by lk i nd f'"
proof -
  from run_release_checks [OF assms(1-4), of lk'] obtain g m where
    checks: "run posix (release_checks cf lk') f = (Inl (compromised_error m), g)" and g: "same_files f g"
    using assms(5) by (auto split: if_splits)
  have "lk'\<lparr>lk_state := Held\<rparr> = lk'" using assms(6) by (cases lk') simp
  with checks assms(1,6) held_by_same [OF g] show ?thesis
    by (auto simp: release_def release_once_def run_flow)
qed

text \<open>While the directory is there, an acquisition finds contention and changes nothing in it.\<close>

lemma try_acquire_contended:
  assumes "validate_local_file_lock_path cf path = Inr ()" and "validate_local_file_lock_owner owner = Inr ()"
    and "cf_faults cf = []" and "fl_lock f = Some (Lock_directory mode es)"
    and "cf_win32 cf \<or> (case fl_parent f of None \<Rightarrow> True | Some m \<Rightarrow> m AND 0x12 = 0)"
  shows "\<exists>f'. run posix (try_acquire_local_file_lock cf path owner) f = (Inr None, f') \<and> fl_lock f' = fl_lock f \<and>
    fl_inodes f' = fl_inodes f"
proof -
  from run_prepare [OF assms(3,5)] obtain m where m: "run posix (prepare_parent cf) f = (Inr (), f\<lparr>fl_parent := Some m\<rparr>)" ..
  have "run posix (create_directory cf 2) (f\<lparr>fl_parent := Some m\<rparr>) = (Inr False, f\<lparr>fl_parent := Some m\<rparr>)"
    using assms(4) by (simp add: numeral_2_eq_2 inspect_contended_def calls run_flow failing_def stat_kind_def)
  then show ?thesis
    by (simp add: try_acquire_local_file_lock_def run_flow assms(1,2) m)
qed

text \<open>A clock that never goes back and that a sleep moves on by a millisecond.\<close>

definition clock_law :: "(fs_call \<Rightarrow> 's \<Rightarrow> fs_answer \<times> 's) \<Rightarrow> ('s \<Rightarrow> rat) \<Rightarrow> bool" where
  "clock_law step clock \<longleftrightarrow>
     (\<forall>c s. clock s \<le> clock (snd (step c s))) \<and> (\<forall>ms s. clock s + 1 \<le> clock (snd (step (Sleep ms) s))) \<and>
     (\<forall>s t. fst (step Now s) = Time_answer t \<longrightarrow> t = clock s)"

lemma run_clock: "clock_law step clock \<Longrightarrow> clock s \<le> clock (snd (run step p s))"
proof (induction p arbitrary: s)
  case (Call c k)
  have "clock s \<le> clock (snd (step c s))" using Call.prems by (simp add: clock_law_def)
  also have "\<dots> \<le> clock (snd (run step (k (fst (step c s))) (snd (step c s))))" using Call.IH Call.prems by simp
  finally show ?case by simp
qed simp_all

lemma run_now:
  assumes "clock_law step clock" and "run step clock_now s = (Inr t, s')"
  shows "t = clock s \<and> clock s \<le> clock s'"
proof -
  have le: "clock s \<le> clock (snd (step Now s))" using assms(1) by (simp add: clock_law_def)
  from assms(2) have "fst (step Now s) = Time_answer t" and s': "s' = snd (step Now s)"
    by (auto simp: calls split: fs_answer.splits)
  with assms(1) have "t = clock s" by (simp add: clock_law_def)
  with le s' show ?thesis by simp
qed

lemma acquire_loop_ends:
  assumes law: "clock_law step clock"
    and "of_int (lo_wait_timeout_ms opts) - (clock s - started) + 1 < of_nat fuel" and "0 < fuel"
  shows "fst (run step (acquire_loop fuel cf path owner opts started) s) \<noteq> Inr None"
  using assms(2,3)
proof (induction fuel arbitrary: s)
  case (Suc fuel)
  obtain r s1 where r: "run step (try_acquire_local_file_lock cf path owner) s = (r, s1)" by fastforce
  obtain t s2 where t: "run step clock_now s1 = (t, s2)" by fastforce
  have s1: "clock s \<le> clock s1" using run_clock [OF law, of s "try_acquire_local_file_lock cf path owner"] r by simp
  show ?case
  proof (cases "r = Inr None \<and> lo_wait opts \<and> (\<exists>now. t = Inr now \<and> now - started < of_int (lo_wait_timeout_ms opts))")
    case False
    with r t show ?thesis by (cases r; cases t) (auto simp: run_flow)
  next
    case True
    then obtain now where now: "t = Inr now" "now - started < of_int (lo_wait_timeout_ms opts)" by blast
    from run_now [OF law t [unfolded now(1)]] have n: "now = clock s1" "clock s1 \<le> clock s2" by simp_all
    define ms where "ms = local_file_lock_sleep_delay_ms (of_int (lo_retry_interval_ms opts))
       (of_int (lo_wait_timeout_ms opts) - (now - started))"
    obtain u s3 where u: "run step (do_call (Sleep ms)) s2 = (u, s3)" by fastforce
    have s3: "clock s2 + 1 \<le> clock s3"
      using u law by (auto simp: calls clock_law_def split: fs_answer.splits)
    have body: "run step (acquire_loop (Suc fuel) cf path owner opts started) s =
        (case u of Inl e \<Rightarrow> (Inl e, s3) | Inr _ \<Rightarrow> run step (acquire_loop fuel cf path owner opts started) s3)"
      using r t u True now by (simp add: run_flow ms_def split: sum.split)
    have less: "of_int (lo_wait_timeout_ms opts) - (clock s3 - started) + 1 < of_nat fuel"
      using Suc.prems(1) s1 n s3 by simp
    have "0 < fuel"
    proof (rule ccontr)
      assume "\<not> 0 < fuel"
      then show False using Suc.prems(1) now(2) n(1) s1 by simp
    qed
    from Suc.IH [OF less this] show ?thesis unfolding body by (cases u) simp_all
  qed
qed simp

lemma run_parent: "fl_parent f = Some m \<Longrightarrow> fl_parent (snd (run posix p f)) = Some m"
proof (induction p arbitrary: f)
  case (Call c k)
  have "fl_parent (snd (posix c f)) = Some m"
    using Call.prems by (cases "(c, f)" rule: posix.cases)
      (simp_all add: set_entries_def split: option.split lock_node.split list.split)
  then show ?case using Call.IH by simp
qed simp_all

section \<open>Properties\<close>

text \<open>
  C3: mutual exclusion of the local file lock. Any number of processes, each running
  \<open>with_local_file_lock\<close> with its own owner, options, platform and test faults on the same lock path,
  interleaved call by call in any order, with any call failing at any moment: two of them are never
  inside their work at the same time. This holds from any initial state of the file system and also
  when acquisitions crash half way.
\<close>

theorem local_lock_mutual_exclusion:
  assumes "\<And>i. \<exists>fuel cf path owner options. sys_procs s0 i =
      with_local_file_lock fuel cf path owner options (\<lambda>lock. Call Critical (\<lambda>_. Return (Inr (), lock)))"
    and "reachable_from (interleaved fs_answers) s0 s"
    and "at_critical s i" and "at_critical s j"
  shows "i = j"
proof (rule local_fs.mutual_exclusion [OF _ assms(2-4)])
  fix i
  obtain fuel cf path owner options where p: "sys_procs s0 i =
      with_local_file_lock fuel cf path owner options (\<lambda>lock. Call Critical (\<lambda>_. Return (Inr (), lock)))"
    using assms(1) [of i] by blast
  show "owned_wp (\<lambda>_ _. True) (\<lambda>_ _. True) (sys_procs s0 i) False"
    unfolding p by (rule owned_scoped) (simp add: own_allowed_def own_next_def)
qed

text \<open>
  C9: an acquisition that runs alone leaves nothing behind without saying so. From a state without
  the lock directory and whatever calls fail: if it returns a lock the directory is there; if it
  returns none the directory is not; if it throws and the directory is still there, the error is
  \<open>compromised\<close>, the simulated crash, or the I/O error of the permission check right after the
  directory was created.
\<close>

theorem local_acquire_failure_atomic:
  assumes "\<not> lock_present f" and "\<And>c f. fs_answers c f (fst (step c f)) (snd (step c f))"
    and "run step (try_acquire_local_file_lock cf path owner) f = (r, f')"
  shows "(\<forall>lock. r = Inr lock \<longrightarrow> lock_present f' = (lock \<noteq> None)) \<and>
    (\<forall>e. r = Inl e \<longrightarrow> lock_present f' \<longrightarrow> leaves_directory e)"
  using local_fs.run_alone [of lock_owned acquire_error "try_acquire_local_file_lock cf path owner" f step]
    owned_try_acquire [of cf path owner] assms
  by (cases r) (auto simp: lock_owned_def acquire_error_def)

text \<open>
  Acquire and release are inverse. On a file system without the lock, with valid inputs, a
  trusted parent and no failing call, the acquisition returns a lock; while it is held every other
  acquisition of the path finds contention and leaves it alone; releasing it succeeds and removes
  the directory, after which the path can be acquired again. The owner must not start with U+FEFF.
\<close>

theorem local_acquire_release:
  assumes "validate_local_file_lock_path cf path = Inr ()" and "validate_local_file_lock_owner owner = Inr ()"
    and "cf_faults cf = []" and "fl_lock f = None" and "fl_parent f = Some m" and "m AND 0x12 = 0"
    and "\<forall>t. owner \<noteq> 0xFEFF # t"
  shows "\<exists>lk f1 f2. run posix (try_acquire_local_file_lock cf path owner) f = (Inr (Some lk), f1) \<and>
    (\<forall>owner'. validate_local_file_lock_owner owner' = Inr () \<longrightarrow>
       (\<exists>f'. run posix (try_acquire_local_file_lock cf path owner') f1 = (Inr None, f') \<and> fl_lock f' = fl_lock f1)) \<and>
    run posix (release cf lk) f1 = (Inr (lk\<lparr>lk_state := Released\<rparr>, Inr ()), f2) \<and> fl_lock f2 = None \<and>
    (\<exists>lk' f3. run posix (try_acquire_local_file_lock cf path owner) f2 = (Inr (Some lk'), f3))"
proof -
  from try_acquire_free [OF assms(1-4)] assms(5,6) obtain lk f1 where
    acquired: "run posix (try_acquire_local_file_lock cf path owner) f = (Inr (Some lk), f1)"
    and lk: "lk_owner lk = owner" and held: "held_by lk (fl_next f) (marker owner f) f1" by auto
  have parent: "fl_parent f1 = Some m"
    using run_parent [of f m "try_acquire_local_file_lock cf path owner"] acquired assms(5) by simp
  from release_held [OF held] lk assms(2,3,7) obtain f2 where
    rel: "run posix (release cf lk) f1 = (Inr (lk\<lparr>lk_state := Released\<rparr>, Inr ()), f2)" "fl_lock f2 = None" "fl_parent f2 = Some m"
    using parent by auto
  have other: "\<exists>f'. run posix (try_acquire_local_file_lock cf path owner') f1 = (Inr None, f') \<and> fl_lock f' = fl_lock f1"
    if "validate_local_file_lock_owner owner' = Inr ()" for owner'
    using try_acquire_contended [OF assms(1) that assms(3)] held parent assms(6) by (fastforce simp: held_by_def)
  from try_acquire_free [OF assms(1-3) rel(2)] rel(3) assms(6) obtain lk' f3 where
    "run posix (try_acquire_local_file_lock cf path owner) f2 = (Inr (Some lk'), f3)" by auto
  with acquired other rel(1,2) show ?thesis by blast
qed

text \<open>
  A handle only ever removes its own marker. If the lock is held under a marker with another
  identity (device, inode or birth time), as after a recovery and a new acquisition, releasing the
  old handle is refused as \<open>compromised\<close> even when the owner tokens are equal, and the lock stays
  exactly as it was.
\<close>

theorem local_stale_release_refused:
  assumes "held_by lk i nd f" and "validate_local_file_lock_owner (lk_owner lk) = Inr ()" and "cf_faults cf = []"
    and "\<forall>t. lk_owner lk \<noteq> 0xFEFF # t" and "lk_state lk' = Held" and "lk_identity lk' \<noteq> lk_identity lk"
  shows "\<exists>message f'. run posix (release cf lk') f = (Inr (lk', Inl (compromised_error message)), f') \<and> held_by lk i nd f'"
  using release_refused [OF assms(1-3) text_decode_encode [OF owner_well_formed [OF assms(2)] assms(4)] _ assms(5)] assms(6)
  by blast

text \<open>
  An owner that starts with U+FEFF passes validation and acquires the lock, but the decoder that
  reads the marker back drops the mark, so the handle's own release is refused as \<open>compromised\<close> and
  the lock stays held.
\<close>

theorem local_bom_owner_stuck:
  assumes "validate_local_file_lock_path cf path = Inr ()" and "validate_local_file_lock_owner (0xFEFF # t) = Inr ()"
    and "cf_faults cf = []" and "fl_lock f = None" and "fl_parent f = Some m" and "m AND 0x12 = 0"
  shows "\<exists>lk f1 message f2. run posix (try_acquire_local_file_lock cf path (0xFEFF # t)) f = (Inr (Some lk), f1) \<and>
    run posix (release cf lk) f1 = (Inr (lk, Inl (compromised_error message)), f2) \<and> fl_lock f2 \<noteq> None"
proof -
  from try_acquire_free [OF assms(1-4)] assms(5,6) obtain lk f1 where
    acquired: "run posix (try_acquire_local_file_lock cf path (0xFEFF # t)) f = (Inr (Some lk), f1)"
    and lk: "lk_owner lk = 0xFEFF # t" and held: "held_by lk (fl_next f) (marker (0xFEFF # t) f) f1" by auto
  have "well_formed t" using owner_well_formed [OF assms(2)] well_formed_bom_cons by blast
  then have decode: "text_decode_fatal (text_encode (lk_owner lk)) = Some t" by (simp add: lk text_decode_encode_bom)
  have "lk_state lk = Held" using held by (simp add: held_by_def)
  with release_refused [OF held _ assms(3) decode, of lk] lk assms(2) obtain message f2 where
    "run posix (release cf lk) f1 = (Inr (lk, Inl (compromised_error message)), f2)" "held_by lk (fl_next f) (marker (0xFEFF # t) f) f2"
    by auto
  with acquired show ?thesis by (auto simp: held_by_def)
qed

text \<open>
  C10: waiting for the lock ends. On any file system whose clock never goes back and moves on by a
  millisecond over a sleep, an acquisition with enough fuel returns a lock or throws: it does not
  run out of turns.
\<close>

theorem local_acquire_ends:
  assumes "clock_law step clock"
    and "\<And>opts. validate_options options = Inr opts \<Longrightarrow> nat (lo_wait_timeout_ms opts) + 2 \<le> fuel"
  shows "fst (run step (acquire_local_file_lock fuel cf path owner options) s) \<noteq> Inr None"
proof -
  obtain t s1 where t: "run step clock_now s = (t, s1)" by fastforce
  have "fst (run step (acquire_loop fuel cf path owner opts started) s1) \<noteq> Inr None"
    if o: "validate_options options = Inr opts" and "t = Inr started" for opts started
  proof (rule acquire_loop_ends [OF assms(1)])
    have "started \<le> clock s1" using run_now [OF assms(1), of s started s1] t that(2) by simp
    moreover have "of_int (lo_wait_timeout_ms opts) \<le> (of_nat (nat (lo_wait_timeout_ms opts)) :: rat)"
      by (simp add: of_nat_nat) 
    moreover have "(of_nat (nat (lo_wait_timeout_ms opts)) :: rat) + 2 \<le> of_nat fuel"
      using assms(2) [OF o] by (metis of_nat_add of_nat_le_iff of_nat_numeral)
    ultimately show "of_int (lo_wait_timeout_ms opts) - (clock s1 - started) + 1 < of_nat fuel" by linarith
    show "0 < fuel" using assms(2) [OF o] by simp
  qed
  with t show ?thesis
    by (auto simp: acquire_local_file_lock_def run_flow split: sum.split)
qed

section \<open>Witnesses\<close>

text \<open>A process that runs a part of its program alone takes the system there.\<close>

lemma posix_answers: "fs_answers c f (fst (posix c f)) (snd (posix c f))"
  unfolding fs_answers_def by (rule exI [of _ 0]) (simp add: exI [of _ "snd (posix c f)"])

lemma reach_run:
  assumes "sys_procs s i = bind_prog p k" and "run posix p (sys_files s) = (Inr a, f)"
  shows "reachable_from (interleaved fs_answers) s (s\<lparr>sys_files := f, sys_procs := (sys_procs s)(i := k a)\<rparr>)"
  using assms
proof (induction p arbitrary: s)
  case (Return b)
  then have "s\<lparr>sys_files := f, sys_procs := (sys_procs s)(i := k a)\<rparr> = s" by (cases s) auto
  then show ?case by (simp only: reachable_from.here)
next
  case (Call c h)
  define x g where "x = fst (posix c (sys_files s))" and "g = snd (posix c (sys_files s))"
  define s1 where "s1 = s\<lparr>sys_files := g, sys_procs := (sys_procs s)(i := bind_prog (h x) k)\<rparr>"
  have "interleaved fs_answers s s1"
    unfolding s1_def by (rule interleaved.call [where k = "\<lambda>x. bind_prog (h x) k"])
      (use Call.prems posix_answers [of c "sys_files s"] in \<open>simp_all add: x_def g_def\<close>)
  then have first: "reachable_from (interleaved fs_answers) s s1" by (meson reachable_from.intros)
  have "reachable_from (interleaved fs_answers) s1 (s1\<lparr>sys_files := f, sys_procs := (sys_procs s1)(i := k a)\<rparr>)"
    by (rule Call.IH [of "h x"]) (use Call.prems in \<open>simp_all add: s1_def x_def g_def\<close>)
  note reached = reachable_trans [OF this first]
  have "s1\<lparr>sys_files := f, sys_procs := (sys_procs s1)(i := k a)\<rparr> = s\<lparr>sys_files := f, sys_procs := (sys_procs s)(i := k a)\<rparr>"
    by (simp add: s1_def)
  with reached show ?case by (simp only:)
qed simp

abbreviation sample_config :: local_config where "sample_config \<equiv> \<lparr>cf_win32 = False, cf_faults = []\<rparr>"

definition sample_path :: js_string where "sample_path = js ''/run/lock''"

abbreviation sample_files :: files where
  "sample_files \<equiv> \<lparr>fl_parent = Some 0x1C0, fl_lock = None, fl_inodes = (\<lambda>_. None), fl_streams = (\<lambda>_. []), fl_next = 7, fl_clock = 0\<rparr>"

lemma sample_path_valid: "validate_local_file_lock_path sample_config sample_path = Inr ()"
  by code_simp

lemma sample_owner: "js ''a'' = [97]"
  by code_simp

lemma sample_owner_valid:
  "validate_local_file_lock_owner (js ''a'') = Inr ()" "validate_local_file_lock_owner (0xFEFF # js ''a'') = Inr ()"
  by (simp_all add: sample_owner validate_local_file_lock_owner_def is_lead_def is_trail_def
      MAX_LOCAL_FILE_LOCK_OWNER_CODEPOINTS_def)

lemma sample_owner_plain: "\<forall>t. js ''a'' \<noteq> 0xFEFF # t"
  by (simp add: sample_owner)

definition sample_system :: "(files, unit option option) system" where
  "sample_system = \<lparr>sys_files = sample_files, sys_procs = (\<lambda>i. with_local_file_lock 3 sample_config sample_path (js ''a'') []
     (\<lambda>lock. Call Critical (\<lambda>_. Return (Inr (), lock))))\<rparr>"

lemma sample_lock_acquired: "\<exists>lk f. run posix (try_acquire_local_file_lock sample_config sample_path (js ''a'')) sample_files =
    (Inr (Some lk), f) \<and> lk_owner lk = js ''a'' \<and> held_by lk 7 (marker (js ''a'') sample_files) f"
  using try_acquire_free [OF sample_path_valid sample_owner_valid(1), of sample_files] by simp

lemma sample_reaches_critical: "\<exists>s. reachable_from (interleaved fs_answers) sample_system s \<and> at_critical s 0"
proof -
  obtain lk f where tried: "run posix (try_acquire_local_file_lock sample_config sample_path (js ''a'')) sample_files = (Inr (Some lk), f)"
    using sample_lock_acquired by blast
  have opts: "\<exists>opts. validate_options [] = Inr opts"
    by (simp add: validate_options_def resolved_option_def has_own_def non_negative_safe_def MAX_SAFE_INTEGER_def)
  have "run posix (catch_prog (acquire_local_file_lock 3 sample_config sample_path (js ''a'') [])
      (\<lambda>e. Throw (Scoped_error Scoped_lock (Some e) None))) (sys_files sample_system) = (Inr (Some lk), f)"
    using opts tried by (auto simp: acquire_local_file_lock_def run_flow sample_path_valid sample_owner_valid calls
        sample_system_def eval_nat_numeral)
  from reach_run [OF _ this, of 0] show ?thesis
    by (force simp: sample_system_def with_local_file_lock_def at_critical_def)
qed

theorem local_lock_mutual_exclusion_witness:
  "\<exists>s. reachable_from (interleaved fs_answers) sample_system s \<and> at_critical s 0 \<and> (\<forall>j. at_critical s j \<longrightarrow> 0 = j)"
proof -
  obtain s where s: "reachable_from (interleaved fs_answers) sample_system s" "at_critical s 0"
    using sample_reaches_critical by blast
  have "\<exists>fuel cf path owner options. sys_procs sample_system i =
      with_local_file_lock fuel cf path owner options (\<lambda>lock. Call Critical (\<lambda>_. Return (Inr (), lock)))" for i
    unfolding sample_system_def system.select_convs by (intro exI) (rule refl)
  from local_lock_mutual_exclusion [OF this s(1) s(2)] s show ?thesis by blast
qed

theorem local_acquire_failure_atomic_witness:
  "\<exists>lk f. run posix (try_acquire_local_file_lock sample_config sample_path (js ''a'')) sample_files = (Inr (Some lk), f) \<and> lock_present f"
proof -
  obtain lk f where tried: "run posix (try_acquire_local_file_lock sample_config sample_path (js ''a'')) sample_files = (Inr (Some lk), f)"
    using sample_lock_acquired by blast
  from local_acquire_failure_atomic [OF _ posix_answers tried] tried show ?thesis by (simp add: lock_present_def)
qed

theorem local_acquire_release_witness:
  "\<exists>lk f1 f2. run posix (try_acquire_local_file_lock sample_config sample_path (js ''a'')) sample_files = (Inr (Some lk), f1) \<and>
     run posix (release sample_config lk) f1 = (Inr (lk\<lparr>lk_state := Released\<rparr>, Inr ()), f2) \<and> fl_lock f2 = None"
  using local_acquire_release [OF sample_path_valid sample_owner_valid(1), of sample_files "0x1C0"] sample_owner_plain by simp blast

theorem local_stale_release_refused_witness:
  "\<exists>lk lk' f message f'. held_by lk 7 (marker (js ''a'') sample_files) f \<and> lk_owner lk' = lk_owner lk \<and>
     run posix (release sample_config lk') f = (Inr (lk', Inl (compromised_error message)), f') \<and>
     held_by lk 7 (marker (js ''a'') sample_files) f'"
proof -
  obtain lk f where held: "held_by lk 7 (marker (js ''a'') sample_files) f" and lk: "lk_owner lk = js ''a''"
    using sample_lock_acquired by blast
  define lk' where "lk' = lk\<lparr>lk_identity := \<lparr>oi_dev = 1, oi_ino = 3, oi_birthtime_ms = 0\<rparr>\<rparr>"
  have "lk_state lk' = Held" "lk_identity lk' \<noteq> lk_identity lk" using held by (simp_all add: held_by_def lk'_def)
  from local_stale_release_refused [OF held _ _ _ this, of sample_config] lk sample_owner_valid sample_owner_plain
  obtain message f' where "run posix (release sample_config lk') f = (Inr (lk', Inl (compromised_error message)), f')"
    "held_by lk 7 (marker (js ''a'') sample_files) f'" by auto
  moreover have "lk_owner lk' = lk_owner lk" by (simp add: lk'_def)
  ultimately show ?thesis using held by blast
qed

theorem local_bom_owner_stuck_witness:
  "\<exists>lk f1 message f2. run posix (try_acquire_local_file_lock sample_config sample_path (0xFEFF # js ''a'')) sample_files = (Inr (Some lk), f1) \<and>
    run posix (release sample_config lk) f1 = (Inr (lk, Inl (compromised_error message)), f2) \<and> fl_lock f2 \<noteq> None"
  by (rule local_bom_owner_stuck [OF sample_path_valid sample_owner_valid(2), of sample_files "0x1C0"]) simp_all

lemma posix_clock_law: "clock_law posix fl_clock"
proof -
  have "fl_clock f \<le> fl_clock (snd (posix c f))" for c f
    by (cases "(c, f)" rule: posix.cases) (simp_all add: set_entries_def split: option.split lock_node.split list.split)
  then show ?thesis by (simp add: clock_law_def)
qed

theorem local_acquire_ends_witness:
  "fst (run posix (acquire_local_file_lock 5 sample_config sample_path (js ''a'') [(js ''wait_timeout_ms'', JNumber (NInt 3))])
     (sample_files\<lparr>fl_lock := Some (Lock_directory 0x1C0 [])\<rparr>)) \<noteq> Inr None"
  by (rule local_acquire_ends [OF posix_clock_law])
    (auto simp: validate_options_def resolved_option_def has_own_def field_def non_negative_safe_def MAX_SAFE_INTEGER_def
      Let_def split: if_splits)

end
