(* ===== verification/Local_Recovery.thy ===== *)
theory Local_Recovery
  imports Local_Fs
begin

text \<open>
  \<open>src/ts/src/local-file-recovery.ts\<close>: inspection of a local lock and its operator-driven recovery.
  Inspection only reads. Recovery moves the owner marker to a private name first; that rename is
  the point at which one of several recoverers wins. The retries on Windows are recursions over the
  attempts that are left.
\<close>

section \<open>Definitions\<close>

definition LOCAL_FILE_LOCK_OWNER_RECOVERING_FILE :: js_string where
  "LOCAL_FILE_LOCK_OWNER_RECOVERING_FILE = js ''owner.recovering''"

abbreviation recovering_place :: fs_place where "recovering_place \<equiv> Entry LOCAL_FILE_LOCK_OWNER_RECOVERING_FILE"

datatype inspection_reason =
    Owner_marker_missing
  | Path_not_directory
  | Dirty_directory
  | Owner_not_regular_file
  | Owner_too_large
  | Owner_invalid_utf8
  | Owner_identity_changed
  | Permissions_widened
  | Owner_contract_violation

datatype inspection =
    Inspected_absent
  | Inspected_held js_string
  | Inspected_incomplete string
  | Inspected_compromised inspection_reason string

datatype inspection_owner = Read_owner js_string | Read_absent | Read_incomplete

fun caused_by_error_code :: "local_thrown \<Rightarrow> string \<Rightarrow> bool" where
  "caused_by_error_code (Local_error k m (Some cause)) code = (error_code cause = Some code)"
| "caused_by_error_code _ code = False"

primrec text_includes :: "string \<Rightarrow> string \<Rightarrow> bool" where
  "text_includes [] part = (part = [])"
| "text_includes (c # s) part = (take (length part) (c # s) = part \<or> text_includes s part)"

definition classify_bounded_owner_error :: "string \<Rightarrow> inspection_reason" where
  "classify_bounded_owner_error message =
     (if text_includes message ''valid UTF-8'' then Owner_invalid_utf8
      else if text_includes message ''identity changed'' then Owner_identity_changed
      else if text_includes message ''permissions widened'' then Permissions_widened
      else if text_includes message ''multiple filesystem links'' \<or> text_includes message ''multiply linked'' then Owner_identity_changed
      else if text_includes message ''exceeds the portable'' \<and> text_includes message ''byte'' then Owner_too_large
      else if text_includes message ''regular file'' then Owner_not_regular_file
      else Owner_contract_violation)"

definition max_attempts :: "local_config \<Rightarrow> nat" where
  "max_attempts cf = (if cf_win32 cf then 4 else 1)"

text \<open>\<open>if (attempt + 1 < maxAttempts) { await sleep_ms(1); continue; }\<close>\<close>

definition pause_before_retry :: "nat \<Rightarrow> unit prog" where
  "pause_before_retry attempts_left = when_prog (attempts_left \<noteq> 0) (do_call (Sleep 1))"

fun lstat_inspection_lock_path :: "local_config \<Rightarrow> nat \<Rightarrow> local_thrown \<Rightarrow> metadata option prog" where
  "lstat_inspection_lock_path cf 0 last_error = Throw (io_error ''inspect local lock path'' last_error)"
| "lstat_inspection_lock_path cf (Suc attempts_left) last_error =
     bind_prog (settle_prog (lstat Lock)) (\<lambda>r.
     case r of
       Inr md \<Rightarrow> Return (Some md)
     | Inl e \<Rightarrow>
         if error_code e = Some ''ENOENT'' then Return None
         else if \<not> cf_win32 cf \<or> error_code e \<noteq> Some ''EPERM'' then Throw (io_error ''inspect local lock path'' e)
         else bind_prog (pause_before_retry attempts_left) (\<lambda>_. lstat_inspection_lock_path cf attempts_left e))"

text \<open>
  The probe after a denied call: \<open>True\<close> says the path is gone.
\<close>

definition probe_deletion_pending :: "bool prog" where
  "probe_deletion_pending =
     bind_prog (settle_prog (lstat Lock)) (\<lambda>r.
     case r of
       Inr _ \<Rightarrow> Return False
     | Inl e \<Rightarrow>
         if error_code e = Some ''ENOENT'' then Return True
         else if error_code e \<noteq> Some ''EPERM''
         then Throw (io_error ''recheck Windows deletion-pending local lock path'' e)
         else Return False)"

fun is_io_error :: "local_thrown \<Rightarrow> bool" where
  "is_io_error (Local_error k _ _) = (k = LIo)"
| "is_io_error _ = False"

fun read_inspection_entry_names :: "local_config \<Rightarrow> nat \<Rightarrow> local_thrown \<Rightarrow> js_string list option prog" where
  "read_inspection_entry_names cf 0 last_error = Throw last_error"
| "read_inspection_entry_names cf (Suc attempts_left) last_error =
     bind_prog (settle_prog (read_local_file_lock_entry_names_bounded Lock)) (\<lambda>r.
     case r of
       Inr names \<Rightarrow> Return (Some names)
     | Inl e \<Rightarrow>
         if \<not> is_io_error e then Throw e
         else if caused_by_error_code e ''ENOENT'' then Return None
         else if \<not> cf_win32 cf \<or> \<not> caused_by_error_code e ''EPERM'' then Throw e
         else bind_prog probe_deletion_pending (\<lambda>gone.
              if gone then Return None
              else bind_prog (pause_before_retry attempts_left) (\<lambda>_. read_inspection_entry_names cf attempts_left e)))"

text \<open>After a missing marker: is the directory still there?\<close>

definition probe_after_missing :: "local_config \<Rightarrow> nat \<Rightarrow> inspection_owner option prog" where
  "probe_after_missing cf attempts_left =
     bind_prog (settle_prog (lstat Lock)) (\<lambda>r.
     case r of
       Inr _ \<Rightarrow> Return (Some Read_incomplete)
     | Inl e \<Rightarrow>
         if error_code e = Some ''ENOENT'' then Return (Some Read_absent)
         else if cf_win32 cf \<and> error_code e = Some ''EPERM'' \<and> attempts_left \<noteq> 0
         then bind_prog (do_call (Sleep 1)) (\<lambda>_. Return None)
         else Throw (io_error ''recheck local lock after owner disappearance'' e))"

fun compromised_message :: "local_thrown \<Rightarrow> string option" where
  "compromised_message (Local_error LCompromised message _) = Some message"
| "compromised_message _ = None"

fun read_inspection_owner :: "local_config \<Rightarrow> nat \<Rightarrow> local_thrown \<Rightarrow> inspection_owner prog" where
  "read_inspection_owner cf 0 last_error = Throw last_error"
| "read_inspection_owner cf (Suc attempts_left) last_error =
     bind_prog (settle_prog (read_bounded_local_file_lock_owner cf owner_place)) (\<lambda>r.
     case r of
       Inr owner \<Rightarrow> Return (Read_owner owner)
     | Inl e \<Rightarrow>
         (case compromised_message e of
            Some message \<Rightarrow>
              if text_includes message ''owner token is missing''
              then bind_prog (probe_after_missing cf attempts_left) (\<lambda>found.
                   case found of Some x \<Rightarrow> Return x | None \<Rightarrow> read_inspection_owner cf attempts_left e)
              else Throw e
          | None \<Rightarrow>
              if \<not> is_io_error e \<or> \<not> cf_win32 cf \<or> \<not> caused_by_error_code e ''EPERM'' then Throw e
              else bind_prog probe_deletion_pending (\<lambda>gone.
                   if gone then Return Read_absent
                   else bind_prog (pause_before_retry attempts_left) (\<lambda>_. read_inspection_owner cf attempts_left e))))"

text \<open>The reading of the directory and of the marker, from the entries on.\<close>

definition inspect_owner :: "local_config \<Rightarrow> inspection prog" where
  "inspect_owner cf =
     bind_prog (settle_prog (read_inspection_owner cf (max_attempts cf) Undefined_value)) (\<lambda>r.
     case r of
       Inl e \<Rightarrow>
         (case compromised_message e of
            Some message \<Rightarrow> Return (Inspected_compromised (classify_bounded_owner_error message) message)
          | None \<Rightarrow> Throw e)
     | Inr Read_absent \<Rightarrow> Return Inspected_absent
     | Inr Read_incomplete \<Rightarrow> Return (Inspected_incomplete ''owner token disappeared during inspection'')
     | Inr (Read_owner owner) \<Rightarrow>
         if length owner = 0 then Return (Inspected_compromised Owner_contract_violation ''owner token is empty'')
         else if length (scalars owner) > MAX_LOCAL_FILE_LOCK_OWNER_CODEPOINTS
         then Return (Inspected_compromised Owner_contract_violation ''owner token exceeds the portable 512-code-point contract bound'')
         else Return (Inspected_held owner))"

definition inspect_entries :: "local_config \<Rightarrow> js_string list \<Rightarrow> inspection prog" where
  "inspect_entries cf entries =
     (if entries = []
      then Return (Inspected_incomplete ''lock directory has no owner marker; acquisition, release, or recovery may have crashed mid-transition'')
      else if entries = [LOCAL_FILE_LOCK_OWNER_PENDING_FILE]
      then Return (Inspected_incomplete ''owner publication is incomplete; pending owner marker is not ownership authority'')
      else if entries = [LOCAL_FILE_LOCK_OWNER_RECOVERING_FILE]
      then Return (Inspected_incomplete ''owner recovery is in progress; recovery claim is not reusable ownership authority'')
      else if entries \<noteq> [LOCAL_FILE_LOCK_OWNER_FILE]
      then Return (Inspected_compromised Dirty_directory ''lock directory must contain exactly one published owner marker'')
      else inspect_owner cf)"

definition inspect_local_file_lock :: "local_config \<Rightarrow> js_string \<Rightarrow> inspection prog" where
  "inspect_local_file_lock cf path =
     bind_prog (lift_prog (validate_local_file_lock_path cf path)) (\<lambda>_.
     bind_prog (lstat_inspection_lock_path cf (max_attempts cf) Undefined_value) (\<lambda>found.
     case found of
       None \<Rightarrow> Return Inspected_absent
     | Some md \<Rightarrow>
         if \<not> (md_kind md = Directory_kind)
         then Return (Inspected_compromised Path_not_directory ''lock path is not an unaliased directory'')
         else if \<not> cf_win32 cf \<and> md_mode md AND 0x3F \<noteq> 0
         then Return (Inspected_compromised Permissions_widened ''lock directory permissions widened beyond the private POSIX contract'')
         else bind_prog (read_inspection_entry_names cf (max_attempts cf) Undefined_value) (\<lambda>names.
              case names of None \<Rightarrow> Return Inspected_absent | Some entries \<Rightarrow> inspect_entries cf entries)))"

text \<open>The recovery: claim, then removal.\<close>

definition lost_claim :: "local_config \<Rightarrow> js_string \<Rightarrow> local_thrown \<Rightarrow> bool prog" where
  "lost_claim cf path e =
     (if error_code e = Some ''ENOENT''
      then bind_prog (inspect_local_file_lock cf path) (\<lambda>after.
           case after of
             Inspected_absent \<Rightarrow> Return False
           | Inspected_incomplete _ \<Rightarrow> Return False
           | _ \<Rightarrow> Throw (Local_error LCompromised ''local lock changed while claiming recovery'' (Some e)))
      else Throw (removal_error ''claim local lock recovery failed: '' e))"

definition claim_and_remove :: "local_config \<Rightarrow> js_string \<Rightarrow> bool prog" where
  "claim_and_remove cf path =
     bind_prog (settle_prog (bind_prog (maybe_inject_local_file_test_fault cf ''recovery_claim_failure'' ''EIO'') (\<lambda>_.
                  do_call (Rename owner_place recovering_place)))) (\<lambda>claimed.
     case claimed of
       Inl e \<Rightarrow> lost_claim cf path e
     | Inr _ \<Rightarrow>
         bind_prog (catch_prog (bind_prog (do_call (Unlink recovering_place)) (\<lambda>_. do_call (Rmdir Lock)))
            (\<lambda>e. Throw (removal_error ''recover local lock failed after recovery claim: '' e))) (\<lambda>_.
         Return True))"

definition recover_local_file_lock :: "local_config \<Rightarrow> js_string \<Rightarrow> js_string \<Rightarrow> bool \<Rightarrow> bool prog" where
  "recover_local_file_lock cf path expected_owner confirmed_inactive =
     bind_prog (lift_prog (validate_local_file_lock_path cf path)) (\<lambda>_.
     bind_prog (lift_prog (validate_local_file_lock_owner expected_owner)) (\<lambda>_.
     if \<not> confirmed_inactive
     then Throw (invalid_input ''explicit confirmed_inactive=true is required for recovery'')
     else
     bind_prog (inspect_local_file_lock cf path) (\<lambda>inspected.
     case inspected of
       Inspected_absent \<Rightarrow> Return False
     | Inspected_incomplete _ \<Rightarrow> Throw (compromised_error ''incomplete lock state has no owner identity; refusing automatic recovery'')
     | Inspected_compromised _ message \<Rightarrow> Throw (compromised_error message)
     | Inspected_held owner \<Rightarrow>
         if owner \<noteq> expected_owner
         then Throw (compromised_error ''owner token does not match expected recovery owner'')
         else
         bind_prog (inspect_local_file_lock cf path) (\<lambda>again.
         if again \<noteq> Inspected_held expected_owner
         then Throw (compromised_error ''local lock changed during recovery; refusing deletion'')
         else claim_and_remove cf path))))"

section \<open>Inspection only reads\<close>

lemma reads_attempts [quiet]:
  "reads (pause_before_retry n)" "reads probe_deletion_pending" "reads (probe_after_missing cf n)"
  unfolding pause_before_retry_def probe_deletion_pending_def probe_after_missing_def
  by (auto intro!: quiet split: sum.split)

lemma reads_lstat_inspection [quiet]: "reads (lstat_inspection_lock_path cf n e)"
  by (induction n arbitrary: e) (auto intro!: quiet split: sum.split)

lemma reads_inspection_names [quiet]: "reads (read_inspection_entry_names cf n e)"
  by (induction n arbitrary: e) (auto intro!: quiet split: sum.split)

lemma reads_inspection_owner [quiet]: "reads (read_inspection_owner cf n e)"
proof (induction n arbitrary: e)
  case (Suc n)
  have retry: "reads (case found of None \<Rightarrow> read_inspection_owner cf n e' | Some x \<Rightarrow> Return x)" for found e'
    by (cases found) (simp_all add: Suc.IH)
  show ?case
    unfolding read_inspection_owner.simps
    by (intro quiet) (auto intro!: quiet Suc.IH retry split: sum.split option.split)
qed simp

lemma reads_inspect [quiet]: "reads (inspect_local_file_lock cf path)"
  unfolding inspect_local_file_lock_def inspect_entries_def inspect_owner_def
  by (auto intro!: quiet split: sum.split option.split inspection_owner.split)

section \<open>One recoverer wins\<close>

text \<open>
  The recovery protocol: read freely, move the marker away at most once, delete only after that.
\<close>

abbreviation claim_call :: fs_call where "claim_call \<equiv> Rename owner_place recovering_place"

definition recovery_call :: "fs_call \<Rightarrow> bool" where
  "recovery_call c \<longleftrightarrow> read_call c \<or> c = claim_call \<or> c = Unlink recovering_place \<or> c = Rmdir Lock"

definition claim_allowed :: "bool \<Rightarrow> fs_call \<Rightarrow> bool" where
  "claim_allowed g c \<longleftrightarrow> recovery_call c \<and> (c = claim_call \<longrightarrow> \<not> g) \<and> (c = Unlink recovering_place \<or> c = Rmdir Lock \<longrightarrow> g)"

definition claim_next :: "bool \<Rightarrow> fs_call \<Rightarrow> fs_answer \<Rightarrow> bool" where
  "claim_next g c x \<longleftrightarrow> g \<or> c = claim_call \<and> \<not> failed x"

abbreviation claim_wp :: "(bool \<Rightarrow> 'a \<Rightarrow> bool) \<Rightarrow> (bool \<Rightarrow> local_thrown \<Rightarrow> bool) \<Rightarrow> 'a prog \<Rightarrow> bool \<Rightarrow> bool" where
  "claim_wp \<equiv> wp claim_allowed claim_next"

locale single_claim =
  fixes answers :: "fs_call \<Rightarrow> 's \<Rightarrow> fs_answer \<Rightarrow> 's \<Rightarrow> bool"
    and marked :: "'s \<Rightarrow> bool"
  assumes claim_ok: "answers claim_call s x t \<Longrightarrow> \<not> failed x \<Longrightarrow> marked s \<and> \<not> marked t"
    and never_marked: "answers c s x t \<Longrightarrow> recovery_call c \<Longrightarrow> \<not> marked s \<Longrightarrow> \<not> marked t"
begin

definition claimed_by :: "('s, bool) system \<Rightarrow> nat option \<Rightarrow> bool" where
  "claimed_by s own \<longleftrightarrow> (own \<noteq> None \<longrightarrow> \<not> marked (sys_files s)) \<and>
     (\<forall>i. claim_wp (\<lambda>g r. r \<longrightarrow> g) (\<lambda>_ _. True) (sys_procs s i) (own = Some i))"

lemma claimed_step:
  assumes "interleaved answers s t" and "claimed_by s own"
  shows "\<exists>own'. claimed_by t own'"
  using assms(1)
proof (cases rule: interleaved.cases)
  case (call i c k x f)
  have ok: "claim_allowed (own = Some i) c"
    and ki: "claim_wp (\<lambda>g r. r \<longrightarrow> g) (\<lambda>_ _. True) (k x) (claim_next (own = Some i) c x)"
    using assms(2) call(2) by (auto simp: claimed_by_def dest!: spec [of _ i])
  have others: "claim_wp (\<lambda>g r. r \<longrightarrow> g) (\<lambda>_ _. True) (sys_procs s j) (own = Some j)" for j
    using assms(2) by (simp add: claimed_by_def)
  define own' where "own' = (if c = claim_call \<and> \<not> failed x then Some i else own)"
  have free: "own = None" if "c = claim_call" "\<not> failed x"
    using claim_ok call(3) that assms(2) by (auto simp: claimed_by_def)
  have "(own' = Some i) = claim_next (own = Some i) c x" by (auto simp: own'_def claim_next_def)
  moreover have "(own' = Some j) = (own = Some j)" if "j \<noteq> i" for j using that free by (auto simp: own'_def)
  moreover have "own' \<noteq> None \<longrightarrow> \<not> marked f"
    using call(3) claim_ok never_marked ok assms(2)
    by (auto simp: own'_def claimed_by_def claim_allowed_def split: if_splits)
  ultimately have "claimed_by t own'" using ki others by (simp add: claimed_by_def call(1))
  then show ?thesis by blast
qed

lemma one_winner:
  assumes "\<And>i. claim_wp (\<lambda>g r. r \<longrightarrow> g) (\<lambda>_ _. True) (sys_procs s0 i) False"
    and "reachable_from (interleaved answers) s0 s"
    and "sys_procs s i = Return True" and "sys_procs s j = Return True"
  shows "i = j"
proof -
  have "\<exists>own. claimed_by s own"
    using assms(2)
  proof (rule reachable_invariant)
    show "\<exists>own. claimed_by s0 own" using assms(1) by (auto simp: claimed_by_def intro: exI [of _ None])
  qed (blast dest: claimed_step)
  then obtain own where own: "claimed_by s own" by blast
  have "own = Some k" if "sys_procs s k = Return True" for k
    using own that by (auto simp: claimed_by_def dest!: spec [of _ k])
  from this [OF assms(3)] this [OF assms(4)] show ?thesis by simp
qed

end

definition owner_marked :: "files \<Rightarrow> bool" where
  "owner_marked f \<longleftrightarrow> map_of (entries_of f) LOCAL_FILE_LOCK_OWNER_FILE \<noteq> None"

lemma recovering_differs [simp]:
  "LOCAL_FILE_LOCK_OWNER_RECOVERING_FILE \<noteq> LOCAL_FILE_LOCK_OWNER_FILE"
  "LOCAL_FILE_LOCK_OWNER_FILE \<noteq> LOCAL_FILE_LOCK_OWNER_RECOVERING_FILE"
  by (simp_all add: LOCAL_FILE_LOCK_OWNER_RECOVERING_FILE_def LOCAL_FILE_LOCK_OWNER_FILE_def)

lemma entries_of_set [simp]: "entries_of (set_entries es f) = (if entries_of f = [] \<and> (\<forall>m es'. fl_lock f \<noteq> Some (Lock_directory m es')) then [] else es)"
  by (auto simp: entries_of_def set_entries_def split: option.split lock_node.split)

lemma without_lookup: "map_of (without n es) m = (if m = n then None else map_of es m)"
  by (induction es) (auto simp: without_def)

lemma posix_reads: "read_call c \<Longrightarrow> same_files f (snd (posix c f))"
  by (cases "(c, f)" rule: posix.cases) (simp_all add: same_files_def split: option.split lock_node.split list.split)

lemma owner_marked_cong: "fl_lock g = fl_lock f \<Longrightarrow> owner_marked g = owner_marked f"
  by (simp add: owner_marked_def entries_of_def)

lemma posix_unmarked:
  assumes "recovery_call c" and "\<not> owner_marked f"
  shows "\<not> owner_marked (snd (posix c f))"
proof (cases "read_call c")
  case True
  then show ?thesis using posix_reads [of c f] assms(2) owner_marked_cong [of "snd (posix c f)" f] by (simp add: same_files_def)
next
  case False
  with assms(1) consider "c = claim_call" | "c = Unlink recovering_place" | "c = Rmdir Lock" by (auto simp: recovery_call_def)
  then show ?thesis
  proof cases
    case 3
    then show ?thesis using assms(2)
      by (auto simp: owner_marked_def entries_of_def split: option.split lock_node.split)
  qed (use assms(2) in \<open>auto simp: owner_marked_def without_lookup\<close>)
qed

interpretation recovery: single_claim fs_answers owner_marked
proof
  fix s x t
  assume a: "fs_answers claim_call s x t" "\<not> failed x"
  from fs_answers_cases [OF a(1)] a(2) have x: "fst (posix claim_call s) = x" and t: "fl_lock t = fl_lock (snd (posix claim_call s))"
    by auto
  have "owner_marked s" using x a(2) by (auto simp: owner_marked_def failing_def split: option.splits)
  then have "\<not> owner_marked (snd (posix claim_call s))"
    by (auto simp: owner_marked_def without_lookup)
  with \<open>owner_marked s\<close> owner_marked_cong [OF t] show "owner_marked s \<and> \<not> owner_marked t" by simp
next
  fix c s x t
  assume a: "fs_answers c s x t" "recovery_call c" "\<not> owner_marked s"
  from fs_answers_cases [OF a(1)] show "\<not> owner_marked t"
    using posix_unmarked [OF a(2,3)] a(3) owner_marked_cong [of t s] owner_marked_cong [of t "snd (posix c s)"] by auto
qed

lemma claim_reads:
  assumes "reads p" and "\<And>a. Q g a" and "\<And>e. E g e"
  shows "claim_wp Q E p g"
  by (rule wp_only_calls [OF assms(1)])
    (auto simp: claim_allowed_def claim_next_def recovery_call_def assms(2,3))

lemma claim_remove: "claim_wp (\<lambda>g r. r \<longrightarrow> g) (\<lambda>_ _. True) (claim_and_remove cf path) False"
proof -
  have lost: "claim_wp (\<lambda>g r. r \<longrightarrow> g) (\<lambda>_ _. True) (lost_claim cf path e) False" for e
    unfolding lost_claim_def
    by (auto simp: wp_bind intro!: claim_reads [OF reads_inspect] split: inspection.split)
  show ?thesis
    unfolding claim_and_remove_def
    by (auto simp: wp_flow do_call_def wp_await claim_allowed_def claim_next_def recovery_call_def lost
        intro!: claim_reads [OF reads_faults(1)] split: fs_answer.split)
qed

lemma claim_recover:
  "claim_wp (\<lambda>g r. r \<longrightarrow> g) (\<lambda>_ _. True) (recover_local_file_lock cf path expected confirmed) False"
  unfolding recover_local_file_lock_def wp_bind wp_lift
  by (auto intro!: claim_reads [OF reads_inspect] claim_remove split: sum.split inspection.split simp: wp_bind)

section \<open>Runs without interference\<close>

lemma same_files_refl [simp]: "same_files f f"
  by (simp add: same_files_def)

lemma run_inspect_held:
  assumes "held_by lk i nd f" and "validate_local_file_lock_path cf path = Inr ()"
    and "validate_local_file_lock_owner (lk_owner lk) = Inr ()" and "cf_faults cf = []" and "\<forall>t. lk_owner lk \<noteq> 0xFEFF # t"
  shows "\<exists>g. same_files f g \<and> run posix (inspect_local_file_lock cf path) f = (Inr (Inspected_held (lk_owner lk)), g)"
proof -
  from assms(1) obtain mode where dir: "fl_lock f = Some (Lock_directory mode [(LOCAL_FILE_LOCK_OWNER_FILE, i)])" "mode AND 0x3F = 0"
    by (auto simp: held_by_def)
  have attempts: "\<exists>n. max_attempts cf = Suc n" by (auto simp: max_attempts_def)
  from run_entries [OF dir(1)] obtain g where
    entries: "run posix (read_local_file_lock_entry_names_bounded Lock) f = (Inr [LOCAL_FILE_LOCK_OWNER_FILE], g)"
    and g: "same_files f g" by blast
  have held: "held_by lk i nd g" using assms(1) held_by_same [OF g] by simp
  note decode = text_decode_encode [OF owner_well_formed [OF assms(3)] assms(5)]
  have read: "run posix (read_bounded_local_file_lock_owner cf owner_place) g = (Inr (lk_owner lk), g)"
    using run_read_owner [OF held assms(3,4)] by (simp add: decode)
  have owner: "length (lk_owner lk) \<noteq> 0" "\<not> length (scalars (lk_owner lk)) > MAX_LOCAL_FILE_LOCK_OWNER_CODEPOINTS"
    using assms(3) by (auto simp: validate_local_file_lock_owner_def and_then_eq_Inr)
  have different: "[LOCAL_FILE_LOCK_OWNER_FILE] \<noteq> [LOCAL_FILE_LOCK_OWNER_PENDING_FILE]"
    "[LOCAL_FILE_LOCK_OWNER_FILE] \<noteq> [LOCAL_FILE_LOCK_OWNER_RECOVERING_FILE]" by simp_all
  have "run posix (inspect_local_file_lock cf path) f = (Inr (Inspected_held (lk_owner lk)), g)"
    using attempts dir owner different
    by (auto simp: inspect_local_file_lock_def inspect_entries_def inspect_owner_def run_flow assms(2) calls stat_kind_def entries read)
  with g show ?thesis by blast
qed

lemma run_claim:
  assumes "fl_lock f = Some (Lock_directory mode [(LOCAL_FILE_LOCK_OWNER_FILE, i)])" and "cf_faults cf = []"
  shows "\<exists>f'. run posix (claim_and_remove cf path) f = (Inr True, f') \<and> fl_lock f' = None"
  using assms by (simp add: claim_and_remove_def run_flow calls entries_of_def set_entries_def without_def)

lemma run_recover_held:
  assumes "held_by lk i nd f" and "validate_local_file_lock_path cf path = Inr ()"
    and "validate_local_file_lock_owner (lk_owner lk) = Inr ()" and "cf_faults cf = []" and "\<forall>t. lk_owner lk \<noteq> 0xFEFF # t"
  shows "\<exists>f'. run posix (recover_local_file_lock cf path (lk_owner lk) True) f = (Inr True, f') \<and> fl_lock f' = None"
proof -
  from run_inspect_held [OF assms] obtain g where
    g: "same_files f g" "run posix (inspect_local_file_lock cf path) f = (Inr (Inspected_held (lk_owner lk)), g)" by blast
  have held: "held_by lk i nd g" using assms(1) held_by_same [OF g(1)] by simp
  from run_inspect_held [OF held assms(2-5)] obtain h where
    h: "same_files g h" "run posix (inspect_local_file_lock cf path) g = (Inr (Inspected_held (lk_owner lk)), h)" by blast
  have "held_by lk i nd h" using held held_by_same [OF h(1)] by simp
  then obtain mode where "fl_lock h = Some (Lock_directory mode [(LOCAL_FILE_LOCK_OWNER_FILE, i)])" by (auto simp: held_by_def)
  from run_claim [OF this assms(4), of path] show ?thesis
    by (simp add: recover_local_file_lock_def run_flow assms(2,3) g h)
qed

text \<open>Inspection leaves the files as they are, in every state.\<close>

lemma run_inspect_unchanged: "same_files f (snd (run posix (inspect_local_file_lock cf path) f))"
proof (rule run_invariant [OF reads_inspect])
  fix c s
  assume "read_call c" "same_files f s"
  then show "same_files f (snd (posix c s))" using posix_reads [of c s] by (simp add: same_files_def)
qed simp

lemma bind_prog_Return: "bind_prog p Return = p"
  by (induction p) simp_all

section \<open>Properties\<close>

text \<open>
  C11: of any number of recoverers of one lock, interleaved call by call and with calls failing at any
  moment, at most one reports that it recovered the lock, whatever the owners they expect.
\<close>

theorem recovery_single_winner:
  assumes "\<And>i. \<exists>cf path expected confirmed. sys_procs s0 i = recover_local_file_lock cf path expected confirmed"
    and "reachable_from (interleaved fs_answers) s0 s"
    and "sys_procs s i = Return True" and "sys_procs s j = Return True"
  shows "i = j"
proof (rule recovery.one_winner [OF _ assms(2-4)])
  fix i
  from assms(1) [of i] obtain cf path expected confirmed where
    p: "sys_procs s0 i = recover_local_file_lock cf path expected confirmed" by blast
  show "claim_wp (\<lambda>g r. r \<longrightarrow> g) (\<lambda>_ _. True) (sys_procs s0 i) False" unfolding p by (rule claim_recover)
qed

text \<open>
  What recovery does to a held lock when nothing interferes. With the confirmation and the
  owner that holds the lock it returns true and removes the lock. Without the confirmation, or with
  another expected owner, it throws and leaves the files as they are. Inspection reports the owner
  and, in every state of the file system, changes nothing.
\<close>

theorem recovery_exact:
  assumes "held_by lk i nd f" and "validate_local_file_lock_path cf path = Inr ()"
    and "validate_local_file_lock_owner (lk_owner lk) = Inr ()" and "cf_faults cf = []" and "\<forall>t. lk_owner lk \<noteq> 0xFEFF # t"
  shows "(\<exists>f'. run posix (recover_local_file_lock cf path (lk_owner lk) True) f = (Inr True, f') \<and> fl_lock f' = None) \<and>
    (\<forall>expected confirmed. \<not> confirmed \<or> expected \<noteq> lk_owner lk \<longrightarrow>
       (\<exists>e f'. run posix (recover_local_file_lock cf path expected confirmed) f = (Inl e, f') \<and> same_files f f')) \<and>
    fst (run posix (inspect_local_file_lock cf path) f) = Inr (Inspected_held (lk_owner lk)) \<and>
    (\<forall>f. same_files f (snd (run posix (inspect_local_file_lock cf path) f)))"
proof -
  from run_inspect_held [OF assms] obtain g where
    g: "same_files f g" "run posix (inspect_local_file_lock cf path) f = (Inr (Inspected_held (lk_owner lk)), g)" by blast
  have refused: "\<exists>e f'. run posix (recover_local_file_lock cf path expected confirmed) f = (Inl e, f') \<and> same_files f f'"
    if "\<not> confirmed \<or> expected \<noteq> lk_owner lk" for expected confirmed
    using that g assms(2)
    by (cases "validate_local_file_lock_owner expected"; cases confirmed) (simp_all add: recover_local_file_lock_def run_flow)
  show ?thesis
    using run_recover_held [OF assms] refused run_inspect_unchanged g(2) by simp
qed

section \<open>Witnesses\<close>

lemma sample_held: "\<exists>lk f. held_by lk 7 (marker (js ''a'') sample_files) f \<and> lk_owner lk = js ''a''"
  using sample_lock_acquired by blast

theorem recovery_single_winner_witness:
  "\<exists>s0 s. reachable_from (interleaved fs_answers) s0 s \<and> sys_procs s 0 = Return True \<and>
     (\<forall>j. sys_procs s j = Return True \<longrightarrow> 0 = j)"
proof -
  obtain lk f where held: "held_by lk 7 (marker (js ''a'') sample_files) f" and lk: "lk_owner lk = js ''a''"
    using sample_held by blast
  define s0 :: "(files, bool) system" where
    "s0 = \<lparr>sys_files = f, sys_procs = (\<lambda>i. recover_local_file_lock sample_config sample_path (js ''a'') True)\<rparr>"
  from run_recover_held [OF held sample_path_valid] lk sample_owner_valid sample_owner_plain obtain f' where
    run: "run posix (recover_local_file_lock sample_config sample_path (js ''a'') True) f = (Inr True, f')" by auto
  define s where "s = s0\<lparr>sys_files := f', sys_procs := (sys_procs s0)(0 := Return True)\<rparr>"
  have reach: "reachable_from (interleaved fs_answers) s0 s"
    unfolding s_def by (rule reach_run [where p = "recover_local_file_lock sample_config sample_path (js ''a'') True"])
      (simp_all add: bind_prog_Return run s0_def)
  have done0: "sys_procs s 0 = Return True" by (simp add: s_def)
  have "\<exists>cf path expected confirmed. sys_procs s0 i = recover_local_file_lock cf path expected confirmed" for i
    unfolding s0_def system.select_convs by (intro exI) (rule refl)
  from recovery_single_winner [OF this reach done0] reach done0 show ?thesis by blast
qed

theorem recovery_exact_witness:
  "\<exists>lk f f'. held_by lk 7 (marker (js ''a'') sample_files) f \<and>
     run posix (recover_local_file_lock sample_config sample_path (lk_owner lk) True) f = (Inr True, f') \<and> fl_lock f' = None"
proof -
  obtain lk f where held: "held_by lk 7 (marker (js ''a'') sample_files) f" and lk: "lk_owner lk = js ''a''"
    using sample_held by blast
  have valid: "validate_local_file_lock_owner (lk_owner lk) = Inr ()" "\<forall>t. lk_owner lk \<noteq> 0xFEFF # t"
    using lk sample_owner_valid sample_owner_plain by simp_all
  from recovery_exact [OF held sample_path_valid valid(1) _ valid(2)] held show ?thesis by (simp only: local_config.select_convs) blast
qed

end
