(* ===== verification/Lease_Client.thy ===== *)
theory Lease_Client
  imports Lease "HOL-Library.Log_Nat"
begin

text \<open>
  What the lease adapters share: the transport they are given (\<open>fetch\<close>, the clock, timers, the
  identity generators and \<open>JSON\<close> are arguments), the readers of untrusted answers, the polling
  loop of a waiting acquisition, and the contract \<open>lease_adapter\<close> that each adapter meets: a grant
  is for the key and holder that asked, its token is positive, and a renewal changes neither key
  nor holder nor token. The polling loop has fuel; it ends when a sleep advances the clock.
\<close>

section \<open>Numbers from decimal text\<close>

text \<open>\<open>Number(n)\<close> of an integer: to nearest, ties to even, 53 significant bits.\<close>

definition round_double :: "nat \<Rightarrow> nat" where
  "round_double n =
     (if n < 2 ^ 53 then n
      else let e = floorlog 2 n - 53; q = n div 2 ^ e; r = n mod 2 ^ e; half = 2 ^ (e - 1)
           in (if half < r \<or> (r = half \<and> odd q) then q + 1 else q) * 2 ^ e)"

definition number_of_nat :: "nat \<Rightarrow> js_number" where
  "number_of_nat n = (let r = round_double n in if r < 2 ^ 1024 then NInt (int r) else NInf True)"

lemma round_double_small: "n < 2 ^ 53 \<Longrightarrow> round_double n = n"
  by (simp add: round_double_def)

lemma round_double_large:
  assumes "2 ^ 53 \<le> n"
  shows "2 ^ 53 \<le> round_double n"
proof -
  define l where "l = floorlog 2 n"
  have n: "0 < n" using assms by (rule less_le_trans [rotated]) simp
  have l: "2 ^ (l - 1) \<le> n" "n < 2 ^ l" using floorlog_bounds [of n 2] n by (auto simp: l_def)
  have "53 < l"
  proof (rule ccontr)
    assume "\<not> 53 < l"
    then have "(2::nat) ^ l \<le> 2 ^ 53" by (intro power_increasing) auto
    with l(2) assms show False by linarith
  qed
  define e where "e = l - 53"
  define q where "q = n div 2 ^ e"
  have "l - 1 = 52 + e" using \<open>53 < l\<close> by (simp add: e_def)
  with l(1) have "2 ^ 52 * 2 ^ e \<le> n" by (simp add: power_add)
  then have "2 ^ 52 \<le> q" unfolding q_def by (simp add: less_eq_div_iff_mult_less_eq)
  moreover have "(2::nat) ^ 1 \<le> 2 ^ e" using \<open>53 < l\<close> by (intro power_increasing) (auto simp: e_def)
  ultimately have "2 ^ 52 * 2 ^ 1 \<le> k * 2 ^ e" if "q \<le> k" for k :: nat
    using that by (intro mult_le_mono) auto
  from this [of q] this [of "q + 1"] assms show ?thesis
    by (simp add: round_double_def l_def [symmetric] e_def [symmetric] q_def [symmetric] Let_def)
qed

text \<open>Reading decimal text as a number and keeping it when it is a safe integer is exact.\<close>

lemma number_of_nat_safe:
  "is_safe_integer (number_of_nat n) \<longleftrightarrow> int n \<le> MAX_SAFE_INTEGER"
  "int n \<le> MAX_SAFE_INTEGER \<Longrightarrow> number_of_nat n = NInt (int n)"
proof -
  have small: "number_of_nat n = NInt (int n)" if "int n \<le> MAX_SAFE_INTEGER"
  proof -
    from that have lt: "n < 2 ^ 53" by (simp add: MAX_SAFE_INTEGER_def)
    then have "n < 2 ^ 1024" by (rule less_le_trans) (rule power_increasing, simp_all)
    with lt show ?thesis by (simp add: number_of_nat_def round_double_small)
  qed
  then show "int n \<le> MAX_SAFE_INTEGER \<Longrightarrow> number_of_nat n = NInt (int n)" .
  have "\<not> is_safe_integer (number_of_nat n)" if "\<not> int n \<le> MAX_SAFE_INTEGER"
  proof -
    from that have "2 ^ 53 \<le> n" by (simp add: MAX_SAFE_INTEGER_def)
    from round_double_large [OF this] show ?thesis
      by (simp add: number_of_nat_def Let_def MAX_SAFE_INTEGER_def)
  qed
  with small show "is_safe_integer (number_of_nat n) \<longleftrightarrow> int n \<le> MAX_SAFE_INTEGER"
    by (cases "int n \<le> MAX_SAFE_INTEGER") (simp_all add: MAX_SAFE_INTEGER_def)
qed

section \<open>Transport\<close>

record fetch_init =
  fi_method :: js_string
  fi_headers :: "(js_string \<times> js_string) list"
  fi_body :: js_string
  fi_redirect :: js_string

text \<open>An answer: its status, and its text, which is read later and may fail then.\<close>

record 'w fetched =
  ft_status :: int
  ft_text :: "('w, thrown, js_string) action"

record 'w client_env =
  ce_fetch :: "js_string \<Rightarrow> fetch_init \<Rightarrow> ('w, thrown, 'w fetched) action"
  ce_now :: "'w \<Rightarrow> int"
  ce_sleep :: "js_number \<Rightarrow> 'w \<Rightarrow> 'w"
  ce_holder :: "('w, thrown, js_string) action"
  ce_requestId :: "('w, thrown, js_string) action"
  ce_stringify :: "js_value \<Rightarrow> js_string"
  ce_parse :: "js_string \<Rightarrow> thrown + js_value"

definition strip_slashes :: "js_string \<Rightarrow> js_string" where
  "strip_slashes s = rev (dropWhile (\<lambda>u. u = 47) (rev s))"

definition json_headers :: "js_string \<Rightarrow> (js_string \<times> js_string) list" where
  "json_headers bearer = [(js ''content-type'', js ''application/json''), (js ''authorization'', js ''Bearer '' @ bearer)]"

text \<open>\<open>typeof v === "object"\<close> of a non-null value.\<close>

fun is_object :: "js_value \<Rightarrow> bool" where
  "is_object (JArray _) = True"
| "is_object (JObject _) = True"
| "is_object JHostile = True"
| "is_object _ = False"

text \<open>An own property of an answer; an array element, \<open>undefined\<close> when there is none.\<close>

definition js_nth :: "js_value list \<Rightarrow> nat \<Rightarrow> js_value" where
  "js_nth vs i = (if i < length vs then vs ! i else JUndefined)"

text \<open>\<open>Boolean(v)\<close>, and \<open>name in v\<close>, which throws unless \<open>v\<close> is an object.\<close>

fun js_truthy :: "js_value \<Rightarrow> bool" where
  "js_truthy JUndefined = False"
| "js_truthy JNull = False"
| "js_truthy (JBool b) = b"
| "js_truthy (JNumber n) = (n \<noteq> NInt 0 \<and> n \<noteq> NNaN)"
| "js_truthy (JBigInt i) = (i \<noteq> 0)"
| "js_truthy (JString s) = (s \<noteq> [])"
| "js_truthy _ = True"

abbreviation in_operator_error :: thrown where "in_operator_error \<equiv> Thrown_error 300"

fun has_property :: "string \<Rightarrow> js_value \<Rightarrow> thrown + bool" where
  "has_property name (JObject ps) = Inr (list_ex (\<lambda>(k, _). k = PName (js name)) ps)"
| "has_property name (JArray _) = Inr False"
| "has_property name (JFunction _) = Inr False"
| "has_property name _ = Inl in_operator_error"

section \<open>Grants\<close>

text \<open>A grant as the adapters build it; the time to live is what the caller asked for.\<close>

record client_grant =
  cg_key :: js_string
  cg_holder :: js_string
  cg_fencingToken :: int
  cg_ttlMs :: js_number
  cg_leaseExpiresMs :: "js_number option"

definition client_identity :: "client_grant \<Rightarrow> js_string \<times> js_string \<times> int" where
  "client_identity g = (cg_key g, cg_holder g, cg_fencingToken g)"

text \<open>\<open>{ ...grant, ttlMs }\<close>, and with \<open>leaseExpiresMs\<close> when the answer has one.\<close>

definition renewed_grant :: "client_grant \<Rightarrow> js_number \<Rightarrow> js_number option \<Rightarrow> client_grant" where
  "renewed_grant g ttlMs expires =
     (case expires of
        None \<Rightarrow> g\<lparr>cg_ttlMs := ttlMs\<rparr>
      | Some e \<Rightarrow> g\<lparr>cg_ttlMs := ttlMs, cg_leaseExpiresMs := Some e\<rparr>)"

lemma renewed_grant_fields [simp]:
  "client_identity (renewed_grant g t e) = client_identity g"
  "cg_ttlMs (renewed_grant g t e) = t"
  "cg_leaseExpiresMs (renewed_grant g t e) = (case e of None \<Rightarrow> cg_leaseExpiresMs g | Some x \<Rightarrow> Some x)"
  by (simp_all add: renewed_grant_def client_identity_def split: option.split)

section \<open>Polling\<close>

text \<open>
  The loop of a waiting acquisition: one attempt gives a grant, a refusal (\<open>None\<close>) or throws; after
  a refusal the caller waits again unless that would exceed its time. \<open>None\<close> as the result of the
  loop is that the fuel ran out. The two steps name the error of a single attempt and of a wait.
\<close>

fun poll_loop ::
  "nat \<Rightarrow> 'w client_env \<Rightarrow> js_string \<Rightarrow> acquire_options \<Rightarrow> bool \<Rightarrow> lock_step \<Rightarrow> lock_step \<Rightarrow> int \<Rightarrow>
   ('w, thrown, 'g option) action \<Rightarrow> 'w \<Rightarrow> ((thrown + 'g) \<times> 'w) option" where
  "poll_loop 0 env key opts wait try_step wait_step started attempt w = None"
| "poll_loop (Suc fuel) env key opts wait try_step wait_step started attempt w =
     (case attempt w of
        (Inl e, w') \<Rightarrow> Some (Inl e, w')
      | (Inr (Some g), w') \<Rightarrow> Some (Inr g, w')
      | (Inr None, w') \<Rightarrow>
          if \<not> wait then Some (Inl (contention key try_step), w')
          else let waited = ce_now env w' - started in
          if num_less (ao_waitTimeoutMs opts) (num_add (NInt waited) (ao_retryIntervalMs opts))
          then Some (Inl (timeout key wait_step), w')
          else poll_loop fuel env key opts wait try_step wait_step started attempt
                 (ce_sleep env (ao_retryIntervalMs opts) w'))"

text \<open>A returned grant was the answer of some attempt; nothing else is returned.\<close>

lemma poll_loop_grant:
  "poll_loop fuel env key opts wait ts ws started attempt w = Some (Inr g, w') \<Longrightarrow>
   \<exists>u. attempt u = (Inr (Some g), w')"
proof (induction fuel arbitrary: w)
  case (Suc fuel)
  then show ?case
    by (auto simp: Let_def split: prod.splits sum.splits option.splits if_splits)
qed simp

lemma poll_loop_once:
  "attempt w = (Inr (Some g), w') \<Longrightarrow>
   poll_loop (Suc fuel) env key opts wait ts ws started attempt w = Some (Inr g, w')"
  by simp

text \<open>What the loop throws: an error of an attempt, or that the lock was busy.\<close>

lemma poll_loop_error:
  "poll_loop fuel env key opts wait ts ws started attempt w = Some (Inl e, w') \<Longrightarrow>
   (\<exists>u. attempt u = (Inl e, w')) \<or> (\<not> wait \<and> e = contention key ts) \<or> (wait \<and> e = timeout key ws)"
proof (induction fuel arbitrary: w)
  case (Suc fuel)
  then show ?case
    by (auto simp: Let_def split: prod.splits sum.splits option.splits if_splits)
qed simp

text \<open>With a finite time to wait, timers that take time bound the number of polls.\<close>

lemma poll_loop_ends:
  assumes opts: "ao_waitTimeoutMs opts = NInt limit" "ao_retryIntervalMs opts = NInt every" "0 \<le> every"
    and attempts: "\<And>w. ce_now env w \<le> ce_now env (snd (attempt w))"
    and sleeps: "\<And>w. ce_now env w < ce_now env (ce_sleep env (NInt every) w)"
    and "started \<le> ce_now env w" and "limit - (ce_now env w - started) + 1 < int fuel"
    and "0 < fuel"
  shows "\<exists>r. poll_loop fuel env key opts wait ts ws started attempt w = Some r"
  using assms(6-8)
proof (induction fuel arbitrary: w)
  case (Suc fuel)
  obtain r w' where at: "attempt w = (r, w')" by fastforce
  let ?next = "ce_sleep env (NInt every) w'"
  have later: "ce_now env w \<le> ce_now env w'" "ce_now env w' < ce_now env ?next"
    using attempts [of w] sleeps [of w'] at by simp_all
  have "\<exists>r. poll_loop fuel env key opts wait ts ws started attempt ?next = Some r"
    if "\<not> limit < ce_now env w' - started + every"
    using that later Suc.prems opts(3) by (intro Suc.IH) auto
  with at opts(1,2) show ?case
    by (auto simp: Let_def split: sum.split option.split)
qed simp

section \<open>The contract of an adapter\<close>

text \<open>
  \<open>acquire\<close> may run out of fuel (\<open>None\<close>). The laws are what the callers of \<open>interface Lease\<close> rely on.
\<close>

locale lease_adapter =
  fixes acquire :: "nat \<Rightarrow> js_string \<Rightarrow> acquire_options \<Rightarrow> bool \<Rightarrow> 'w \<Rightarrow> ((thrown + client_grant) \<times> 'w) option"
    and renew :: "client_grant \<Rightarrow> js_number \<Rightarrow> ('w, thrown, client_grant) action"
  assumes acquire_identity:
      "acquire fuel key opts wait w = Some (Inr g, w') \<Longrightarrow>
         cg_key g = key \<and> (\<forall>h. ao_holder opts = Some h \<longrightarrow> cg_holder g = h) \<and> 0 < cg_fencingToken g \<and>
         cg_ttlMs g = ao_ttlMs opts"
    and renew_identity:
      "renew g ttl w = (Inr g', w') \<Longrightarrow> client_identity g' = client_identity g \<and> cg_ttlMs g' = ttl"
begin

text \<open>A grant kept alive by any number of renewals stays the grant that was acquired.\<close>

primrec renewals :: "js_number list \<Rightarrow> client_grant \<Rightarrow> ('w, thrown, client_grant) action" where
  "renewals [] g = return_st g"
| "renewals (t # ts) g = bind_st (renew g t) (renewals ts)"

lemma renewals_identity:
  "renewals ts g w = (Inr g', w') \<Longrightarrow>
   client_identity g' = client_identity g \<and> cg_ttlMs g' = last (cg_ttlMs g # ts)"
proof (induction ts arbitrary: g w)
  case (Cons t ts)
  then obtain h u where "renew g t w = (Inr h, u)" "renewals ts h u = (Inr g', w')"
    by (auto simp: bind_st_eq_Inr)
  from renew_identity [OF this(1)] Cons.IH [OF this(2)] show ?case by (simp split: if_splits)
qed simp

end

end
