(* ===== verification/Redis_Scripts.thy ===== *)
theory Redis_Scripts
  imports Js_Values Authority_Spec
begin

text \<open>
  The Redis authority of \<open>src/ts/src/upstash-redis.ts\<close>: the three Lua scripts that acquire, renew
  and release a fenced lease. A script is a tree of \<open>redis.call\<close>s, so the same script runs on any
  server. The server itself is not part of the repository: what the scripts rely on is the locale
  \<open>redis_server\<close>, whose laws are the documented effect of the eight commands on the live keys.
  The scripts' arithmetic (decimal increment digit by digit, comparison of decimal texts) is
  proved equal to arithmetic on numbers; the scripts as one state machine meet the contract
  \<open>fenced_authority\<close>. Texts are sequences of code units; the scripts compare them for equality and
  do arithmetic on decimal digits only.
\<close>

section \<open>Commands and their documented effect\<close>

datatype redis_command =
    EXISTS js_string
  | PTTL js_string
  | HGET js_string js_string
  | GET js_string
  | SET js_string js_string
  | HSET js_string "(js_string \<times> js_string) list"
  | PEXPIRE js_string js_string
  | DEL js_string

datatype redis_error =
    Wrong_type
  | Bad_integer
  | Invalid_expire
  | Missing_positive_ttl
  | Corrupt_lease
  | Corrupt_fence_counter
  | Fence_exhausted

datatype redis_reply =
    R_int int
  | R_bulk js_string
  | R_nil
  | R_status
  | R_error redis_error
  | R_array "redis_reply list"

datatype redis_value = V_string js_string | V_hash "js_string \<rightharpoonup> js_string"

text \<open>The live keys with their values and deadlines.\<close>

type_synonym redis_db = "js_string \<rightharpoonup> redis_value \<times> int option"

text \<open>A signed 64-bit decimal argument, as the server reads it.\<close>

definition redis_integer :: "js_string \<Rightarrow> int option" where
  "redis_integer s =
     (let v = (case s of u # r \<Rightarrow> if u = 45 \<and> positive_decimal r then Some (- int (parse_dec r))
                                 else if canonical_decimal s then Some (int (parse_dec s)) else None
               | [] \<Rightarrow> None)
      in case v of None \<Rightarrow> None
         | Some i \<Rightarrow> if - (2 ^ 63) \<le> i \<and> i < 2 ^ 63 then Some i else None)"

definition remaining_ttl :: "int \<Rightarrow> int \<Rightarrow> int" where
  "remaining_ttl now deadline = max 0 (deadline - now)"

fun redis_effect :: "int \<Rightarrow> redis_command \<Rightarrow> redis_db \<Rightarrow> redis_reply \<times> redis_db" where
  "redis_effect now (EXISTS k) db = (R_int (if db k = None then 0 else 1), db)"
| "redis_effect now (PTTL k) db =
     (R_int (case db k of None \<Rightarrow> - 2 | Some (v, None) \<Rightarrow> - 1 | Some (v, Some d) \<Rightarrow> remaining_ttl now d), db)"
| "redis_effect now (HGET k f) db =
     ((case db k of
         None \<Rightarrow> R_nil
       | Some (V_hash h, _) \<Rightarrow> (case h f of None \<Rightarrow> R_nil | Some v \<Rightarrow> R_bulk v)
       | Some (V_string _, _) \<Rightarrow> R_error Wrong_type), db)"
| "redis_effect now (GET k) db =
     ((case db k of
         None \<Rightarrow> R_nil
       | Some (V_string s, _) \<Rightarrow> R_bulk s
       | Some (V_hash _, _) \<Rightarrow> R_error Wrong_type), db)"
| "redis_effect now (SET k v) db = (R_status, db(k \<mapsto> (V_string v, None)))"
| "redis_effect now (HSET k fs) db =
     (case db k of
        None \<Rightarrow> (R_int (int (length fs)), db(k \<mapsto> (V_hash (map_of (rev fs)), None)))
      | Some (V_hash h, d) \<Rightarrow>
          (R_int (int (length (filter (\<lambda>(f, _). h f = None) fs))), db(k \<mapsto> (V_hash (h ++ map_of (rev fs)), d)))
      | Some (V_string _, _) \<Rightarrow> (R_error Wrong_type, db))"
| "redis_effect now (PEXPIRE k arg) db =
     (case redis_integer arg of
        None \<Rightarrow> (R_error Bad_integer, db)
      | Some ttl \<Rightarrow>
          if \<not> (- (2 ^ 63) \<le> now + ttl \<and> now + ttl < 2 ^ 63) then (R_error Invalid_expire, db)
          else (case db k of
             None \<Rightarrow> (R_int 0, db)
           | Some (v, _) \<Rightarrow> (R_int 1, if ttl \<le> 0 then db(k := None) else db(k \<mapsto> (v, Some (now + ttl))))))"
| "redis_effect now (DEL k) db = (R_int (if db k = None then 0 else 1), db(k := None))"

text \<open>
  What passing time does to the keys. Whether a key is still there in the very millisecond of its
  deadline is left to the server (\<open>gone\<close>).
\<close>

definition expire_keys :: "(int \<Rightarrow> int \<Rightarrow> bool) \<Rightarrow> int \<Rightarrow> redis_db \<Rightarrow> redis_db" where
  "expire_keys gone now db = (\<lambda>k. case db k of
     Some (v, Some d) \<Rightarrow> if gone now d then None else Some (v, Some d)
   | e \<Rightarrow> e)"

section \<open>Scripts\<close>

datatype 'a script = S_return 'a | S_call redis_command "redis_reply \<Rightarrow> 'a script"

text \<open>Running a script: an error reply of \<open>redis.call\<close> is raised and ends it; nothing is undone.\<close>

primrec run_script ::
  "(redis_command \<Rightarrow> 'd \<Rightarrow> redis_reply \<times> 'd) \<Rightarrow> redis_reply script \<Rightarrow> 'd \<Rightarrow> redis_reply \<times> 'd" where
  "run_script call (S_return r) = (\<lambda>d. (r, d))"
| "run_script call (S_call c k) =
     (\<lambda>d. case call c d of (r, d') \<Rightarrow> (case r of R_error e \<Rightarrow> (R_error e, d') | _ \<Rightarrow> run_script call (k r) d'))"

fun reply_int :: "redis_reply \<Rightarrow> int" where
  "reply_int (R_int i) = i"
| "reply_int _ = 0"

definition REDIS_MAX_FENCING_TOKEN :: js_string where
  "REDIS_MAX_FENCING_TOKEN = js ''9007199254740991''"

definition strip_zeros :: "js_string \<Rightarrow> js_string" where
  "strip_zeros current = (let r = dropWhile (\<lambda>u. u = 48) current in if r = [] then [48] else r)"

text \<open>The carry loop, over the digits from the last to the first; its result is reversed too.\<close>

fun carry_loop :: "nat \<Rightarrow> js_string \<Rightarrow> js_string \<Rightarrow> js_string" where
  "carry_loop carry [] reversed = (if carry = 1 then reversed @ [49] else reversed)"
| "carry_loop carry (u # us) reversed =
     (let digit = unat u - 48 + carry in
      if digit \<ge> 10 then carry_loop 1 us (reversed @ [of_nat (48 + (digit - 10))])
      else carry_loop 0 us (reversed @ [of_nat (48 + digit)]))"

definition next_token :: "js_string \<Rightarrow> js_string" where
  "next_token current = rev (carry_loop 1 (rev (strip_zeros current)) [])"

fun text_greater :: "js_string \<Rightarrow> js_string \<Rightarrow> bool" where
  "text_greater [] t = False"
| "text_greater (u # us) [] = True"
| "text_greater (u # us) (v # vs) = (v < u \<or> (u = v \<and> text_greater us vs))"

definition token_exhausted :: "js_string \<Rightarrow> bool" where
  "token_exhausted tok \<longleftrightarrow> length tok > 16 \<or> (length tok = 16 \<and> text_greater tok REDIS_MAX_FENCING_TOKEN)"

definition grant_fields :: "js_string \<Rightarrow> js_string \<Rightarrow> (js_string \<times> js_string) list" where
  "grant_fields holder tok = [(js ''holder'', holder), (js ''token'', tok)]"

definition acquire_existing :: "js_string \<Rightarrow> js_string \<Rightarrow> redis_reply script" where
  "acquire_existing lock_key holder =
     S_call (PTTL lock_key) (\<lambda>pttl.
     if reply_int pttl \<le> 0 then S_return (R_error Missing_positive_ttl)
     else S_call (HGET lock_key (js ''holder'')) (\<lambda>current_holder.
          S_call (HGET lock_key (js ''token'')) (\<lambda>current_token.
          if current_holder = R_nil \<or> current_token = R_nil then S_return (R_error Corrupt_lease)
          else if current_holder = R_bulk holder then S_return (R_array [R_int 1, current_token, pttl, R_int 1])
          else S_return (R_array [R_int 0, R_bulk [], pttl, R_int 0]))))"

definition acquire_mint :: "js_string \<Rightarrow> js_string \<Rightarrow> js_string \<Rightarrow> js_string \<Rightarrow> redis_reply script" where
  "acquire_mint lock_key fence_key holder ttl_ms =
     S_call (GET fence_key) (\<lambda>stored.
     let current = (case stored of R_bulk s \<Rightarrow> s | _ \<Rightarrow> [48]) in
     if \<not> all_digits current then S_return (R_error Corrupt_fence_counter)
     else let tok = next_token current in
     if token_exhausted tok then S_return (R_error Fence_exhausted)
     else S_call (SET fence_key tok) (\<lambda>_.
          S_call (HSET lock_key (grant_fields holder tok)) (\<lambda>_.
          S_call (PEXPIRE lock_key ttl_ms) (\<lambda>_.
          S_call (PTTL lock_key) (\<lambda>pttl.
          S_return (R_array [R_int 1, R_bulk tok, pttl, R_int 0]))))))"

definition REDIS_ACQUIRE_LUA :: "js_string \<Rightarrow> js_string \<Rightarrow> js_string \<Rightarrow> js_string \<Rightarrow> redis_reply script" where
  "REDIS_ACQUIRE_LUA lock_key fence_key holder ttl_ms =
     S_call (EXISTS lock_key) (\<lambda>existing.
     if existing = R_int 1 then acquire_existing lock_key holder
     else acquire_mint lock_key fence_key holder ttl_ms)"

definition REDIS_RENEW_LUA :: "js_string \<Rightarrow> js_string \<Rightarrow> js_string \<Rightarrow> js_string \<Rightarrow> redis_reply script" where
  "REDIS_RENEW_LUA lock_key holder tok ttl_ms =
     S_call (HGET lock_key (js ''holder'')) (\<lambda>h.
     if h \<noteq> R_bulk holder then S_return (R_array [R_int 0, R_int (- 2)])
     else S_call (HGET lock_key (js ''token'')) (\<lambda>t.
     if t \<noteq> R_bulk tok then S_return (R_array [R_int 0, R_int (- 2)])
     else S_call (PEXPIRE lock_key ttl_ms) (\<lambda>_.
          S_call (PTTL lock_key) (\<lambda>pttl. S_return (R_array [R_int 1, pttl])))))"

definition REDIS_RELEASE_LUA :: "js_string \<Rightarrow> js_string \<Rightarrow> js_string \<Rightarrow> redis_reply script" where
  "REDIS_RELEASE_LUA lock_key holder tok =
     S_call (HGET lock_key (js ''holder'')) (\<lambda>h.
     if h \<noteq> R_bulk holder then S_return (R_int 0)
     else S_call (HGET lock_key (js ''token'')) (\<lambda>t.
     if t \<noteq> R_bulk tok then S_return (R_int 0)
     else S_call (DEL lock_key) S_return))"

text \<open>The script requests of clients of one lock, and one script on a server at a time.\<close>

datatype redis_request =
    Redis_acquire js_string js_string
  | Redis_renew js_string js_string js_string
  | Redis_release js_string js_string

fun script_of :: "js_string \<Rightarrow> js_string \<Rightarrow> redis_request \<Rightarrow> redis_reply script" where
  "script_of lock_key fence_key (Redis_acquire holder ttl) = REDIS_ACQUIRE_LUA lock_key fence_key holder ttl"
| "script_of lock_key fence_key (Redis_renew holder tok ttl) = REDIS_RENEW_LUA lock_key holder tok ttl"
| "script_of lock_key fence_key (Redis_release holder tok) = REDIS_RELEASE_LUA lock_key holder tok"

section \<open>The decimal arithmetic of the acquire script\<close>

lemma list_all_rev_digits: "list_all is_digit (rev s) = list_all is_digit s"
  by (simp add: list_all_iff)

text \<open>The value of digits given from the last to the first.\<close>

definition rev_value :: "js_string \<Rightarrow> nat" where
  "rev_value us = parse_dec (rev us)"

lemma rev_value_simps: "rev_value [] = 0" "rev_value (u # us) = rev_value us * 10 + digit_value u"
  by (simp_all add: rev_value_def parse_dec_snoc) (simp add: parse_dec_def)

lemma parse_dec_append: "parse_dec (s @ t) = parse_dec s * 10 ^ length t + parse_dec t"
proof (induction t rule: rev_induct)
  case Nil
  show ?case by (simp add: parse_dec_def)
next
  case (snoc u t)
  have "parse_dec (s @ t @ [u]) = parse_dec (s @ t) * 10 + digit_value u"
    using parse_dec_snoc [of "s @ t" u] by simp
  with snoc show ?case by (simp add: parse_dec_snoc algebra_simps)
qed

lemma rev_value_append: "rev_value (s @ t) = rev_value s + 10 ^ length s * rev_value t"
  by (simp add: rev_value_def parse_dec_append)

lemma digit_char: "d < 10 \<Longrightarrow> of_nat (48 + d) = digit_unit d"
  by (simp add: digit_unit_def)

lemma rev_value_single: "d < 10 \<Longrightarrow> rev_value [digit_unit d] = d"
  by (simp add: rev_value_simps digit_unit_props)

lemma carry_loop_step:
  assumes "is_digit u" and "carry \<le> 1"
  shows "carry_loop carry (u # us) reversed =
     (if digit_value u + carry \<ge> 10 then carry_loop 1 us (reversed @ [digit_unit 0])
      else carry_loop 0 us (reversed @ [digit_unit (digit_value u + carry)]))"
proof -
  have "digit_value u < 10" by (rule digit_unit_value(2) [OF assms(1)])
  with assms(2) have "digit_value u + carry - 10 = 0" by simp
  moreover have "unat u - 48 + carry = digit_value u + carry" by (simp add: digit_value_def)
  ultimately show ?thesis
    by (simp only: carry_loop.simps Let_def digit_unit_def if_True)
qed

text \<open>The loop adds the carry to the value of the digits, and keeps them digits.\<close>

lemma carry_loop_value:
  assumes "list_all is_digit us" and "carry \<le> 1"
  shows "rev_value (carry_loop carry us reversed) = rev_value reversed + 10 ^ length reversed * (rev_value us + carry)"
  using assms
proof (induction us arbitrary: carry reversed)
  case Nil
  have "digit_value 49 = 1" by (simp add: digit_value_def)
  with Nil show ?case by (cases carry) (simp_all add: rev_value_append rev_value_simps)
next
  case (Cons u us)
  then have u: "is_digit u" "digit_value u < 10" by (simp_all add: digit_unit_value)
  show ?case
  proof (cases "digit_value u + carry \<ge> 10")
    case True
    with u(2) Cons.prems(2) have "digit_value u + carry = 10" by simp
    then have "rev_value (u # us) + carry = 10 * (rev_value us + 1)" by (simp add: rev_value_simps)
    with True Cons show ?thesis
      by (simp add: carry_loop_step del: carry_loop.simps) (simp add: rev_value_append rev_value_single algebra_simps)
  next
    case False
    then have "digit_value (digit_unit (digit_value u + carry)) = digit_value u + carry"
      by (simp add: digit_unit_props)
    with False Cons show ?thesis
      by (simp add: carry_loop_step del: carry_loop.simps)
        (simp add: rev_value_append rev_value_simps algebra_simps)
  qed
qed

lemma carry_loop_digits:
  "list_all is_digit us \<Longrightarrow> carry \<le> 1 \<Longrightarrow> list_all is_digit reversed \<Longrightarrow>
   list_all is_digit (carry_loop carry us reversed)"
proof (induction us arbitrary: carry reversed)
  case Nil
  then show ?case by (simp add: is_digit_def)
next
  case (Cons u us)
  then show ?case
    by (simp add: carry_loop_step digit_unit_props del: carry_loop.simps)
qed

lemma carry_loop_last:
  "list_all is_digit us \<Longrightarrow> us \<noteq> [] \<Longrightarrow> carry \<le> 1 \<Longrightarrow> last us \<noteq> 48 \<or> (length us = 1 \<and> carry = 1) \<Longrightarrow>
   last (carry_loop carry us reversed) \<noteq> 48"
proof (induction us arbitrary: carry reversed)
  case (Cons u us)
  from Cons.prems(1) have u: "is_digit u" by simp
  show ?case
  proof (cases "us = []")
    case True
    with Cons.prems digit_unit_value(3) [OF u] have pos: "0 < digit_value u + carry" by auto
    show ?thesis
    proof (cases "10 \<le> digit_value u + carry")
      case True
      with u Cons.prems(3) \<open>us = []\<close> show ?thesis
        by (simp add: carry_loop_step del: carry_loop.simps(2))
    next
      case False
      then have "digit_unit (digit_value u + carry) \<noteq> 48" using pos by (simp add: digit_unit_props)
      with False u Cons.prems(3) \<open>us = []\<close> show ?thesis
        by (simp add: carry_loop_step del: carry_loop.simps(2))
    qed
  next
    case False
    with Cons.prems have us: "last us \<noteq> 48" "list_all is_digit us" by auto
    note IH = Cons.IH [OF us(2) False]
    from us(1) have "last (carry_loop c us r) \<noteq> 48" if "c \<le> 1" for c r
      by (intro IH that disjI1)
    with u Cons.prems(3) show ?thesis
      by (simp only: carry_loop_step split: if_split) simp
  qed
qed simp

lemma parse_dec_zero: "parse_dec (48 # s) = parse_dec s"
  by (simp add: parse_dec_def digit_value_def)

lemma strip_zeros_value: "parse_dec (strip_zeros s) = parse_dec s"
proof -
  have "parse_dec (dropWhile (\<lambda>u. u = 48) s) = parse_dec s"
    by (induction s) (auto simp: parse_dec_zero)
  moreover have "parse_dec [48] = parse_dec []" by (rule parse_dec_zero)
  ultimately show ?thesis
    by (cases "dropWhile (\<lambda>u. u = 48) s = []") (simp_all only: strip_zeros_def Let_def simp_thms if_True if_False)
qed

lemma strip_zeros_canonical:
  assumes "all_digits s"
  shows "canonical_decimal (strip_zeros s)"
proof -
  have "list_all is_digit (dropWhile (\<lambda>u. u = 48) s)"
    using assms set_dropWhileD by (fastforce simp: all_digits_def list_all_iff)
  then show ?thesis
    using hd_dropWhile [of "\<lambda>u. u = 48" s]
    by (auto simp: strip_zeros_def Let_def canonical_decimal_def positive_decimal_def all_digits_def)
qed

text \<open>The digit loop computes the decimal text of the successor.\<close>

lemma next_token_dec:
  assumes "all_digits current"
  shows "next_token current = dec_nat (Suc (parse_dec current))"
proof -
  define s where "s = strip_zeros current"
  have can: "canonical_decimal s" unfolding s_def by (rule strip_zeros_canonical [OF assms])
  have digits: "list_all is_digit (rev s)" "s \<noteq> []"
    using can by (auto simp: canonical_decimal_def positive_decimal_def all_digits_def list_all_rev_digits is_digit_def)
  have ends: "last (rev s) \<noteq> 48 \<or> (length (rev s) = 1 \<and> (1::nat) = 1)"
    using can digits by (auto simp: canonical_decimal_def positive_decimal_def last_rev)
  define r where "r = carry_loop 1 (rev s) []"
  have "rev_value r = rev_value (rev s) + 1"
    using carry_loop_value [OF digits(1), of 1 "[]"] by (simp add: r_def rev_value_simps)
  then have val: "parse_dec (rev r) = Suc (parse_dec current)"
    using strip_zeros_value [of current] by (simp add: rev_value_def s_def)
  have "list_all is_digit r" unfolding r_def by (rule carry_loop_digits) (use digits in auto)
  moreover have "last r \<noteq> 48" unfolding r_def by (rule carry_loop_last) (use digits ends in auto)
  moreover have "r \<noteq> []" using val by (auto simp: parse_dec_def)
  ultimately have "positive_decimal (rev r)"
    by (simp add: positive_decimal_def all_digits_def list_all_rev_digits hd_rev)
  then show ?thesis
    using positive_decimal_parse val by (metis next_token_def r_def s_def)
qed

lemma parse_dec_Cons: "parse_dec (w # ws) = digit_value w * 10 ^ length ws + parse_dec ws"
  using parse_dec_append [of "[w]" ws] by (simp add: parse_dec_def)

lemma parse_dec_bound: "list_all is_digit s \<Longrightarrow> parse_dec s < 10 ^ length s"
proof (induction s)
  case Nil
  show ?case by (simp add: parse_dec_def)
next
  case (Cons u s)
  then have "digit_value u \<le> 9" using digit_unit_value(2) [of u] by simp
  then have "digit_value u * 10 ^ length s \<le> 9 * 10 ^ length s" by simp
  moreover from Cons have "parse_dec s < 10 ^ length s" by simp
  ultimately have "digit_value u * 10 ^ length s + parse_dec s < 9 * 10 ^ length s + 10 ^ length s"
    by (rule add_le_less_mono)
  then show ?case by (simp add: parse_dec_Cons)
qed

lemma lexicographic_value:
  fixes a b x y m :: nat
  assumes "x < m" and "y < m"
  shows "b * m + y < a * m + x \<longleftrightarrow> b < a \<or> (a = b \<and> y < x)"
proof -
  have "b * m + y < a * m + x" if "b < a"
  proof -
    from that have "(b + 1) * m \<le> a * m" by (intro mult_le_mono1) simp
    with assms show ?thesis by simp
  qed
  moreover have "a * m + x < b * m + y" if "a < b"
  proof -
    from that have "(a + 1) * m \<le> b * m" by (intro mult_le_mono1) simp
    with assms show ?thesis by simp
  qed
  ultimately show ?thesis by (metis linorder_less_linear nat_add_left_cancel_less not_less_iff_gr_or_eq)
qed

lemma digit_order: "is_digit u \<Longrightarrow> is_digit v \<Longrightarrow> v < u \<longleftrightarrow> digit_value v < digit_value u"
  by (simp add: is_digit_def digit_value_def word_less_nat_alt word_le_nat_alt) linarith

lemma digit_equal: "is_digit u \<Longrightarrow> is_digit v \<Longrightarrow> u = v \<longleftrightarrow> digit_value u = digit_value v"
  by (metis digit_unit_value(1))

text \<open>On digits of equal number, comparing the texts is comparing the values.\<close>

lemma text_greater_value:
  "length s = length t \<Longrightarrow> list_all is_digit s \<Longrightarrow> list_all is_digit t \<Longrightarrow>
   text_greater s t \<longleftrightarrow> parse_dec t < parse_dec s"
proof (induction s t rule: list_induct2)
  case Nil
  then show ?case by simp
next
  case (Cons u us v vs)
  then show ?case
    using lexicographic_value [of "parse_dec us" "10 ^ length us" "parse_dec vs" "digit_value v" "digit_value u"]
      parse_dec_bound [of us] parse_dec_bound [of vs]
    by (simp add: parse_dec_Cons digit_order digit_equal)
qed

lemma canonical_length_bound:
  assumes "positive_decimal s"
  shows "10 ^ (length s - 1) \<le> parse_dec s"
proof (cases s)
  case Nil
  with assms show ?thesis by (simp add: positive_decimal_def all_digits_def)
next
  case (Cons u us)
  with assms have "1 \<le> digit_value u"
    using digit_unit_value(3) [of u] by (simp add: positive_decimal_def all_digits_def)
  then have "1 * 10 ^ length us \<le> digit_value u * 10 ^ length us" by (intro mult_le_mono1)
  then have "10 ^ length us \<le> parse_dec s" unfolding Cons parse_dec_Cons mult_1 by (rule trans_le_add1)
  with Cons show ?thesis by simp
qed

lemma REDIS_MAX_FENCING_TOKEN_facts:
  "length REDIS_MAX_FENCING_TOKEN = 16" "list_all is_digit REDIS_MAX_FENCING_TOKEN"
  "parse_dec REDIS_MAX_FENCING_TOKEN = 9007199254740991"
  by (simp_all add: REDIS_MAX_FENCING_TOKEN_def js_simps is_digit_def parse_dec_def digit_value_def)

text \<open>The length-and-text test of the script is the numeric bound.\<close>

lemma token_exhausted_iff: "0 < n \<Longrightarrow> token_exhausted (dec_nat n) \<longleftrightarrow> 9007199254740991 < n"
proof -
  assume "0 < n"
  then have pos: "positive_decimal (dec_nat n)" by (rule positive_dec_nat)
  note digits = dec_nat_digits [of n]
  note lower = canonical_length_bound [OF pos, unfolded parse_dec_dec_nat]
  note upper = parse_dec_bound [OF digits, unfolded parse_dec_dec_nat]
  let ?l = "length (dec_nat n)"
  consider "16 < ?l" | "?l = 16" | "?l < 16" by linarith
  then show ?thesis
  proof cases
    case 1
    then have "(10::nat) ^ 16 \<le> 10 ^ (?l - 1)" by (intro power_increasing) auto
    with lower have "(10::nat) ^ 16 \<le> n" by (rule order_trans [rotated])
    with 1 show ?thesis by (simp add: token_exhausted_def)
  next
    case 2
    with text_greater_value [of "dec_nat n" REDIS_MAX_FENCING_TOKEN] digits show ?thesis
      by (simp add: token_exhausted_def REDIS_MAX_FENCING_TOKEN_facts)
  next
    case 3
    then have "(10::nat) ^ ?l \<le> 10 ^ 15" by (intro power_increasing) auto
    with upper have "n < 10 ^ 15" by linarith
    with 3 show ?thesis by (simp add: token_exhausted_def)
  qed
qed

section \<open>The lease of one lock\<close>

text \<open>
  What the scripts keep of the two keys of a lock: the fence is absent or the decimal text of a
  positive token, without a deadline; a lease has a holder and the fence's own text as its token.
\<close>

definition lock_invar :: "js_string \<Rightarrow> js_string \<Rightarrow> redis_db \<Rightarrow> bool" where
  "lock_invar lock_key fence_key db \<longleftrightarrow>
     (case db fence_key of
        None \<Rightarrow> True
      | Some (V_string s, None) \<Rightarrow> positive_decimal s \<and> parse_dec s \<le> 9007199254740991
      | _ \<Rightarrow> False) \<and>
     (case db lock_key of
        None \<Rightarrow> True
      | Some (V_hash h, _) \<Rightarrow>
          h (js ''holder'') \<noteq> None \<and>
          (case db fence_key of Some (V_string s, _) \<Rightarrow> h (js ''token'') = Some s | _ \<Rightarrow> False)
      | _ \<Rightarrow> False)"

definition fence_counter :: "js_string \<Rightarrow> redis_db \<Rightarrow> nat" where
  "fence_counter fence_key db = (case db fence_key of Some (V_string s, _) \<Rightarrow> parse_dec s | _ \<Rightarrow> 0)"

text \<open>Holder, token and deadline of the lease, if there is one.\<close>

definition lease_of :: "js_string \<Rightarrow> redis_db \<Rightarrow> (js_string option \<times> js_string option \<times> int option) option" where
  "lease_of lock_key db =
     (case db lock_key of Some (V_hash h, d) \<Rightarrow> Some (h (js ''holder''), h (js ''token''), d) | _ \<Rightarrow> None)"

lemma lock_invar_fence:
  assumes "lock_invar lock_key fence_key db"
  obtains "db fence_key = None" "db lock_key = None" "fence_counter fence_key db = 0"
  | n where "db fence_key = Some (V_string (dec_nat n), None)" "0 < n" "n \<le> 9007199254740991"
      "fence_counter fence_key db = n"
      "db lock_key = None \<or>
       (\<exists>h d holder. db lock_key = Some (V_hash h, d) \<and> h (js ''holder'') = Some holder \<and>
          h (js ''token'') = Some (dec_nat n))"
proof (cases "db fence_key")
  case None
  with assms that(1) show thesis
    by (auto simp: lock_invar_def fence_counter_def split: option.splits prod.splits redis_value.splits)
next
  case (Some e)
  with assms obtain s where s: "db fence_key = Some (V_string s, None)" "positive_decimal s"
    "parse_dec s \<le> 9007199254740991"
    by (auto simp: lock_invar_def split: prod.splits redis_value.splits option.splits)
  show thesis
  proof (rule that(2))
    show "db fence_key = Some (V_string (dec_nat (parse_dec s)), None)" "0 < parse_dec s"
      using s positive_decimal_parse by simp_all
    show "db lock_key = None \<or>
       (\<exists>h d holder. db lock_key = Some (V_hash h, d) \<and> h (js ''holder'') = Some holder \<and>
          h (js ''token'') = Some (dec_nat (parse_dec s)))"
      using assms s positive_decimal_parse [of s]
      by (auto simp: lock_invar_def split: prod.splits redis_value.splits option.splits)
  qed (use s in \<open>simp_all add: fence_counter_def\<close>)
qed

lemma field_names [simp]: "js ''holder'' \<noteq> js ''token''" "js ''token'' \<noteq> js ''holder''"
  by simp_all

lemma all_digits_zero: "all_digits [48]" "parse_dec [48] = 0"
  by (simp_all add: all_digits_def is_digit_def parse_dec_def digit_value_def)

lemma all_digits_dec_nat: "all_digits (dec_nat n)"
  by (simp add: all_digits_def dec_nat_digits)

definition new_grant :: "js_string \<Rightarrow> js_string \<Rightarrow> js_string \<rightharpoonup> js_string" where
  "new_grant holder tok = map_of (rev (grant_fields holder tok))"

lemma new_grant_fields [simp]:
  "new_grant holder tok (js ''holder'') = Some holder" "new_grant holder tok (js ''token'') = Some tok"
  by (simp_all add: new_grant_def grant_fields_def)

lemma run_script_call:
  "call c d = (r, d') \<Longrightarrow> (\<And>e. r \<noteq> R_error e) \<Longrightarrow> run_script call (S_call c k) d = run_script call (k r) d'"
  by (simp split: redis_reply.split)

lemma run_script_error: "call c d = (R_error e, d') \<Longrightarrow> run_script call (S_call c k) d = (R_error e, d')"
  by simp

lemma run_PTTL:
  "run_script (redis_effect now) (S_call (PTTL key) k) db =
   run_script (redis_effect now) (k (fst (redis_effect now (PTTL key) db))) db"
  by simp

text \<open>What the script does after it has chosen the new token.\<close>

definition write_grant ::
  "int \<Rightarrow> js_string \<Rightarrow> js_string \<Rightarrow> js_string \<Rightarrow> js_string \<Rightarrow> js_string \<Rightarrow> redis_db \<Rightarrow> redis_reply \<times> redis_db" where
  "write_grant now lock_key fence_key holder ttl tok db =
     (case redis_effect now (PEXPIRE lock_key ttl)
        (db(fence_key \<mapsto> (V_string tok, None), lock_key \<mapsto> (V_hash (new_grant holder tok), None))) of
        (R_error e, db') \<Rightarrow> (R_error e, db')
      | (_, db') \<Rightarrow> (R_array [R_int 1, R_bulk tok, fst (redis_effect now (PTTL lock_key) db'), R_int 0], db'))"

lemma write_grant_run:
  assumes "db lock_key = None" and "lock_key \<noteq> fence_key"
  shows "run_script (redis_effect now)
      (S_call (SET fence_key tok) (\<lambda>_.
       S_call (HSET lock_key (grant_fields holder tok)) (\<lambda>_.
       S_call (PEXPIRE lock_key ttl) (\<lambda>_.
       S_call (PTTL lock_key) (\<lambda>pttl. S_return (R_array [R_int 1, R_bulk tok, pttl, R_int 0])))))) db =
    write_grant now lock_key fence_key holder ttl tok db"
proof -
  let ?db = "db(fence_key \<mapsto> (V_string tok, None), lock_key \<mapsto> (V_hash (new_grant holder tok), None))"
  obtain r db' where pexpire: "redis_effect now (PEXPIRE lock_key ttl) ?db = (r, db')" by fastforce
  have "redis_effect now (HSET lock_key (grant_fields holder tok)) (db(fence_key \<mapsto> (V_string tok, None))) =
      (R_int (int (length (grant_fields holder tok))), ?db)"
    using assms by (simp add: new_grant_def)
  then show ?thesis
    using pexpire
    by (cases r) (simp_all add: write_grant_def run_script_call run_script_error run_PTTL
        del: redis_effect.simps(2,6,7) run_script.simps(2))
qed

text \<open>The minting branch, with the number the fence counter stands for.\<close>

lemma acquire_mint_run:
  assumes "lock_invar lock_key fence_key db" and "db lock_key = None" and "lock_key \<noteq> fence_key"
    and n: "n = Suc (fence_counter fence_key db)"
  shows "run_script (redis_effect now) (acquire_mint lock_key fence_key holder ttl) db =
    (if 9007199254740991 < n then (R_error Fence_exhausted, db)
     else write_grant now lock_key fence_key holder ttl (dec_nat n) db)"
proof -
  obtain stored where stored: "redis_effect now (GET fence_key) db = (stored, db)" "\<And>e. stored \<noteq> R_error e"
    and current: "all_digits (case stored of R_bulk s \<Rightarrow> s | _ \<Rightarrow> [48])"
      "next_token (case stored of R_bulk s \<Rightarrow> s | _ \<Rightarrow> [48]) = dec_nat n"
    using assms(1)
  proof (cases rule: lock_invar_fence)
    case 1
    with n that [of R_nil] show ?thesis by (simp add: all_digits_zero next_token_dec)
  next
    case (2 m)
    with n that [of "R_bulk (dec_nat m)"] show ?thesis by (simp add: all_digits_dec_nat next_token_dec)
  qed
  have "token_exhausted (dec_nat n) \<longleftrightarrow> 9007199254740991 < n"
    using n by (intro token_exhausted_iff) simp
  then show ?thesis
    unfolding acquire_mint_def run_script_call [where call = "redis_effect now", OF stored] Let_def
    using current write_grant_run [where db = db and lock_key = lock_key, OF assms(2,3)]
    by (simp del: run_script.simps(2))
qed

text \<open>The other branches, on keys that satisfy the invariant.\<close>

lemma acquire_existing_run:
  assumes "db lock_key = Some (V_hash h, d)" and "h (js ''holder'') = Some owner" and "h (js ''token'') = Some tok"
  shows "run_script (redis_effect now) (acquire_existing lock_key holder) db =
    ((case d of
        None \<Rightarrow> R_error Missing_positive_ttl
      | Some dl \<Rightarrow>
          if dl \<le> now then R_error Missing_positive_ttl
          else if owner = holder then R_array [R_int 1, R_bulk tok, R_int (dl - now), R_int 1]
          else R_array [R_int 0, R_bulk [], R_int (dl - now), R_int 0]), db)"
  using assms by (simp add: acquire_existing_def remaining_ttl_def max_def split: option.split)

definition owned :: "js_string \<Rightarrow> js_string \<Rightarrow> js_string \<Rightarrow> redis_db \<Rightarrow> bool" where
  "owned lock_key holder tok db =
     (case lease_of lock_key db of Some (h, t, d) \<Rightarrow> h = Some holder \<and> t = Some tok | None \<Rightarrow> False)"

lemma not_string_key:
  "lock_invar lock_key fence_key db \<Longrightarrow> db lock_key = None \<or> (\<exists>h d. db lock_key = Some (V_hash h, d))"
  by (auto simp: lock_invar_def split: option.splits redis_value.splits prod.splits)

lemma renew_run:
  assumes "lock_invar lock_key fence_key db"
  shows "run_script (redis_effect now) (REDIS_RENEW_LUA lock_key holder tok ttl) db =
    (if owned lock_key holder tok db then
       (case redis_effect now (PEXPIRE lock_key ttl) db of
          (R_error e, db') \<Rightarrow> (R_error e, db')
        | (_, db') \<Rightarrow> (R_array [R_int 1, fst (redis_effect now (PTTL lock_key) db')], db'))
     else (R_array [R_int 0, R_int (- 2)], db))"
proof -
  obtain r db' where pexpire: "redis_effect now (PEXPIRE lock_key ttl) db = (r, db')" by fastforce
  have rest: "run_script (redis_effect now)
      (S_call (PEXPIRE lock_key ttl) (\<lambda>_. S_call (PTTL lock_key) (\<lambda>pttl. S_return (R_array [R_int 1, pttl])))) db =
    (case redis_effect now (PEXPIRE lock_key ttl) db of
          (R_error e, db') \<Rightarrow> (R_error e, db')
        | (_, db') \<Rightarrow> (R_array [R_int 1, fst (redis_effect now (PTTL lock_key) db')], db'))"
    using pexpire
    by (cases r) (simp_all add: run_script_call run_script_error run_PTTL del: redis_effect.simps(2,7) run_script.simps(2))
  from not_string_key [OF assms] show ?thesis
    using rest
    by (elim disjE exE)
      (simp_all add: REDIS_RENEW_LUA_def owned_def lease_of_def del: redis_effect.simps(2,7) split: option.split)
qed

lemma release_run:
  assumes "lock_invar lock_key fence_key db"
  shows "run_script (redis_effect now) (REDIS_RELEASE_LUA lock_key holder tok) db =
    (if owned lock_key holder tok db then (R_int 1, db(lock_key := None)) else (R_int 0, db))"
  using not_string_key [OF assms]
  by (elim disjE exE) (simp_all add: REDIS_RELEASE_LUA_def owned_def lease_of_def split: option.split)

text \<open>\<open>PEXPIRE\<close> touches nothing but the deadline of its key, or deletes it.\<close>

lemma PEXPIRE_cases:
  assumes "redis_effect now (PEXPIRE k arg) db = (r, db')"
  obtains "db' = db" | "db' = db(k := None)"
  | v d d' where "db k = Some (v, d)" "db' = db(k \<mapsto> (v, Some d'))"
proof (cases "db k")
  case None
  with assms have "db' = db" by (simp split: option.splits if_splits)
  then show thesis by (rule that(1))
next
  case (Some e)
  then obtain v d where e: "db k = Some (v, d)" by (cases e) simp
  with assms have "db' = db \<or> db' = db(k := None) \<or> (\<exists>d'. db' = db(k \<mapsto> (v, Some d')))"
    by (simp split: option.splits if_splits) blast+
  with that e show thesis by blast
qed

lemma lock_invar_PEXPIRE:
  assumes "lock_invar lock_key fence_key db" and "lock_key \<noteq> fence_key"
    and "redis_effect now (PEXPIRE lock_key arg) db = (r, db')"
  shows "lock_invar lock_key fence_key db' \<and> fence_counter fence_key db' = fence_counter fence_key db"
  using assms(3)
proof (cases rule: PEXPIRE_cases)
  case (3 v d d')
  with assms(1,2) show ?thesis by (auto simp: lock_invar_def fence_counter_def split: redis_value.splits)
qed (use assms(1,2) in \<open>auto simp: lock_invar_def fence_counter_def\<close>)

lemma write_grant_invar:
  assumes "lock_key \<noteq> fence_key" and "0 < n" and "n \<le> 9007199254740991"
  shows "lock_invar lock_key fence_key (snd (write_grant now lock_key fence_key holder ttl (dec_nat n) db)) \<and>
    fence_counter fence_key (snd (write_grant now lock_key fence_key holder ttl (dec_nat n) db)) = n"
proof -
  let ?db = "db(fence_key \<mapsto> (V_string (dec_nat n), None), lock_key \<mapsto> (V_hash (new_grant holder (dec_nat n)), None))"
  obtain r db' where pexpire: "redis_effect now (PEXPIRE lock_key ttl) ?db = (r, db')" by fastforce
  have "lock_invar lock_key fence_key ?db" "fence_counter fence_key ?db = n"
    using assms by (simp_all add: lock_invar_def fence_counter_def positive_dec_nat)
  with lock_invar_PEXPIRE [OF _ assms(1) pexpire] have "lock_invar lock_key fence_key db' \<and> fence_counter fence_key db' = n"
    by simp
  then show ?thesis using pexpire by (cases r) (simp_all add: write_grant_def del: redis_effect.simps)
qed

section \<open>The scripts as a state machine\<close>

text \<open>
  One request on the keys at a time \<open>now\<close>, with the invariant and the counter. The answer is
  paired with its request, as a client sees it.
\<close>

definition keys_step :: "js_string \<Rightarrow> js_string \<Rightarrow> int \<Rightarrow> redis_request \<Rightarrow> redis_db \<Rightarrow> redis_reply \<times> redis_db" where
  "keys_step lock_key fence_key now req db = run_script (redis_effect now) (script_of lock_key fence_key req) db"

fun reply_minted :: "redis_request \<times> redis_reply \<Rightarrow> nat option" where
  "reply_minted (Redis_acquire _ _, R_array [R_int ok, R_bulk tok, _, R_int replayed]) =
     (if ok = 1 \<and> replayed = 0 then Some (parse_dec tok) else None)"
| "reply_minted _ = None"

fun reply_confirmed :: "redis_request \<times> redis_reply \<Rightarrow> js_string option" where
  "reply_confirmed (Redis_renew _ tok _, R_array [R_int ok, _]) = (if ok = 1 then Some tok else None)"
| "reply_confirmed (Redis_release _ tok, R_int ok) = (if ok = 1 then Some tok else None)"
| "reply_confirmed _ = None"

lemma keys_step_acquire_free:
  assumes "lock_invar lock_key fence_key db" and "db lock_key = None" and "lock_key \<noteq> fence_key"
  shows "keys_step lock_key fence_key now (Redis_acquire holder ttl) db =
    (let n = Suc (fence_counter fence_key db) in
     if 9007199254740991 < n then (R_error Fence_exhausted, db)
     else write_grant now lock_key fence_key holder ttl (dec_nat n) db)"
  using acquire_mint_run [OF assms refl, of now holder ttl] assms(2)
  by (simp add: keys_step_def REDIS_ACQUIRE_LUA_def Let_def)

lemma keys_step_acquire_held:
  assumes "db lock_key = Some (V_hash h, d)" and "h (js ''holder'') = Some owner" and "h (js ''token'') = Some tok"
  shows "keys_step lock_key fence_key now (Redis_acquire holder ttl) db =
    ((case d of
        None \<Rightarrow> R_error Missing_positive_ttl
      | Some dl \<Rightarrow>
          if dl \<le> now then R_error Missing_positive_ttl
          else if owner = holder then R_array [R_int 1, R_bulk tok, R_int (dl - now), R_int 1]
          else R_array [R_int 0, R_bulk [], R_int (dl - now), R_int 0]), db)"
  using acquire_existing_run [where db = db and lock_key = lock_key and h = h, OF assms, of now holder] assms(1)
  by (simp add: keys_step_def REDIS_ACQUIRE_LUA_def)

lemma write_grant_reply:
  "fst (write_grant now lock_key fence_key holder ttl tok db) = R_array [R_int 1, R_bulk tok, pttl, R_int 0] \<or>
   (\<exists>e. fst (write_grant now lock_key fence_key holder ttl tok db) = R_error e)" if "pttl =
     fst (redis_effect now (PTTL lock_key) (snd (write_grant now lock_key fence_key holder ttl tok db)))"
  using that unfolding write_grant_def
  by (cases "redis_effect now (PEXPIRE lock_key ttl)
      (db(fence_key \<mapsto> (V_string tok, None), lock_key \<mapsto> (V_hash (new_grant holder tok), None)))")
    (simp del: redis_effect.simps split: redis_reply.splits)

lemma write_grant_minted:
  "reply_minted (Redis_acquire holder ttl, fst (write_grant now lock_key fence_key holder ttl (dec_nat n) db)) = Some t \<Longrightarrow> t = n"
  using write_grant_reply [OF refl, of now lock_key fence_key holder ttl "dec_nat n" db] by auto

lemma keys_step_invar:
  assumes inv: "lock_invar lock_key fence_key db" and ne: "lock_key \<noteq> fence_key"
  shows "lock_invar lock_key fence_key (snd (keys_step lock_key fence_key now req db)) \<and>
    fence_counter fence_key db \<le> fence_counter fence_key (snd (keys_step lock_key fence_key now req db))"
proof (cases req)
  case acq: (Redis_acquire holder ttl)
  show ?thesis
  proof (cases "db lock_key")
    case None
    with inv ne write_grant_invar [OF ne, of "Suc (fence_counter fence_key db)" now holder ttl db] show ?thesis
      unfolding acq by (simp add: keys_step_acquire_free Let_def)
  next
    case (Some e)
    with inv obtain h d owner tok where "db lock_key = Some (V_hash h, d)" "h (js ''holder'') = Some owner"
      "h (js ''token'') = Some tok"
      by (cases rule: lock_invar_fence) auto
    then show ?thesis using inv unfolding acq by (simp add: keys_step_acquire_held)
  qed
next
  case (Redis_renew holder tok ttl)
  obtain r db' where pexpire: "redis_effect now (PEXPIRE lock_key ttl) db = (r, db')" by fastforce
  from lock_invar_PEXPIRE [OF inv ne pexpire] inv show ?thesis
    unfolding Redis_renew keys_step_def script_of.simps renew_run [OF inv] pexpire
    by (cases r) simp_all
next
  case (Redis_release holder tok)
  have "lock_invar lock_key fence_key (db(lock_key := None))"
    "fence_counter fence_key (db(lock_key := None)) = fence_counter fence_key db"
    using inv ne by (simp_all add: lock_invar_def fence_counter_def)
  with inv show ?thesis unfolding Redis_release keys_step_def script_of.simps release_run [OF inv] by simp
qed

lemma keys_step_minted:
  assumes inv: "lock_invar lock_key fence_key db" and ne: "lock_key \<noteq> fence_key"
    and minted: "reply_minted (req, fst (keys_step lock_key fence_key now req db)) = Some t"
  shows "t = Suc (fence_counter fence_key db) \<and>
    fence_counter fence_key (snd (keys_step lock_key fence_key now req db)) = t \<and> t \<le> 9007199254740991"
proof -
  from minted obtain holder ttl where acq: "req = Redis_acquire holder ttl" by (cases req) auto
  show ?thesis
  proof (cases "db lock_key")
    case None
    let ?n = "Suc (fence_counter fence_key db)"
    note step = keys_step_acquire_free [OF inv None ne, of now holder ttl, unfolded Let_def]
    from minted have "\<not> 9007199254740991 < ?n" unfolding acq step by (auto split: if_splits)
    with minted write_grant_minted [of holder ttl now lock_key fence_key ?n db t]
      write_grant_invar [OF ne, of ?n now holder ttl db]
    show ?thesis unfolding acq step by simp
  next
    case (Some e)
    with inv obtain h d owner tok where "db lock_key = Some (V_hash h, d)" "h (js ''holder'') = Some owner"
      "h (js ''token'') = Some tok"
      by (cases rule: lock_invar_fence) auto
    with minted show ?thesis unfolding acq by (auto simp: keys_step_acquire_held split: option.splits if_splits)
  qed
qed

lemma owned_current:
  assumes "lock_invar lock_key fence_key db" and "owned lock_key holder tok db"
  shows "tok = dec_nat (fence_counter fence_key db)"
  using assms(1) by (cases rule: lock_invar_fence) (use assms(2) in \<open>auto simp: owned_def lease_of_def\<close>)

lemma keys_step_confirmed:
  assumes inv: "lock_invar lock_key fence_key db"
    and "reply_confirmed (req, fst (keys_step lock_key fence_key now req db)) = Some tok"
  shows "tok = dec_nat (fence_counter fence_key db)"
proof (cases req)
  case (Redis_renew holder t ttl)
  with assms have "owned lock_key holder t db" "t = tok"
    unfolding Redis_renew keys_step_def script_of.simps renew_run [OF inv]
    by (auto simp del: redis_effect.simps split: if_splits redis_reply.splits prod.splits)
  with owned_current [OF inv] show ?thesis by blast
next
  case (Redis_release holder t)
  with assms have "owned lock_key holder t db" "t = tok"
    unfolding Redis_release keys_step_def script_of.simps release_run [OF inv] by (auto split: if_splits)
  with owned_current [OF inv] show ?thesis by blast
qed (use assms in simp)

section \<open>Servers\<close>

text \<open>
  One request after \<open>dt\<close> milliseconds on a server with its own stored data \<open>'d\<close>, and a history of
  requests.
\<close>

fun redis_step ::
  "(int \<Rightarrow> redis_command \<Rightarrow> 'd \<Rightarrow> redis_reply \<times> 'd) \<Rightarrow> js_string \<Rightarrow> js_string \<Rightarrow> int \<times> 'd \<Rightarrow> nat \<times> redis_request \<Rightarrow>
   (redis_request \<times> redis_reply) \<times> (int \<times> 'd)" where
  "redis_step call lock_key fence_key (now, d) (dt, req) =
     (let later = now + int dt; (r, d') = run_script (call later) (script_of lock_key fence_key req) d
      in ((req, r), (later, d')))"

fun redis_run ::
  "(int \<Rightarrow> redis_command \<Rightarrow> 'd \<Rightarrow> redis_reply \<times> 'd) \<Rightarrow> js_string \<Rightarrow> js_string \<Rightarrow> int \<times> 'd \<Rightarrow> (nat \<times> redis_request) list \<Rightarrow>
   (redis_request \<times> redis_reply) list \<times> (int \<times> 'd)" where
  "redis_run call lock_key fence_key s [] = ([], s)"
| "redis_run call lock_key fence_key s (op # ops) =
     (let (out, s') = redis_step call lock_key fence_key s op; (outs, s'') = redis_run call lock_key fence_key s' ops
      in (out # outs, s''))"

text \<open>
  What the scripts rely on of a server: each command answers and changes the live keys as
  documented, a key lives until its deadline and is gone after it.
\<close>

locale redis_server =
  fixes call :: "int \<Rightarrow> redis_command \<Rightarrow> 'd \<Rightarrow> redis_reply \<times> 'd"
    and live :: "int \<Rightarrow> 'd \<Rightarrow> redis_db"
    and gone :: "int \<Rightarrow> int \<Rightarrow> bool"
  assumes call_reply: "fst (call now c d) = fst (redis_effect now c (live now d))"
    and call_effect: "live now (snd (call now c d)) = snd (redis_effect now c (live now d))"
    and live_later: "now \<le> later \<Longrightarrow> live later d = expire_keys gone later (live now d)"
    and gone_after: "deadline < now \<Longrightarrow> gone now deadline"
    and gone_before: "now < deadline \<Longrightarrow> \<not> gone now deadline"
begin

text \<open>A script does on the server what it does on the live keys.\<close>

lemma run_script_live:
  "fst (run_script (call now) p d) = fst (run_script (redis_effect now) p (live now d)) \<and>
   live now (snd (run_script (call now) p d)) = snd (run_script (redis_effect now) p (live now d))"
proof (induction p arbitrary: d)
  case (S_call c k)
  obtain r d' where call: "call now c d = (r, d')" by fastforce
  have effect: "redis_effect now c (live now d) = (r, live now d')"
    using call_reply [of now c d] call_effect [of now c d] call by (simp add: prod_eq_iff)
  show ?case
    using S_call [of "k r" d'] call effect by (cases r) simp_all
qed simp

lemma step_live:
  "fst (redis_step call lock_key fence_key (now, d) (dt, req)) =
     (req, fst (keys_step lock_key fence_key (now + int dt) req (expire_keys gone (now + int dt) (live now d))))"
  "fst (snd (redis_step call lock_key fence_key (now, d) (dt, req))) = now + int dt"
  "live (now + int dt) (snd (snd (redis_step call lock_key fence_key (now, d) (dt, req)))) =
     snd (keys_step lock_key fence_key (now + int dt) req (expire_keys gone (now + int dt) (live now d)))"
  using run_script_live [of "now + int dt" "script_of lock_key fence_key req" d] live_later [of now "now + int dt" d]
  by (simp_all add: keys_step_def Let_def case_prod_unfold)

end

locale redis_lock = redis_server call live gone
  for call :: "int \<Rightarrow> redis_command \<Rightarrow> 'd \<Rightarrow> redis_reply \<times> 'd"
    and live :: "int \<Rightarrow> 'd \<Rightarrow> redis_db"
    and gone :: "int \<Rightarrow> int \<Rightarrow> bool" +
  fixes lock_key :: js_string
    and fence_key :: js_string
  assumes keys_differ: "lock_key \<noteq> fence_key"
begin

definition state_invar :: "int \<times> 'd \<Rightarrow> bool" where
  "state_invar s = lock_invar lock_key fence_key (live (fst s) (snd s))"

definition state_counter :: "int \<times> 'd \<Rightarrow> nat" where
  "state_counter s = fence_counter fence_key (live (fst s) (snd s))"

definition confirmed_token :: "redis_request \<times> redis_reply \<Rightarrow> nat option" where
  "confirmed_token out = map_option parse_dec (reply_confirmed out)"

lemma expire_invar:
  assumes "lock_invar lock_key fence_key db"
  shows "lock_invar lock_key fence_key (expire_keys gone later db) \<and>
    fence_counter fence_key (expire_keys gone later db) = fence_counter fence_key db"
  using assms
  by (cases rule: lock_invar_fence)
    (auto simp: expire_keys_def lock_invar_def fence_counter_def positive_dec_nat split: option.split)

end

sublocale redis_lock \<subseteq> authority: fenced_authority "redis_step call lock_key fence_key" state_counter reply_minted
    confirmed_token state_invar
proof
  fix s :: "int \<times> 'd" and op :: "nat \<times> redis_request" and t
  obtain now d dt req where s: "s = (now, d)" and op: "op = (dt, req)" by (cases s; cases op)
  assume inv: "state_invar s"
  let ?db = "expire_keys gone (now + int dt) (live now d)"
  from inv have db: "lock_invar lock_key fence_key ?db" "fence_counter fence_key ?db = state_counter s"
    by (simp_all add: state_invar_def state_counter_def s expire_invar)
  note after = step_live [where lock_key = lock_key and fence_key = fence_key and now = now and d = d and dt = dt and req = req]
  have snd_step: "snd (redis_step call lock_key fence_key s op) =
      (now + int dt, snd (snd (redis_step call lock_key fence_key s op)))"
    using after(2) by (simp add: s op prod_eq_iff del: redis_step.simps)
  note view = state_invar_def state_counter_def
  note kept = keys_step_invar [OF db(1) keys_differ, of "now + int dt" req]
  show "state_invar (snd (redis_step call lock_key fence_key s op))"
    "state_counter s \<le> state_counter (snd (redis_step call lock_key fence_key s op))"
    using kept after(3) db(2) by (subst snd_step; simp add: view s op del: redis_step.simps)+
  { assume "reply_minted (fst (redis_step call lock_key fence_key s op)) = Some t"
    then have "t = Suc (fence_counter fence_key ?db) \<and>
        fence_counter fence_key (snd (keys_step lock_key fence_key (now + int dt) req ?db)) = t"
      using keys_step_minted [OF db(1) keys_differ] after(1) by (metis s op)
    then show "state_counter s < t \<and> state_counter (snd (redis_step call lock_key fence_key s op)) = t"
      using after(3) db(2) by (subst snd_step) (simp add: view s op del: redis_step.simps) }
  assume "confirmed_token (fst (redis_step call lock_key fence_key s op)) = Some t"
  then show "t = state_counter s"
    using keys_step_confirmed [OF db(1), of req "now + int dt"] db(2) after(1)
    by (auto simp: confirmed_token_def s op simp del: redis_step.simps)
qed

text \<open>
  A server that meets the laws: it stores the keys with their deadlines and drops an expired key
  when a command runs, as the reference server does (a key lives through the millisecond of its
  deadline).
\<close>

definition past_deadline :: "int \<Rightarrow> int \<Rightarrow> bool" where
  "past_deadline now deadline = (deadline < now)"

definition keyspace_call :: "int \<Rightarrow> redis_command \<Rightarrow> redis_db \<Rightarrow> redis_reply \<times> redis_db" where
  "keyspace_call now c db = redis_effect now c (expire_keys past_deadline now db)"

text \<open>On such a server a deadline in the past does not come back: every deadline set is in the future.\<close>

lemma expire_again:
  "now \<le> later \<Longrightarrow> expire_keys past_deadline later (expire_keys past_deadline now db) = expire_keys past_deadline later db"
  by (auto simp: expire_keys_def past_deadline_def fun_eq_iff split: option.split)

lemma redis_effect_fresh:
  assumes "expire_keys past_deadline now db = db"
  shows "expire_keys past_deadline now (snd (redis_effect now c db)) = snd (redis_effect now c db)"
proof -
  have one: "expire_keys past_deadline now e k = e k \<longleftrightarrow> (\<forall>v d. e k = Some (v, Some d) \<longrightarrow> now \<le> d)" for e k
  proof (cases "e k")
    case (Some x)
    then show ?thesis by (cases x; cases "snd x") (auto simp: expire_keys_def past_deadline_def)
  qed (simp add: expire_keys_def)
  have fresh: "expire_keys past_deadline now e = e \<longleftrightarrow> (\<forall>k v d. e k = Some (v, Some d) \<longrightarrow> now \<le> d)" for e
    unfolding fun_eq_iff one ..
  from assms show ?thesis
    unfolding fresh
    by (cases c) (simp_all split: option.splits redis_value.splits prod.splits if_splits, blast)
qed

interpretation keyspace: redis_server keyspace_call "expire_keys past_deadline" past_deadline
proof
  fix now later deadline :: int and c :: redis_command and d :: redis_db
  show "expire_keys past_deadline now (snd (keyspace_call now c d)) =
      snd (redis_effect now c (expire_keys past_deadline now d))"
    unfolding keyspace_call_def by (rule redis_effect_fresh) (rule expire_again [OF order_refl])
  show "now \<le> later \<Longrightarrow> expire_keys past_deadline later d = expire_keys past_deadline later (expire_keys past_deadline now d)"
    by (rule expire_again [symmetric])
qed (simp_all add: keyspace_call_def past_deadline_def)

interpretation sample_lock: redis_lock keyspace_call "expire_keys past_deadline" past_deadline "js ''lease''" "js ''fence''"
  by unfold_locales simp

text \<open>A request that carries the holder and token of a grant, other than an acquire.\<close>

fun owner_request :: "js_string \<Rightarrow> js_string \<Rightarrow> redis_request \<Rightarrow> bool" where
  "owner_request holder tok (Redis_renew h t _) = (h = holder \<and> t = tok)"
| "owner_request holder tok (Redis_release h t) = (h = holder \<and> t = tok)"
| "owner_request holder tok (Redis_acquire _ _) = False"

text \<open>What a client that is not the owner gets from a held lock: nothing but a refusal.\<close>

fun refused :: "js_string \<Rightarrow> redis_request \<times> redis_reply \<Rightarrow> bool" where
  "refused holder (Redis_acquire h _, r) =
     (h = holder \<or> (case r of R_array [R_int ok, _, _, _] \<Rightarrow> ok = 0 | _ \<Rightarrow> False))"
| "refused holder (Redis_renew _ _ _, r) = (r = R_array [R_int 0, R_int (- 2)])"
| "refused holder (Redis_release _ _, r) = (r = R_int 0)"

lemma keys_step_foreign:
  assumes inv: "lock_invar lock_key fence_key db" and held: "lease_of lock_key db = Some (Some holder, Some tok, Some dl)"
    and "now < dl" and "\<not> owner_request holder tok req"
  shows "snd (keys_step lock_key fence_key now req db) = db \<and>
    refused holder (req, fst (keys_step lock_key fence_key now req db)) \<and>
    reply_minted (req, fst (keys_step lock_key fence_key now req db)) = None"
proof -
  from held obtain h where h: "db lock_key = Some (V_hash h, Some dl)" "h (js ''holder'') = Some holder"
    "h (js ''token'') = Some tok"
    by (auto simp: lease_of_def split: option.splits prod.splits redis_value.splits)
  show ?thesis
  proof (cases req)
    case (Redis_acquire hd ttl)
    with h assms(3) show ?thesis by (simp add: keys_step_acquire_held)
  next
    case (Redis_renew hd t ttl)
    with assms(4) held have "\<not> owned lock_key hd t db" by (auto simp: owned_def)
    then show ?thesis unfolding Redis_renew keys_step_def script_of.simps renew_run [OF inv] by simp
  next
    case (Redis_release hd t)
    with assms(4) held have "\<not> owned lock_key hd t db" by (auto simp: owned_def)
    then show ?thesis unfolding Redis_release keys_step_def script_of.simps release_run [OF inv] by simp
  qed
qed

text \<open>A free lock is granted, and the grant can be given back.\<close>

lemma acquire_release_keys:
  assumes "lock_invar lock_key fence_key db" and "lock_key \<noteq> fence_key" and "db lock_key = None"
    and "n = fence_counter fence_key db + 1" and "n \<le> 9007199254740991"
    and "0 < ttl" and "0 \<le> now" and "now + int ttl < 2 ^ 63"
  shows "\<exists>db'. keys_step lock_key fence_key now (Redis_acquire holder (dec_nat ttl)) db =
      (R_array [R_int 1, R_bulk (dec_nat n), R_int (int ttl), R_int 0], db') \<and>
    lease_of lock_key db' = Some (Some holder, Some (dec_nat n), Some (now + int ttl)) \<and>
    lock_invar lock_key fence_key db' \<and> fence_counter fence_key db' = n \<and>
    keys_step lock_key fence_key now (Redis_release holder (dec_nat n)) db' = (R_int 1, db'(lock_key := None))"
proof -
  have ttl: "redis_integer (dec_nat ttl) = Some (int ttl)"
  proof -
    have "hd (dec_nat ttl) \<noteq> 45" using dec_nat_digits [of ttl] dec_nat_nonempty [of ttl]
      by (cases "dec_nat ttl") (auto simp: is_digit_def)
    with assms(7,8) canonical_dec_nat [of ttl] show ?thesis
      by (cases "dec_nat ttl") (auto simp: redis_integer_def dest: arg_cong [where f = parse_dec])
  qed
  let ?db = "db(fence_key \<mapsto> (V_string (dec_nat n), None),
    lock_key \<mapsto> (V_hash (new_grant holder (dec_nat n)), Some (now + int ttl)))"
  have written: "write_grant now lock_key fence_key holder (dec_nat ttl) (dec_nat n) db =
      (R_array [R_int 1, R_bulk (dec_nat n), R_int (int ttl), R_int 0], ?db)"
    using ttl assms(6,7,8) by (simp add: write_grant_def remaining_ttl_def)
  have step: "keys_step lock_key fence_key now (Redis_acquire holder (dec_nat ttl)) db =
      (R_array [R_int 1, R_bulk (dec_nat n), R_int (int ttl), R_int 0], ?db)"
    using keys_step_acquire_free [OF assms(1,3,2)] written assms(4,5) by (simp add: Let_def)
  have inv: "lock_invar lock_key fence_key ?db" "fence_counter fence_key ?db = n"
    using write_grant_invar [OF assms(2), of n now holder "dec_nat ttl" db] written assms(4,5) by simp_all
  have lease: "lease_of lock_key ?db = Some (Some holder, Some (dec_nat n), Some (now + int ttl))"
    by (simp add: lease_of_def)
  then have "owned lock_key holder (dec_nat n) ?db" by (simp add: owned_def)
  then have release: "keys_step lock_key fence_key now (Redis_release holder (dec_nat n)) ?db = (R_int 1, ?db(lock_key := None))"
    unfolding keys_step_def script_of.simps release_run [OF inv(1)] by simp
  show ?thesis by (intro exI [of _ ?db] conjI step lease inv release)
qed

context redis_lock
begin

lemma redis_run_answers:
  "fst (redis_run call lock_key fence_key s ops) = authority.answers s ops"
  "snd (redis_run call lock_key fence_key s ops) = authority.run_authority s ops"
  by (induction ops arbitrary: s) (simp_all add: case_prod_unfold Let_def)

lemma run_tokens:
  assumes "lock_invar lock_key fence_key (live now d)"
  shows "sorted_wrt (<) (List.map_filter reply_minted (fst (redis_run call lock_key fence_key (now, d) ops))) \<and>
    (\<forall>t \<in> set (List.map_filter reply_minted (fst (redis_run call lock_key fence_key (now, d) ops))).
       fence_counter fence_key (live now d) < t) \<and>
    (\<forall>out \<in> set (fst (redis_run call lock_key fence_key (now, d) ops)). \<forall>tok.
       reply_confirmed out = Some tok \<longrightarrow> fence_counter fence_key (live now d) \<le> parse_dec tok) \<and>
    (case snd (redis_run call lock_key fence_key (now, d) ops) of (later, d') \<Rightarrow>
       lock_invar lock_key fence_key (live later d'))"
proof -
  have inv: "state_invar (now, d)" using assms by (simp add: state_invar_def)
  have counter: "fence_counter fence_key (live now d) = state_counter (now, d)" by (simp add: state_counter_def)
  have kept: "state_invar (authority.run_authority (now, d) ops)" by (rule authority.run_invar [OF inv])
  have confirmed: "state_counter (now, d) \<le> parse_dec tok"
    if "out \<in> set (authority.answers (now, d) ops)" "reply_confirmed out = Some tok" for out tok
    using authority.superseded_never_confirmed [OF inv _ that(1), of "parse_dec tok"] that(2)
    by (intro leI notI) (simp add: confirmed_token_def)
  show ?thesis
    unfolding redis_run_answers counter authority.minted_tokens_def [symmetric]
    using authority.minted_strictly_increasing [OF inv] authority.minted_above_counter [OF inv] confirmed kept
    by (simp add: state_invar_def case_prod_unfold)
qed

lemma expire_lease:
  "lease_of lock_key db = Some (h, t, Some dl) \<Longrightarrow> now < dl \<Longrightarrow>
   lease_of lock_key (expire_keys gone now db) = Some (h, t, Some dl)"
  using gone_before [of now dl]
  by (auto simp: lease_of_def expire_keys_def split: option.splits prod.splits redis_value.splits)

lemma held_run:
  assumes "lock_invar lock_key fence_key (live now d)"
    and "lease_of lock_key (live now d) = Some (Some holder, Some tok, Some dl)"
    and "\<forall>(dt, req) \<in> set ops. \<not> owner_request holder tok req"
    and "now + int (sum_list (map fst ops)) < dl"
  shows "(\<forall>out \<in> set (fst (redis_run call lock_key fence_key (now, d) ops)).
        refused holder out \<and> reply_minted out = None) \<and>
    (\<exists>later d'. snd (redis_run call lock_key fence_key (now, d) ops) = (later, d') \<and>
       lease_of lock_key (live later d') = Some (Some holder, Some tok, Some dl))"
  using assms
proof (induction ops arbitrary: now d)
  case (Cons op ops)
  obtain dt req where op: "op = (dt, req)" by (cases op)
  define later where "later = now + int dt"
  define db where "db = expire_keys gone later (live now d)"
  obtain out s' where step: "redis_step call lock_key fence_key (now, d) op = (out, s')" by (meson surj_pair)
  obtain d' where s': "s' = (later, d')"
    using step_live(2) [of lock_key fence_key now d dt req] step op later_def by (cases s') (auto simp del: redis_step.simps)
  have out: "out = (req, fst (keys_step lock_key fence_key later req db))"
    and d': "live later d' = snd (keys_step lock_key fence_key later req db)"
    using step_live(1,3) [where lock_key = lock_key and fence_key = fence_key and now = now and d = d and dt = dt and req = req]
      step op s' by (simp_all add: later_def db_def del: redis_step.simps)
  have "later < dl" using Cons.prems(4) by (simp add: op later_def)
  then have "lease_of lock_key db = Some (Some holder, Some tok, Some dl)" "lock_invar lock_key fence_key db"
    using Cons.prems(1,2) expire_lease expire_invar by (simp_all add: db_def)
  moreover have "\<not> owner_request holder tok req" using Cons.prems(3) by (simp add: op)
  ultimately have same: "live later d' = db" "refused holder out" "reply_minted out = None"
    using keys_step_foreign [of lock_key fence_key db holder tok dl later req] \<open>later < dl\<close> d' out by simp_all
  then have "(\<forall>out \<in> set (fst (redis_run call lock_key fence_key (later, d') ops)).
        refused holder out \<and> reply_minted out = None) \<and>
    (\<exists>l d''. snd (redis_run call lock_key fence_key (later, d') ops) = (l, d'') \<and>
       lease_of lock_key (live l d'') = Some (Some holder, Some tok, Some dl))"
    using Cons.prems(3,4) \<open>lease_of lock_key db = _\<close> \<open>lock_invar lock_key fence_key db\<close>
    by (intro Cons.IH) (simp_all add: op later_def)
  with step s' same(2,3) show ?case by (simp add: case_prod_unfold Let_def)
qed simp

end

section \<open>Properties\<close>

text \<open>The decimal increment of the acquire script, done digit by digit on text, is exact: on any
  text of digits (leading zeros included) it gives the decimal text of the number plus one, and
  the length-and-text comparison refuses exactly the numbers above 2^53 - 1.\<close>

theorem redis_increment_exact:
  assumes "all_digits current"
  shows "next_token current = dec_nat (parse_dec current + 1) \<and>
    (token_exhausted (next_token current) \<longleftrightarrow> 9007199254740991 < parse_dec current + 1)"
  using next_token_dec [OF assms] token_exhausted_iff [of "Suc (parse_dec current)"] by simp

theorem redis_increment_exact_witness:
  "next_token (js ''00199'') = js ''200'' \<and> \<not> token_exhausted (next_token (js ''00199''))"
proof -
  have digits: "all_digits (js ''00199'')" "parse_dec (js ''00199'') = 199"
    by (simp_all add: all_digits_def is_digit_def js_simps parse_dec_def digit_value_def)
  have "dec_nat 200 = js ''200''" by (simp add: dec_nat.simps digit_unit_def js_simps)
  moreover have "(199::nat) + 1 = 200" "\<not> 9007199254740991 < (200::nat)" by simp_all
  moreover note redis_increment_exact [OF digits(1), unfolded digits(2)]
  ultimately show ?thesis by argo
qed

text \<open>C32: on every server whose commands behave as documented, whatever requests arrive in whatever
  order and at whatever times: the tokens of fresh grants are strictly increasing and above the
  counter at the start, no renewal or release is confirmed under an older token, and the two keys
  stay well formed (the fence a positive decimal text without a deadline, a lease bound to it).\<close>

theorem redis_tokens_monotone:
  assumes "redis_lock call live gone lock_key fence_key"
    and "lock_invar lock_key fence_key (live now d)"
  shows "sorted_wrt (<) (List.map_filter reply_minted (fst (redis_run call lock_key fence_key (now, d) ops))) \<and>
    (\<forall>t \<in> set (List.map_filter reply_minted (fst (redis_run call lock_key fence_key (now, d) ops))).
       fence_counter fence_key (live now d) < t) \<and>
    (\<forall>out \<in> set (fst (redis_run call lock_key fence_key (now, d) ops)). \<forall>tok.
       reply_confirmed out = Some tok \<longrightarrow> fence_counter fence_key (live now d) \<le> parse_dec tok) \<and>
    (case snd (redis_run call lock_key fence_key (now, d) ops) of (later, d') \<Rightarrow>
       lock_invar lock_key fence_key (live later d'))"
  by (rule redis_lock.run_tokens [OF assms])

definition sample_db :: redis_db where
  "sample_db = [js ''lease'' \<mapsto> (V_hash (new_grant (js ''a'') (dec_nat 41)), Some 500),
     js ''fence'' \<mapsto> (V_string (dec_nat 41), None)]"

lemma sample_db_live: "now \<le> 500 \<Longrightarrow> expire_keys past_deadline now sample_db = sample_db"
  by (rule ext) (auto simp: sample_db_def expire_keys_def past_deadline_def)

lemma sample_db_invar: "lock_invar (js ''lease'') (js ''fence'') (expire_keys past_deadline 100 sample_db)"
  unfolding sample_db_live [of 100, simplified] by (simp add: lock_invar_def sample_db_def positive_dec_nat)

theorem redis_tokens_monotone_witness:
  "sorted_wrt (<) (List.map_filter reply_minted (fst (redis_run keyspace_call (js ''lease'') (js ''fence'') (100, sample_db)
     [(10, Redis_release (js ''a'') (dec_nat 41)), (0, Redis_acquire (js ''b'') (js ''20''))])))"
  using redis_tokens_monotone [where live = "expire_keys past_deadline" and now = 100, OF sample_lock.redis_lock_axioms sample_db_invar] by blast

text \<open>C33: exclusion. While a lease of \<open>holder\<close> under token \<open>tok\<close> has its deadline ahead, requests of any
  other kind and any number leave it untouched on every server whose commands behave as
  documented: acquires by others are refused, renewals and releases that do not carry exactly
  that holder and token answer that they did nothing, and no token is minted.\<close>

theorem redis_lease_exclusive:
  assumes "redis_lock call live gone lock_key fence_key"
    and "lock_invar lock_key fence_key (live now d)"
    and "lease_of lock_key (live now d) = Some (Some holder, Some tok, Some dl)"
    and "\<forall>(dt, req) \<in> set ops. \<not> owner_request holder tok req"
    and "now + int (sum_list (map fst ops)) < dl"
  shows "(\<forall>out \<in> set (fst (redis_run call lock_key fence_key (now, d) ops)).
        refused holder out \<and> reply_minted out = None) \<and>
    (\<exists>later d'. snd (redis_run call lock_key fence_key (now, d) ops) = (later, d') \<and>
       lease_of lock_key (live later d') = Some (Some holder, Some tok, Some dl))"
  by (rule redis_lock.held_run [OF assms])

theorem redis_lease_exclusive_witness:
  "list_all (\<lambda>out. refused (js ''a'') out \<and> reply_minted out = None)
     (fst (redis_run keyspace_call (js ''lease'') (js ''fence'') (100, sample_db)
       [(10, Redis_acquire (js ''b'') (js ''20'')), (3, Redis_release (js ''b'') (dec_nat 41))]))"
proof -
  have held: "lease_of (js ''lease'') (expire_keys past_deadline 100 sample_db) = Some (Some (js ''a''), Some (dec_nat 41), Some 500)"
    unfolding sample_db_live [of 100, simplified] by (simp add: lease_of_def sample_db_def)
  show ?thesis unfolding list_all_iff
    by (rule redis_lease_exclusive [where live = "expire_keys past_deadline" and now = 100, OF sample_lock.redis_lock_axioms sample_db_invar held, THEN conjunct1]) simp_all
qed

text \<open>A lock without a lease is granted, and the grant can be given back. On well-formed keys with
  tokens left, an acquire with a positive decimal time to live answers with the next token and
  that time to live, the lease then runs for exactly that long, and a release under that holder
  and token is confirmed and removes the lease, and nothing else.\<close>

theorem redis_acquire_release:
  assumes "lock_invar lock_key fence_key db" and "lock_key \<noteq> fence_key" and "db lock_key = None"
    and "n = fence_counter fence_key db + 1" and "n \<le> 9007199254740991"
    and "0 < ttl" and "0 \<le> now" and "now + int ttl < 2 ^ 63"
  shows "\<exists>db'. keys_step lock_key fence_key now (Redis_acquire holder (dec_nat ttl)) db =
      (R_array [R_int 1, R_bulk (dec_nat n), R_int (int ttl), R_int 0], db') \<and>
    lease_of lock_key db' = Some (Some holder, Some (dec_nat n), Some (now + int ttl)) \<and>
    lock_invar lock_key fence_key db' \<and> fence_counter fence_key db' = n \<and>
    keys_step lock_key fence_key now (Redis_release holder (dec_nat n)) db' = (R_int 1, db'(lock_key := None))"
  by (rule acquire_release_keys [OF assms])

theorem redis_acquire_release_witness:
  "fst (keys_step (js ''lease'') (js ''fence'') 7 (Redis_acquire (js ''a'') (dec_nat 60)) Map.empty) =
     R_array [R_int 1, R_bulk (dec_nat 1), R_int 60, R_int 0]"
proof -
  have "lock_invar (js ''lease'') (js ''fence'') Map.empty" "1 = fence_counter (js ''fence'') Map.empty + 1"
    by (simp_all add: lock_invar_def fence_counter_def)
  from redis_acquire_release [OF this(1) _ _ this(2), of 60 7 "js ''a''"] show ?thesis by auto
qed

end
