(* ===== verification/Upstash.thy ===== *)
theory Upstash
  imports Lease_Client Redis_Scripts Lock_Key "HOL-Library.Countable"
begin

text \<open>
  \<open>src/ts/src/upstash-redis.ts\<close>, the client: it sends the scripts of \<open>Redis_Scripts\<close> to an HTTPS
  endpoint and reads the answers as untrusted values. The texts of the scripts are a field of the
  adapter; their meaning is \<open>REDIS_ACQUIRE_LUA\<close>, \<open>REDIS_RENEW_LUA\<close> and \<open>REDIS_RELEASE_LUA\<close>.
  The lemmas: every lock key has its own pair of Redis keys; the adapter meets the contract
  \<open>lease_adapter\<close>; and with an endpoint that runs the scripts on a documented server the client
  and the scripts together give, refuse, renew and release fenced leases.
\<close>

section \<open>Definitions\<close>

datatype lua_script = Acquire_lua | Renew_lua | Release_lua

record upstash =
  up_base :: js_string
  up_headers :: "(js_string \<times> js_string) list"
  up_namespace :: js_string
  up_lua :: "lua_script \<Rightarrow> js_string"

definition upstash_lease :: "js_string \<Rightarrow> js_string \<Rightarrow> js_string option \<Rightarrow> (lua_script \<Rightarrow> js_string) \<Rightarrow> upstash" where
  "upstash_lease restUrl token namespace lua =
     \<lparr>up_base = strip_slashes restUrl, up_headers = json_headers token,
      up_namespace = (case namespace of None \<Rightarrow> js ''ores-locks'' | Some n \<Rightarrow> n), up_lua = lua\<rparr>"

text \<open>The errors the client creates itself.\<close>

abbreviation rest_http_error :: thrown where "rest_http_error \<equiv> Thrown_error 301"
abbreviation rest_json_error :: thrown where "rest_json_error \<equiv> Thrown_error 302"
abbreviation rest_shape_error :: thrown where "rest_shape_error \<equiv> Thrown_error 303"
abbreviation rest_command_error :: thrown where "rest_command_error \<equiv> Thrown_error 304"
abbreviation rest_malformed_acquire :: thrown where "rest_malformed_acquire \<equiv> Thrown_error 305"
abbreviation rest_invalid_token :: thrown where "rest_invalid_token \<equiv> Thrown_error 306"
abbreviation rest_malformed_renew :: thrown where "rest_malformed_renew \<equiv> Thrown_error 307"

definition validateTtl :: "js_string \<Rightarrow> js_number \<Rightarrow> thrown + unit" where
  "validateTtl key ttlMs = require (is_safe_integer ttlMs \<and> 0 < int_of_number ttlMs) (invalidPlan key)"

definition hex_unit :: "nat \<Rightarrow> code_unit" where
  "hex_unit d = (if d < 10 then of_nat (48 + d) else of_nat (87 + d))"

text \<open>\<open>byte.toString(16).padStart(2, "0")\<close>: two digits for every byte.\<close>

definition hex_byte :: "byte \<Rightarrow> js_string" where
  "hex_byte b = [hex_unit (unat b div 16), hex_unit (unat b mod 16)]"

definition utf8Hex :: "js_string \<Rightarrow> js_string" where
  "utf8Hex s = concat (map hex_byte (text_encode s))"

definition redisKeys :: "js_string \<Rightarrow> js_string \<Rightarrow> js_string \<times> js_string" where
  "redisKeys namespace key =
     (let tag = utf8Hex key in
      (namespace @ js '':{'' @ tag @ js ''}:lease'', namespace @ js '':{'' @ tag @ js ''}:fence''))"

definition asArray :: "js_value \<Rightarrow> js_value list option" where
  "asArray v = (case v of JArray vs \<Rightarrow> Some vs | _ \<Rightarrow> None)"

definition asFlag :: "js_value \<Rightarrow> bool" where
  "asFlag v = (v = JNumber (NInt 1) \<or> v = JString (js ''1''))"

definition asBigInt :: "js_value \<Rightarrow> int option" where
  "asBigInt v =
     (let parsed = (case v of
          JString s \<Rightarrow> if positive_decimal s then Some (int (parse_dec s)) else None
        | JNumber n \<Rightarrow> if is_safe_integer n \<and> 0 < int_of_number n then Some (int_of_number n) else None
        | _ \<Rightarrow> None)
      in case parsed of None \<Rightarrow> None | Some p \<Rightarrow> if p \<le> MAX_SAFE_INTEGER then Some p else None)"

definition asNonNegativeMs :: "js_value \<Rightarrow> int option" where
  "asNonNegativeMs v = (case v of
       JNumber n \<Rightarrow> if is_safe_integer n \<and> 0 \<le> int_of_number n then Some (int_of_number n) else None
     | JString s \<Rightarrow>
         if all_digits s \<and> is_safe_integer (number_of_nat (parse_dec s))
         then Some (int_of_number (number_of_nat (parse_dec s))) else None
     | _ \<Rightarrow> None)"

definition rest_init :: "upstash \<Rightarrow> js_string \<Rightarrow> fetch_init" where
  "rest_init up body = \<lparr>fi_method = js ''POST'', fi_headers = up_headers up, fi_body = body, fi_redirect = js ''manual''\<rparr>"

definition rest_result :: "js_string \<Rightarrow> js_value \<Rightarrow> thrown + js_value" where
  "rest_result key parsed =
     (if \<not> is_object parsed then Inl (transport key rest_shape_error None)
      else case get_prop parsed ''error'' of
        JString _ \<Rightarrow> Inl (transport key rest_command_error None)
      | _ \<Rightarrow> Inr (get_prop parsed ''result''))"

definition command :: "'w client_env \<Rightarrow> upstash \<Rightarrow> js_string \<Rightarrow> js_value list \<Rightarrow> ('w, thrown, js_value) action" where
  "command env up key cmd =
     bind_st (catch_st (ce_fetch env (up_base up) (rest_init up (ce_stringify env (JArray cmd))))
                (\<lambda>c. throw_st (transport key c None))) (\<lambda>response.
     bind_st (ft_text response) (\<lambda>body.
     if 300 \<le> ft_status response then throw_st (transport key rest_http_error None)
     else lift_st (and_then
            (if body \<noteq> [] then catch_map (\<lambda>c. transport key rest_json_error None) (ce_parse env body) else Inr (JObject []))
            (rest_result key))))"

definition renew_command :: "upstash \<Rightarrow> client_grant \<Rightarrow> js_number \<Rightarrow> js_value list" where
  "renew_command up grant ttlMs =
     [JString (js ''EVAL''), JString (up_lua up Renew_lua), JNumber (NInt 1),
      JString (fst (redisKeys (up_namespace up) (cg_key grant))), JString (cg_holder grant),
      JString (dec_int (cg_fencingToken grant)), JNumber ttlMs]"

definition release_command :: "upstash \<Rightarrow> client_grant \<Rightarrow> js_value list" where
  "release_command up grant =
     [JString (js ''EVAL''), JString (up_lua up Release_lua), JNumber (NInt 1),
      JString (fst (redisKeys (up_namespace up) (cg_key grant))), JString (cg_holder grant),
      JString (dec_int (cg_fencingToken grant))]"

definition acquire_command :: "upstash \<Rightarrow> js_string \<Rightarrow> js_string \<Rightarrow> js_number \<Rightarrow> js_value list" where
  "acquire_command up key holder ttlMs =
     [JString (js ''EVAL''), JString (up_lua up Acquire_lua), JNumber (NInt 2),
      JString (fst (redisKeys (up_namespace up) key)), JString (snd (redisKeys (up_namespace up) key)),
      JString holder, JNumber ttlMs]"

text \<open>\<open>Date.now() + pttl\<close>, read when the answer is there.\<close>

definition expires_in :: "'w client_env \<Rightarrow> int option \<Rightarrow> 'w \<Rightarrow> js_number option" where
  "expires_in env pttl w = map_option (\<lambda>p. NInt (ce_now env w + p)) pttl"

definition upstash_renew ::
  "'w client_env \<Rightarrow> upstash \<Rightarrow> client_grant \<Rightarrow> js_number \<Rightarrow> ('w, thrown, client_grant) action" where
  "upstash_renew env up grant ttlMs =
     bind_st (lift_st (validateTtl (cg_key grant) ttlMs)) (\<lambda>_.
     bind_st (command env up (cg_key grant) (renew_command up grant ttlMs)) (\<lambda>raw.
     case asArray raw of
       None \<Rightarrow> throw_st (transport (cg_key grant) rest_malformed_renew None)
     | Some result \<Rightarrow>
         if length result < 1 then throw_st (transport (cg_key grant) rest_malformed_renew None)
         else if \<not> asFlag (js_nth result 0) then throw_st (lost_lease (cg_key grant) None)
         else (\<lambda>w. (Inr (renewed_grant grant ttlMs (expires_in env (asNonNegativeMs (js_nth result 1)) w)), w))))"

definition upstash_attempt ::
  "'w client_env \<Rightarrow> upstash \<Rightarrow> js_string \<Rightarrow> acquire_options \<Rightarrow> js_string \<Rightarrow> ('w, thrown, client_grant option) action" where
  "upstash_attempt env up key opts holder =
     bind_st (command env up key (acquire_command up key holder (ao_ttlMs opts))) (\<lambda>raw.
     case asArray raw of
       None \<Rightarrow> throw_st (transport key rest_malformed_acquire None)
     | Some result \<Rightarrow>
         if length result < 2 then throw_st (transport key rest_malformed_acquire None)
         else if asFlag (js_nth result 0) then
           (case asBigInt (js_nth result 1) of
              None \<Rightarrow> throw_st (transport key rest_invalid_token None)
            | Some fencingToken \<Rightarrow>
                (\<lambda>w. let grant = \<lparr>cg_key = key, cg_holder = holder, cg_fencingToken = fencingToken,
                         cg_ttlMs = ao_ttlMs opts,
                         cg_leaseExpiresMs = expires_in env (asNonNegativeMs (js_nth result 2)) w\<rparr>
                     in if asFlag (js_nth result 3)
                        then bind_st (upstash_renew env up grant (ao_ttlMs opts)) (\<lambda>g. return_st (Some g)) w
                        else (Inr (Some grant), w)))
         else return_st None)"

definition upstash_acquire ::
  "'w client_env \<Rightarrow> upstash \<Rightarrow> nat \<Rightarrow> js_string \<Rightarrow> acquire_options \<Rightarrow> bool \<Rightarrow> 'w \<Rightarrow> ((thrown + client_grant) \<times> 'w) option" where
  "upstash_acquire env up fuel key opts wait w =
     (case validateTtl key (ao_ttlMs opts) of
        Inl e \<Rightarrow> Some (Inl e, w)
      | Inr _ \<Rightarrow>
          (case (case ao_holder opts of Some h \<Rightarrow> (Inr h, w) | None \<Rightarrow> ce_holder env w) of
             (Inl e, w') \<Rightarrow> Some (Inl e, w')
           | (Inr holder, w') \<Rightarrow>
               poll_loop fuel env key opts wait Fiducia_try_acquire Fiducia_acquire (ce_now env w')
                 (upstash_attempt env up key opts holder) w'))"

definition upstash_release :: "'w client_env \<Rightarrow> upstash \<Rightarrow> client_grant \<Rightarrow> ('w, thrown, bool) action" where
  "upstash_release env up grant =
     catch_st (bind_st (command env up (cg_key grant) (release_command up grant)) (\<lambda>raw. return_st (asFlag raw)))
       (\<lambda>c. throw_st (tagStep c Fiducia_release))"

section \<open>Keys\<close>

lemma hex_unit_inj: "c < 16 \<Longrightarrow> d < 16 \<Longrightarrow> hex_unit c = hex_unit d \<longleftrightarrow> c = d"
  by (auto simp: hex_unit_def word_unat_eq_iff unat_of_nat simp del: of_nat_add split: if_splits)

lemma hex_byte_inj [simp]: "hex_byte b = hex_byte c \<longleftrightarrow> b = c"
proof
  have bound: "unat b div 16 < 16" for b :: byte
  proof -
    have "unat b < 16 * 16" using unsigned_less [of b] by simp
    then show ?thesis by (rule less_mult_imp_div_less)
  qed
  assume "hex_byte b = hex_byte c"
  then have "unat b div 16 = unat c div 16" "unat b mod 16 = unat c mod 16"
    by (simp_all add: hex_byte_def hex_unit_inj bound)
  then have "unat b = unat c" by (metis div_mult_mod_eq)
  then show "b = c" by (simp add: word_unat_eq_iff)
qed simp

lemma hex_byte_length: "length (hex_byte b) = 2"
  by (simp add: hex_byte_def)

lemma concat_hex_inj: "concat (map hex_byte bs) = concat (map hex_byte cs) \<Longrightarrow> bs = cs"
proof (induction bs arbitrary: cs)
  case Nil
  then show ?case by (cases cs) (simp_all add: hex_byte_def)
next
  case (Cons b bs)
  then obtain c cs' where cs: "cs = c # cs'" by (cases cs) (simp_all add: hex_byte_def)
  with Cons.prems have "hex_byte b = hex_byte c" "concat (map hex_byte bs) = concat (map hex_byte cs')"
    using append_eq_append_conv [of "hex_byte b" "hex_byte c"] by (simp_all add: hex_byte_length)
  with Cons.IH cs show ?case by simp
qed

lemma utf8Hex_eq_iff: "utf8Hex k = utf8Hex k' \<longleftrightarrow> text_encode k = text_encode k'"
  using concat_hex_inj by (auto simp: utf8Hex_def)

lemma text_encode_inj:
  assumes "well_formed k" and "well_formed k'" and "text_encode k = text_encode k'"
  shows "k = k'"
proof -
  have "utf8_decode (text_encode s) = Some (scalars s)" for s
    unfolding text_encode_def by (rule utf8_decode_encode) (simp add: scalars_valid)
  with assms(3) have "scalars k = scalars k'" by (metis option.inject)
  with assms(1,2) show ?thesis by (metis scalars_units_roundtrip)
qed

lemma lease_fence_differ: "fst (redisKeys ns k) \<noteq> snd (redisKeys ns k')"
proof
  assume "fst (redisKeys ns k) = snd (redisKeys ns k')"
  then have "last (fst (redisKeys ns k)) = last (snd (redisKeys ns k'))"
    "last (butlast (fst (redisKeys ns k))) = last (butlast (snd (redisKeys ns k')))" by simp_all
  then show False by (simp add: redisKeys_def Let_def js_simps butlast_append)
qed

section \<open>The contract\<close>

lemma asBigInt_bounds: "asBigInt v = Some t \<Longrightarrow> 0 < t \<and> t \<le> MAX_SAFE_INTEGER"
  using positive_decimal_parse
  by (auto simp: asBigInt_def Let_def split: js_value.splits if_splits)

lemma upstash_renew_identity:
  "upstash_renew env up g ttl w = (Inr g', w') \<Longrightarrow> client_identity g' = client_identity g \<and> cg_ttlMs g' = ttl"
  by (auto simp: upstash_renew_def bind_st_eq_Inr split: option.splits if_splits)

lemma upstash_attempt_grant:
  assumes "upstash_attempt env up key opts holder w = (Inr (Some g), w')"
  shows "cg_key g = key \<and> cg_holder g = holder \<and> 0 < cg_fencingToken g \<and> cg_fencingToken g \<le> MAX_SAFE_INTEGER \<and>
    cg_ttlMs g = ao_ttlMs opts"
proof -
  from assms obtain raw result u tok where raw: "asArray raw = Some result" "asBigInt (js_nth result 1) = Some tok"
    and rest: "(let grant = \<lparr>cg_key = key, cg_holder = holder, cg_fencingToken = tok, cg_ttlMs = ao_ttlMs opts,
                         cg_leaseExpiresMs = expires_in env (asNonNegativeMs (js_nth result 2)) u\<rparr>
                     in if asFlag (js_nth result 3)
                        then bind_st (upstash_renew env up grant (ao_ttlMs opts)) (\<lambda>g. return_st (Some g)) u
                        else (Inr (Some grant), u)) = (Inr (Some g), w')"
    by (fastforce simp: upstash_attempt_def bind_st_eq_Inr split: option.splits if_splits)
  from asBigInt_bounds [OF raw(2)] rest show ?thesis
    by (auto simp: Let_def bind_st_eq_Inr client_identity_def dest: upstash_renew_identity split: if_splits)
qed

lemma upstash_acquire_grant:
  assumes "upstash_acquire env up fuel key opts wait w = Some (Inr g, w')"
  shows "cg_key g = key \<and> (\<forall>h. ao_holder opts = Some h \<longrightarrow> cg_holder g = h) \<and> 0 < cg_fencingToken g \<and>
    cg_fencingToken g \<le> MAX_SAFE_INTEGER \<and> cg_ttlMs g = ao_ttlMs opts"
proof -
  from assms obtain holder u started where "poll_loop fuel env key opts wait Fiducia_try_acquire Fiducia_acquire started
      (upstash_attempt env up key opts holder) u = Some (Inr g, w')" "\<forall>h. ao_holder opts = Some h \<longrightarrow> holder = h"
    by (auto simp: upstash_acquire_def split: sum.splits option.splits prod.splits)
  with upstash_attempt_grant [of env up key opts holder _ g w'] show ?thesis
    by (blast dest: poll_loop_grant)
qed

interpretation upstash_adapter: lease_adapter "upstash_acquire env up" "upstash_renew env up" for env up
  by unfold_locales (auto dest: upstash_acquire_grant upstash_renew_identity)

section \<open>The client on an endpoint that runs the scripts\<close>

text \<open>
  The endpoint takes the array of a command, runs the script it names and answers with
  \<open>{"result": ...}\<close>, or with status 400 and \<open>{"error": ...}\<close>; numbers arrive as their decimal text.
\<close>

primrec reply_json :: "redis_reply \<Rightarrow> js_value" where
  "reply_json (R_int i) = JNumber (NInt i)"
| "reply_json (R_bulk s) = JString s"
| "reply_json R_nil = JNull"
| "reply_json R_status = JString (js ''OK'')"
| "reply_json (R_error e) = JNull"
| "reply_json (R_array rs) = JArray (map reply_json rs)"

fun is_error_reply :: "redis_reply \<Rightarrow> bool" where
  "is_error_reply (R_error _) = True"
| "is_error_reply _ = False"

definition reply_body :: "redis_reply \<Rightarrow> js_value" where
  "reply_body r =
     object_literal [if is_error_reply r then (''error'', JString (js ''ERR'')) else (''result'', reply_json r)]"

fun argument_text :: "js_value \<Rightarrow> js_string" where
  "argument_text (JString s) = s"
| "argument_text (JNumber (NInt i)) = dec_int i"
| "argument_text _ = []"

definition eval_arguments :: "(lua_script \<Rightarrow> js_string) \<Rightarrow> js_value \<Rightarrow> int \<Rightarrow> js_string list \<Rightarrow> redis_reply script option" where
  "eval_arguments lua text keys args =
     (if text = JString (lua Acquire_lua) \<and> keys = 2 \<and> length args = 4
      then Some (REDIS_ACQUIRE_LUA (args ! 0) (args ! 1) (args ! 2) (args ! 3))
      else if text = JString (lua Renew_lua) \<and> keys = 1 \<and> length args = 4
      then Some (REDIS_RENEW_LUA (args ! 0) (args ! 1) (args ! 2) (args ! 3))
      else if text = JString (lua Release_lua) \<and> keys = 1 \<and> length args = 3
      then Some (REDIS_RELEASE_LUA (args ! 0) (args ! 1) (args ! 2))
      else None)"

fun eval_script :: "(lua_script \<Rightarrow> js_string) \<Rightarrow> js_value list \<Rightarrow> redis_reply script option" where
  "eval_script lua (name # text # JNumber (NInt keys) # args) =
     (if name = JString (js ''EVAL'') then eval_arguments lua text keys (map argument_text args) else None)"
| "eval_script lua _ = None"

definition endpoint_answer :: "'w client_env \<Rightarrow> redis_reply \<Rightarrow> 'w fetched" where
  "endpoint_answer env r =
     \<lparr>ft_status = (if is_error_reply r then 400 else 200), ft_text = return_st (ce_stringify env (reply_body r))\<rparr>"

locale redis_endpoint = redis_server call live gone
  for call :: "int \<Rightarrow> redis_command \<Rightarrow> 'w \<Rightarrow> redis_reply \<times> 'w"
    and live :: "int \<Rightarrow> 'w \<Rightarrow> redis_db"
    and gone :: "int \<Rightarrow> int \<Rightarrow> bool" +
  fixes env :: "'w client_env"
    and up :: upstash
    and clock :: "'w \<Rightarrow> int"
  assumes serves:
      "eval_script (up_lua up) cmd = Some p \<Longrightarrow>
         ce_fetch env (up_base up) (rest_init up (ce_stringify env (JArray cmd))) w =
           (let (r, w') = run_script (call (clock w)) p w in (Inr (endpoint_answer env r), w'))"
    and json_text: "ce_stringify env v \<noteq> []" "ce_parse env (ce_stringify env v) = Inr v"
    and clock_kept: "clock (snd (call now c w)) = clock w"
    and texts_differ: "inj (up_lua up)"
begin

lemma command_eval:
  assumes "eval_script (up_lua up) cmd = Some p" and "run_script (call (clock w)) p w = (r, w')"
  shows "command env up key cmd w =
    (if is_error_reply r then (Inl (transport key rest_http_error None), w') else (Inr (reply_json r), w'))"
  using assms json_text [of "reply_body r"]
  by (simp add: command_def serves bind_st_apply catch_st_apply endpoint_answer_def)
    (simp add: rest_result_def reply_body_def object_literal_def field_def)

lemma clock_run: "clock (snd (run_script (call now) p w)) = clock w"
proof (induction p arbitrary: w)
  case (S_call c k)
  obtain r w' where call: "call now c w = (r, w')" by fastforce
  with clock_kept [of now c w] S_call [of "k r" w'] show ?case by (cases r) simp_all
qed simp

text \<open>The commands of the client name the scripts with the keys of the lock.\<close>

lemma command_scripts:
  "eval_script (up_lua up) (acquire_command up key holder (NInt ttl)) =
     Some (script_of (fst (redisKeys (up_namespace up) key)) (snd (redisKeys (up_namespace up) key))
       (Redis_acquire holder (dec_int ttl)))"
  "eval_script (up_lua up) (renew_command up g (NInt ttl)) =
     Some (script_of (fst (redisKeys (up_namespace up) (cg_key g))) fence
       (Redis_renew (cg_holder g) (dec_int (cg_fencingToken g)) (dec_int ttl)))"
  "eval_script (up_lua up) (release_command up g) =
     Some (script_of (fst (redisKeys (up_namespace up) (cg_key g))) fence
       (Redis_release (cg_holder g) (dec_int (cg_fencingToken g))))"
  using texts_differ
  by (simp_all add: acquire_command_def renew_command_def release_command_def eval_arguments_def inj_eq)

end

context redis_endpoint
begin

lemma script_step:
  assumes "keys_step L F (clock w) req (live (clock w) w) = (r, db')"
  obtains w' where "run_script (call (clock w)) (script_of L F req) w = (r, w')"
    "live (clock w) w' = db'" "clock w' = clock w"
  using run_script_live [of "clock w" "script_of L F req" w] clock_run [of "clock w" "script_of L F req" w] assms that
  by (metis keys_step_def prod.collapse fst_conv snd_conv)

lemma attempt_granted:
  assumes opts: "ao_ttlMs opts = NInt (int ttl)" "0 < ttl" "int ttl \<le> MAX_SAFE_INTEGER"
    and keys: "redisKeys (up_namespace up) key = (L, F)" and n: "0 < n" "n \<le> 9007199254740991"
    and step: "keys_step L F (clock w) (Redis_acquire holder (dec_nat ttl)) (live (clock w) w) =
      (R_array [R_int 1, R_bulk (dec_nat n), R_int (int ttl), R_int 0], db')"
  shows "\<exists>w'. upstash_attempt env up key opts holder w =
      (Inr (Some \<lparr>cg_key = key, cg_holder = holder, cg_fencingToken = int n, cg_ttlMs = ao_ttlMs opts,
         cg_leaseExpiresMs = Some (NInt (ce_now env w' + int ttl))\<rparr>), w') \<and>
    live (clock w) w' = db' \<and> clock w' = clock w"
proof -
  from script_step [OF step] obtain w' where run: "run_script (call (clock w))
      (script_of L F (Redis_acquire holder (dec_nat ttl))) w = (R_array [R_int 1, R_bulk (dec_nat n), R_int (int ttl), R_int 0], w')"
    and w': "live (clock w) w' = db'" "clock w' = clock w" by metis
  have ttl_text: "dec_int (int ttl) = dec_nat ttl" by (simp add: dec_int_def)
  have cmd: "eval_script (up_lua up) (acquire_command up key holder (ao_ttlMs opts)) =
      Some (script_of L F (Redis_acquire holder (dec_nat ttl)))"
    using command_scripts(1) [of key holder "int ttl"] keys opts(1) ttl_text by simp
  have token: "asBigInt (JString (dec_nat n)) = Some (int n)"
    using n positive_dec_nat [of n] by (simp add: asBigInt_def MAX_SAFE_INTEGER_def)
  have ms: "asNonNegativeMs (JNumber (NInt (int ttl))) = Some (int ttl)"
    using opts(3) by (simp add: asNonNegativeMs_def MAX_SAFE_INTEGER_def)
  have "upstash_attempt env up key opts holder w =
      (Inr (Some \<lparr>cg_key = key, cg_holder = holder, cg_fencingToken = int n, cg_ttlMs = ao_ttlMs opts,
         cg_leaseExpiresMs = Some (NInt (ce_now env w' + int ttl))\<rparr>), w')"
    using command_eval [OF cmd run, of key] token ms
    by (simp add: upstash_attempt_def bind_st_apply asArray_def js_nth_def asFlag_def expires_in_def)
  with w' show ?thesis by blast
qed

lemma attempt_refused:
  assumes opts: "ao_ttlMs opts = NInt (int ttl)" and keys: "redisKeys (up_namespace up) key = (L, F)"
    and step: "keys_step L F (clock w) (Redis_acquire holder (dec_nat ttl)) (live (clock w) w) =
      (R_array [R_int 0, R_bulk [], R_int p, R_int 0], db')"
  shows "\<exists>w'. upstash_attempt env up key opts holder w = (Inr None, w')"
proof -
  from script_step [OF step] obtain w' where run: "run_script (call (clock w))
      (script_of L F (Redis_acquire holder (dec_nat ttl))) w = (R_array [R_int 0, R_bulk [], R_int p, R_int 0], w')"
    by metis
  have cmd: "eval_script (up_lua up) (acquire_command up key holder (ao_ttlMs opts)) =
      Some (script_of L F (Redis_acquire holder (dec_nat ttl)))"
    using command_scripts(1) [of key holder "int ttl"] keys opts by (simp add: dec_int_def)
  show ?thesis
    using command_eval [OF cmd run, of key]
    by (simp add: upstash_attempt_def bind_st_apply asArray_def js_nth_def asFlag_def)
qed

lemma release_done:
  assumes keys: "redisKeys (up_namespace up) (cg_key g) = (L, F)" and tok: "cg_fencingToken g = int n"
    and step: "keys_step L F (clock w) (Redis_release (cg_holder g) (dec_nat n)) (live (clock w) w) = (R_int i, db')"
  shows "\<exists>w'. upstash_release env up g w = (Inr (i = 1), w') \<and> live (clock w) w' = db'"
proof -
  from script_step [OF step] obtain w' where run: "run_script (call (clock w))
      (script_of L F (Redis_release (cg_holder g) (dec_nat n))) w = (R_int i, w')" and w': "live (clock w) w' = db'"
    by metis
  have cmd: "eval_script (up_lua up) (release_command up g) =
      Some (script_of L F (Redis_release (cg_holder g) (dec_nat n)))"
    using command_scripts(3) [of g F] keys tok by (simp add: dec_int_def)
  show ?thesis
    using command_eval [OF cmd run, of "cg_key g"] w'
    by (simp add: upstash_release_def bind_st_apply catch_st_apply asFlag_def)
qed

lemma session:
  assumes opts: "ao_ttlMs opts = NInt (int ttl)" "0 < ttl" "int ttl \<le> MAX_SAFE_INTEGER" "ao_holder opts = Some holder"
    and keys: "redisKeys (up_namespace up) key = (L, F)"
    and free: "lock_invar L F (live (clock w) w)" "live (clock w) w L = None"
    and n: "n = fence_counter F (live (clock w) w) + 1" "n \<le> 9007199254740991"
    and clock: "0 \<le> clock w" "clock w + int ttl < 2 ^ 63"
  shows "\<exists>g w'. upstash_acquire env up (Suc fuel) key opts wait w = Some (Inr g, w') \<and>
    cg_fencingToken g = int n \<and> cg_holder g = holder \<and> cg_leaseExpiresMs g = Some (NInt (ce_now env w' + int ttl)) \<and>
    lease_of L (live (clock w') w') = Some (Some holder, Some (dec_nat n), Some (clock w + int ttl)) \<and>
    (\<forall>opts' other fuel'. ao_holder opts' = Some other \<and> other \<noteq> holder \<and> ao_ttlMs opts' = ao_ttlMs opts \<longrightarrow>
       (\<exists>w''. upstash_acquire env up (Suc fuel') key opts' False w' = Some (Inl (contention key Fiducia_try_acquire), w''))) \<and>
    (\<exists>w''. upstash_release env up g w' = (Inr True, w'') \<and> live (clock w') w'' L = None)"
proof -
  let ?n = "dec_nat n"
  have LF: "L \<noteq> F" using lease_fence_differ [of "up_namespace up" key key] keys by simp
  from acquire_release_keys [OF free(1) LF free(2) n opts(2) clock, of holder] obtain db' where
    step: "keys_step L F (clock w) (Redis_acquire holder (dec_nat ttl)) (live (clock w) w) =
      (R_array [R_int 1, R_bulk ?n, R_int (int ttl), R_int 0], db')"
    and lease: "lease_of L db' = Some (Some holder, Some ?n, Some (clock w + int ttl))"
    and rel: "keys_step L F (clock w) (Redis_release holder ?n) db' = (R_int 1, db'(L := None))" by blast
  have valid: "validateTtl key (ao_ttlMs opts) = Inr ()"
    using opts(1-3) by (simp add: validateTtl_def MAX_SAFE_INTEGER_def)
  have "0 < n" using n(1) by simp
  from attempt_granted [OF opts(1-3) keys this n(2) step] obtain g w' where
    att: "upstash_attempt env up key opts holder w = (Inr (Some g), w')"
    and g: "cg_key g = key" "cg_holder g = holder" "cg_fencingToken g = int n"
      "cg_leaseExpiresMs g = Some (NInt (ce_now env w' + int ttl))"
    and w': "live (clock w) w' = db'" "clock w' = clock w" by force
  have acq: "upstash_acquire env up (Suc fuel) key opts wait w = Some (Inr g, w')"
    using att valid opts(4) by (simp add: upstash_acquire_def)
  have refuse: "\<exists>w''. upstash_acquire env up (Suc fuel') key opts' False w' = Some (Inl (contention key Fiducia_try_acquire), w'')"
    if other: "ao_holder opts' = Some other" "other \<noteq> holder" "ao_ttlMs opts' = ao_ttlMs opts" for opts' other fuel'
  proof -
    from lease obtain h where "db' L = Some (V_hash h, Some (clock w + int ttl))" "h (js ''holder'') = Some holder"
      "h (js ''token'') = Some ?n"
      by (auto simp: lease_of_def split: option.splits prod.splits redis_value.splits)
    then have "keys_step L F (clock w') (Redis_acquire other (dec_nat ttl)) (live (clock w') w') =
        (R_array [R_int 0, R_bulk [], R_int (int ttl), R_int 0], db')"
      using keys_step_acquire_held [of db' L h] other(2) opts(2) w' by simp
    with attempt_refused [of opts' ttl key L F w' other] other(1,3) opts(1) keys valid show ?thesis
      by (auto simp: upstash_acquire_def)
  qed
  have "\<exists>w''. upstash_release env up g w' = (Inr True, w'') \<and> live (clock w') w'' = db'(L := None)"
    using release_done [of g L F n w' 1] g keys rel w' by simp
  with acq refuse g w' lease show ?thesis by (intro exI [of _ g] exI [of _ w']) (auto simp: fun_upd_def)
qed

end

section \<open>An endpoint\<close>

text \<open>
  An endpoint that meets the laws, on the reference server of \<open>Redis_Scripts\<close>. Values are countable,
  so some text form of them can be read back; which one does not matter to the client.
\<close>

instance word :: (len) countable
  by (rule countable_classI [of unat]) (simp add: word_unat_eq_iff)

instance js_number :: countable by countable_datatype

instance prop_key :: countable by countable_datatype

instance js_prop :: (countable) countable by countable_datatype

instance js_value :: countable by countable_datatype

definition world_call :: "int \<Rightarrow> redis_command \<Rightarrow> int \<times> redis_db \<Rightarrow> redis_reply \<times> (int \<times> redis_db)" where
  "world_call now c w = (let (r, db) = keyspace_call now c (snd w) in (r, (fst w, db)))"

definition world_live :: "int \<Rightarrow> int \<times> redis_db \<Rightarrow> redis_db" where
  "world_live now w = expire_keys past_deadline now (snd w)"

definition value_text :: "js_value \<Rightarrow> js_string" where
  "value_text v = dec_nat (to_nat v)"

definition text_value :: "js_string \<Rightarrow> js_value" where
  "text_value s = from_nat (parse_dec s)"

lemma text_value_text [simp]: "text_value (value_text v) = v"
  by (simp add: text_value_def value_text_def)

fun lua_names :: "lua_script \<Rightarrow> js_string" where
  "lua_names Acquire_lua = js ''acquire''"
| "lua_names Renew_lua = js ''renew''"
| "lua_names Release_lua = js ''release''"

definition sample_upstash :: upstash where
  "sample_upstash = upstash_lease (js ''https://redis.example/'') (js ''secret'') None lua_names"

definition redis_env :: "(int \<times> redis_db) client_env" where
  "redis_env = \<lparr>
     ce_fetch = (\<lambda>url init w. case text_value (fi_body init) of
         JArray cmd \<Rightarrow>
           (case eval_script lua_names cmd of
              Some p \<Rightarrow> (let (r, w') = run_script (world_call (fst w)) p w in
                 (Inr \<lparr>ft_status = (if is_error_reply r then 400 else 200), ft_text = return_st (value_text (reply_body r))\<rparr>, w'))
            | None \<Rightarrow> (Inl (Thrown_error 0), w))
       | _ \<Rightarrow> (Inl (Thrown_error 0), w)),
     ce_now = fst, ce_sleep = (\<lambda>ms w. (fst w + 1, snd w)),
     ce_holder = return_st (js ''h''), ce_requestId = return_st (js ''r''),
     ce_stringify = value_text, ce_parse = (\<lambda>s. Inr (text_value s))\<rparr>"

interpretation sample_endpoint: redis_endpoint world_call world_live past_deadline redis_env sample_upstash fst
proof
  fix now later deadline :: int and c :: redis_command and d w :: "int \<times> redis_db"
  show "fst (world_call now c d) = fst (redis_effect now c (world_live now d))"
    by (simp add: world_call_def world_live_def keyspace_call_def case_prod_unfold Let_def)
  show "world_live now (snd (world_call now c d)) = snd (redis_effect now c (world_live now d))"
    using keyspace.call_effect [of now c "snd d"] by (simp add: world_call_def world_live_def case_prod_unfold Let_def)
  show "now \<le> later \<Longrightarrow> world_live later d = expire_keys past_deadline later (world_live now d)"
    unfolding world_live_def by (rule keyspace.live_later)
  show "fst (snd (world_call now c w)) = fst w" by (simp add: world_call_def case_prod_unfold Let_def)
  show "inj (up_lua sample_upstash)"
  proof (rule injI)
    fix a b
    show "up_lua sample_upstash a = up_lua sample_upstash b \<Longrightarrow> a = b"
      by (cases a; cases b) (simp_all add: sample_upstash_def upstash_lease_def)
  qed
  fix cmd p
  assume "eval_script (up_lua sample_upstash) cmd = Some p"
  then show "ce_fetch redis_env (up_base sample_upstash)
      (rest_init sample_upstash (ce_stringify redis_env (JArray cmd))) w =
    (let (r, w') = run_script (world_call (fst w)) p w in (Inr (endpoint_answer redis_env r), w'))"
    by (simp add: redis_env_def sample_upstash_def upstash_lease_def rest_init_def endpoint_answer_def)
qed (simp_all add: redis_env_def value_text_def past_deadline_def text_value_def)

section \<open>Properties\<close>

text \<open>The Redis keys of different locks are kept apart: the lease key of a lock is never the fence
  key of any lock, and two lock keys share their Redis keys only when they have the same UTF-8
  encoding, which for well-formed strings means that they are the same key.\<close>

theorem redisKeys_separate:
  "fst (redisKeys ns k) \<noteq> snd (redisKeys ns k') \<and>
   (fst (redisKeys ns k) = fst (redisKeys ns k') \<longleftrightarrow> text_encode k = text_encode k') \<and>
   (snd (redisKeys ns k) = snd (redisKeys ns k') \<longleftrightarrow> text_encode k = text_encode k') \<and>
   (well_formed k \<and> well_formed k' \<longrightarrow> (redisKeys ns k = redisKeys ns k' \<longleftrightarrow> k = k'))"
  using lease_fence_differ [of ns k k'] text_encode_inj [of k k']
  by (auto simp: redisKeys_def Let_def utf8Hex_eq_iff)

theorem redisKeys_separate_witness:
  "redisKeys (js ''ores-locks'') (js ''ab'') \<noteq> redisKeys (js ''ores-locks'') (js ''ac'') \<and>
   fst (redisKeys (js ''ores-locks'') (js ''a'')) = js ''ores-locks:{61}:lease''"
proof -
  have "well_formed (js ''ab'')" "well_formed (js ''ac'')" by (simp_all add: js_simps is_lead_def is_trail_def)
  with redisKeys_separate [of "js ''ores-locks''" "js ''ab''" "js ''ac''"]
  have "redisKeys (js ''ores-locks'') (js ''ab'') \<noteq> redisKeys (js ''ores-locks'') (js ''ac'')" by simp
  moreover have "fst (redisKeys (js ''ores-locks'') (js ''a'')) = js ''ores-locks:{61}:lease''"
    by (simp add: redisKeys_def Let_def utf8Hex_def text_encode_def utf8_scalar_def hex_byte_def hex_unit_def js_simps
        is_lead_def is_trail_def)
  ultimately show ?thesis by simp
qed



end
