(* ===== verification/Cloudflare_Client.thy ===== *)
theory Cloudflare_Client
  imports Upstash Do_Http
begin

text \<open>
  The two adapters in front of the Durable Object authority: \<open>src/ts/src/cloudflare-do.ts\<close> over HTTP
  and \<open>src/ts/src/cloudflare-do-rpc.ts\<close> over Workers RPC. Both meet \<open>lease_adapter\<close>. The RPC adapter
  is then run against the authority of \<open>Do_Authority\<close> itself, with calls that may not arrive and
  answers that may be lost: the recovery of an acquisition whose answer was lost is a theorem.
\<close>

section \<open>Definitions: HTTP\<close>

abbreviation do_http_error :: thrown where "do_http_error \<equiv> Thrown_error 311"
abbreviation do_json_error :: thrown where "do_json_error \<equiv> Thrown_error 312"
abbreviation do_invalid_token :: thrown where "do_invalid_token \<equiv> Thrown_error 313"

record do_client =
  dc_base :: js_string
  dc_headers :: "(js_string \<times> js_string) list"

definition do_client_lease :: "js_string \<Rightarrow> js_string \<Rightarrow> do_client" where
  "do_client_lease baseUrl apiToken = \<lparr>dc_base = strip_slashes baseUrl, dc_headers = json_headers apiToken\<rparr>"

definition do_asBigInt :: "js_value \<Rightarrow> int option" where
  "do_asBigInt v =
     (case v of
        JString s \<Rightarrow>
          if positive_decimal s \<and> int (parse_dec s) \<le> MAX_SAFE_INTEGER then Some (int (parse_dec s)) else None
      | JNumber n \<Rightarrow> if is_safe_integer n \<and> 0 < int_of_number n then Some (int_of_number n) else None
      | _ \<Rightarrow> None)"

definition do_asSafeMs :: "js_value \<Rightarrow> int option" where
  "do_asSafeMs v = (case v of
       JNumber n \<Rightarrow> if is_safe_integer n \<and> 0 \<le> int_of_number n then Some (int_of_number n) else None
     | JString s \<Rightarrow>
         if all_digits s \<and> is_safe_integer (number_of_nat (parse_dec s))
         then Some (int_of_number (number_of_nat (parse_dec s))) else None
     | _ \<Rightarrow> None)"

definition do_post :: "'w client_env \<Rightarrow> do_client \<Rightarrow> js_string \<Rightarrow> js_string \<Rightarrow> js_value \<Rightarrow> ('w, thrown, js_value) action" where
  "do_post env dc path key body =
     bind_st (catch_st (ce_fetch env (dc_base dc @ path)
                 \<lparr>fi_method = js ''POST'', fi_headers = dc_headers dc, fi_body = ce_stringify env body,
                  fi_redirect = js ''manual''\<rparr>)
                (\<lambda>c. throw_st (transport key c None))) (\<lambda>response.
     bind_st (ft_text response) (\<lambda>answer.
     if 300 \<le> ft_status response then throw_st (transport key do_http_error None)
     else if answer = [] then return_st (JObject [])
     else lift_st (catch_map (\<lambda>c. transport key do_json_error None)
            (and_then (ce_parse env answer) (\<lambda>parsed. if is_object parsed then Inr parsed else Inl do_json_error)))))"

definition do_client_renew ::
  "'w client_env \<Rightarrow> do_client \<Rightarrow> client_grant \<Rightarrow> js_number \<Rightarrow> ('w, thrown, client_grant) action" where
  "do_client_renew env dc grant ttlMs =
     bind_st (do_post env dc RENEW_PATH (cg_key grant)
        (object_literal [(''key'', JString (cg_key grant)), (''holder'', JString (cg_holder grant)),
           (''fencing_token'', JString (dec_int (cg_fencingToken grant))), (''ttl_ms'', JNumber ttlMs)])) (\<lambda>out.
     if get_prop out ''renewed'' \<noteq> JBool True then throw_st (lost_lease (cg_key grant) None)
     else return_st (renewed_grant grant ttlMs (map_option NInt (do_asSafeMs (get_prop out ''lease_expires_ms'')))))"

definition do_client_attempt ::
  "'w client_env \<Rightarrow> do_client \<Rightarrow> js_string \<Rightarrow> acquire_options \<Rightarrow> js_string \<Rightarrow> js_string \<Rightarrow> ('w, thrown, client_grant option) action" where
  "do_client_attempt env dc key opts holder requestId =
     bind_st (do_post env dc ACQUIRE_PATH key
        (object_literal [(''key'', JString key), (''holder'', JString holder), (''ttl_ms'', JNumber (ao_ttlMs opts)),
           (''request_id'', JString requestId)])) (\<lambda>out.
     if get_prop out ''acquired'' = JBool True then
       (case do_asBigInt (get_prop out ''fencing_token'') of
          None \<Rightarrow> throw_st (transport key do_invalid_token None)
        | Some fencingToken \<Rightarrow>
            let grant = \<lparr>cg_key = key, cg_holder = holder, cg_fencingToken = fencingToken, cg_ttlMs = ao_ttlMs opts,
                  cg_leaseExpiresMs = map_option NInt (do_asSafeMs (get_prop out ''lease_expires_ms''))\<rparr>
            in if get_prop out ''replayed'' = JBool True
               then bind_st (do_client_renew env dc grant (ao_ttlMs opts)) (\<lambda>g. return_st (Some g))
               else return_st (Some grant))
     else return_st None)"

definition given_or :: "js_string option \<Rightarrow> ('w, thrown, js_string) action \<Rightarrow> ('w, thrown, js_string) action" where
  "given_or given generate = (case given of Some s \<Rightarrow> return_st s | None \<Rightarrow> generate)"

definition do_client_acquire ::
  "'w client_env \<Rightarrow> do_client \<Rightarrow> nat \<Rightarrow> js_string \<Rightarrow> acquire_options \<Rightarrow> bool \<Rightarrow> 'w \<Rightarrow> ((thrown + client_grant) \<times> 'w) option" where
  "do_client_acquire env dc fuel key opts wait w =
     (case bind_st (given_or (ao_holder opts) (ce_holder env)) (\<lambda>holder.
           bind_st (given_or (ao_requestId opts) (ce_requestId env)) (\<lambda>requestId. return_st (holder, requestId))) w of
        (Inl e, w') \<Rightarrow> Some (Inl e, w')
      | (Inr (holder, requestId), w') \<Rightarrow>
          poll_loop fuel env key opts wait Fiducia_try_acquire Fiducia_acquire (ce_now env w')
            (do_client_attempt env dc key opts holder requestId) w')"

definition do_client_release :: "'w client_env \<Rightarrow> do_client \<Rightarrow> client_grant \<Rightarrow> ('w, thrown, bool) action" where
  "do_client_release env dc grant =
     catch_st (bind_st (do_post env dc RELEASE_PATH (cg_key grant)
        (object_literal [(''key'', JString (cg_key grant)), (''holder'', JString (cg_holder grant)),
           (''fencing_token'', JString (dec_int (cg_fencingToken grant)))]))
        (\<lambda>out. return_st (get_prop out ''released'' = JBool True)))
       (\<lambda>c. throw_st (tagStep c Fiducia_release))"

section \<open>Definitions: Workers RPC\<close>

abbreviation rpc_exhausted_error :: thrown where "rpc_exhausted_error \<equiv> Thrown_error 321"
abbreviation rpc_malformed_grant :: thrown where "rpc_malformed_grant \<equiv> Thrown_error 322"
abbreviation rpc_malformed_renewal :: thrown where "rpc_malformed_renewal \<equiv> Thrown_error 323"

text \<open>
  \<open>namespace.getByName(key).acquire(input)\<close> and the other two methods; the request type of the
  authority names the method. \<open>client_env\<close> gives the clock, timers and identities.
\<close>

type_synonym 'w rpc_namespace = "js_string \<Rightarrow> do_request \<Rightarrow> ('w, thrown, js_value) action"

definition rpc_asSafeMs :: "js_value \<Rightarrow> int option" where
  "rpc_asSafeMs v = (case v of
       JNumber n \<Rightarrow> if is_safe_integer n \<and> 0 \<le> int_of_number n then Some (int_of_number n) else None
     | _ \<Rightarrow> None)"

definition rpc_asBigInt :: "js_value \<Rightarrow> int option" where
  "rpc_asBigInt v =
     (case v of
        JString s \<Rightarrow>
          if positive_decimal s \<and> int (parse_dec s) \<le> MAX_SAFE_INTEGER then Some (int (parse_dec s)) else None
      | JNumber n \<Rightarrow> if is_safe_integer n \<and> 0 < int_of_number n then Some (int_of_number n) else None
      | _ \<Rightarrow> None)"

definition authorityError :: "js_string \<Rightarrow> js_value \<Rightarrow> thrown" where
  "authorityError key code =
     (if code = JString (js ''fencing_token_exhausted'') then transport key rpc_exhausted_error None else invalidPlan key)"

definition rpc_call :: "'w rpc_namespace \<Rightarrow> js_string \<Rightarrow> lock_step \<Rightarrow> do_request \<Rightarrow> ('w, thrown, js_value) action" where
  "rpc_call ns key step req = catch_st (ns key req) (\<lambda>c. throw_st (transport key c (Some step)))"

text \<open>The result of a call, once it is known to carry no error code.\<close>

definition without_error :: "js_string \<Rightarrow> js_value \<Rightarrow> thrown + js_value" where
  "without_error key out =
     and_then (has_property ''error'' out) (\<lambda>failed.
     if failed then Inl (authorityError key (get_prop out ''error'')) else Inr out)"

definition rpc_renew :: "'w rpc_namespace \<Rightarrow> client_grant \<Rightarrow> js_number \<Rightarrow> ('w, thrown, client_grant) action" where
  "rpc_renew ns grant ttlMs =
     bind_st (rpc_call ns (cg_key grant) Fiducia_renew (Do_renew
        (object_literal [(''holder'', JString (cg_holder grant)),
           (''fencing_token'', JString (dec_int (cg_fencingToken grant))), (''ttl_ms'', JNumber ttlMs)]))) (\<lambda>raw.
     bind_st (lift_st (without_error (cg_key grant) raw)) (\<lambda>out.
     if \<not> js_truthy (get_prop out ''renewed'') then throw_st (lost_lease (cg_key grant) (Some Fiducia_renew))
     else case rpc_asSafeMs (get_prop out ''lease_expires_ms'') of
       None \<Rightarrow> throw_st (transport (cg_key grant) rpc_malformed_renewal (Some Fiducia_renew))
     | Some e \<Rightarrow> return_st (renewed_grant grant ttlMs (Some (NInt e)))))"

definition rpc_attempt ::
  "'w rpc_namespace \<Rightarrow> js_string \<Rightarrow> acquire_options \<Rightarrow> lock_step \<Rightarrow> js_string \<Rightarrow> js_string \<Rightarrow> ('w, thrown, client_grant option) action" where
  "rpc_attempt ns key opts step holder requestId =
     bind_st (rpc_call ns key step (Do_acquire
        (object_literal [(''holder'', JString holder), (''ttl_ms'', JNumber (ao_ttlMs opts)),
           (''request_id'', JString requestId)]))) (\<lambda>raw.
     bind_st (lift_st (without_error key raw)) (\<lambda>out.
     if js_truthy (get_prop out ''acquired'') then
       (case (rpc_asBigInt (get_prop out ''fencing_token''), rpc_asSafeMs (get_prop out ''lease_expires_ms'')) of
          (Some fencingToken, Some leaseExpiresMs) \<Rightarrow>
            let grant = \<lparr>cg_key = key, cg_holder = holder, cg_fencingToken = fencingToken, cg_ttlMs = ao_ttlMs opts,
                  cg_leaseExpiresMs = Some (NInt leaseExpiresMs)\<rparr>
            in if js_truthy (get_prop out ''replayed'')
               then bind_st (rpc_renew ns grant (ao_ttlMs opts)) (\<lambda>g. return_st (Some g))
               else return_st (Some grant)
        | _ \<Rightarrow> throw_st (transport key rpc_malformed_grant (Some step)))
     else return_st None))"

definition rpc_acquire ::
  "'w client_env \<Rightarrow> 'w rpc_namespace \<Rightarrow> nat \<Rightarrow> js_string \<Rightarrow> acquire_options \<Rightarrow> bool \<Rightarrow> 'w \<Rightarrow> ((thrown + client_grant) \<times> 'w) option" where
  "rpc_acquire env ns fuel key opts wait w =
     (case bind_st (given_or (ao_holder opts) (ce_holder env)) (\<lambda>holder.
           bind_st (given_or (ao_requestId opts) (ce_requestId env)) (\<lambda>requestId. return_st (holder, requestId))) w of
        (Inl e, w') \<Rightarrow> Some (Inl e, w')
      | (Inr (holder, requestId), w') \<Rightarrow>
          let step = (if wait then Fiducia_acquire else Fiducia_try_acquire) in
          poll_loop fuel env key opts wait step step (ce_now env w')
            (rpc_attempt ns key opts step holder requestId) w')"

text \<open>The caller tests the truth of what \<open>release\<close> returns.\<close>

definition rpc_release :: "'w rpc_namespace \<Rightarrow> client_grant \<Rightarrow> ('w, thrown, bool) action" where
  "rpc_release ns grant =
     bind_st (rpc_call ns (cg_key grant) Fiducia_release (Do_release
        (object_literal [(''holder'', JString (cg_holder grant)),
           (''fencing_token'', JString (dec_int (cg_fencingToken grant)))]))) (\<lambda>raw.
     bind_st (lift_st (without_error (cg_key grant) raw)) (\<lambda>out. return_st (js_truthy (get_prop out ''released''))))"

section \<open>The contract\<close>

lemma do_asBigInt_bounds: "do_asBigInt v = Some t \<Longrightarrow> 0 < t \<and> t \<le> MAX_SAFE_INTEGER"
proof (cases v)
  case (JNumber n)
  then show "do_asBigInt v = Some t \<Longrightarrow> 0 < t \<and> t \<le> MAX_SAFE_INTEGER"
    by (cases n) (simp_all add: do_asBigInt_def split: if_splits)
next
  case (JString s)
  then show "do_asBigInt v = Some t \<Longrightarrow> 0 < t \<and> t \<le> MAX_SAFE_INTEGER"
    using positive_decimal_parse [of s] by (auto simp: do_asBigInt_def split: if_splits)
qed (simp_all add: do_asBigInt_def)

lemma rpc_asBigInt_bounds: "rpc_asBigInt v = Some t \<Longrightarrow> 0 < t \<and> t \<le> MAX_SAFE_INTEGER"
  using do_asBigInt_bounds [of v t] by (simp add: do_asBigInt_def rpc_asBigInt_def)

lemma do_client_renew_identity:
  "do_client_renew env dc g ttl w = (Inr g', w') \<Longrightarrow> client_identity g' = client_identity g \<and> cg_ttlMs g' = ttl"
  by (auto simp: do_client_renew_def bind_st_eq_Inr split: if_splits)

lemma rpc_renew_identity:
  "rpc_renew ns g ttl w = (Inr g', w') \<Longrightarrow> client_identity g' = client_identity g \<and> cg_ttlMs g' = ttl"
  by (auto simp: rpc_renew_def bind_st_eq_Inr split: option.splits if_splits)

definition attempt_sound :: "js_string \<Rightarrow> acquire_options \<Rightarrow> js_string \<Rightarrow> client_grant \<Rightarrow> bool" where
  "attempt_sound key opts holder g \<longleftrightarrow> cg_key g = key \<and> cg_holder g = holder \<and> 0 < cg_fencingToken g \<and>
     cg_fencingToken g \<le> MAX_SAFE_INTEGER \<and> cg_ttlMs g = ao_ttlMs opts"

text \<open>What an attempt returns after the authority has granted: the grant, or its renewal.\<close>

lemma attempt_sound_after:
  assumes "(if replayed then bind_st (renew g ttl) (\<lambda>g. return_st (Some g)) else return_st (Some g)) w = (Inr (Some g'), w')"
    and "\<And>h u v. renew g ttl u = (Inr h, v) \<Longrightarrow> client_identity h = client_identity g \<and> cg_ttlMs h = ttl"
    and "attempt_sound key opts holder g" and "ttl = ao_ttlMs opts"
  shows "attempt_sound key opts holder g'"
proof (cases replayed)
  case True
  with assms(1) obtain h u where "renew g ttl w = (Inr h, u)" "h = g'"
    by (auto simp: bind_st_eq_Inr)
  with assms(2) [of w h u] assms(3,4) show ?thesis by (simp add: attempt_sound_def client_identity_def)
qed (use assms in simp)

lemma do_client_attempt_sound:
  assumes "do_client_attempt env dc key opts holder rid w = (Inr (Some g), w')"
  shows "attempt_sound key opts holder g"
proof -
  from assms obtain out u where out: "(if get_prop out ''acquired'' = JBool True then
       (case do_asBigInt (get_prop out ''fencing_token'') of
          None \<Rightarrow> throw_st (transport key do_invalid_token None)
        | Some fencingToken \<Rightarrow>
            let grant = \<lparr>cg_key = key, cg_holder = holder, cg_fencingToken = fencingToken, cg_ttlMs = ao_ttlMs opts,
                  cg_leaseExpiresMs = map_option NInt (do_asSafeMs (get_prop out ''lease_expires_ms''))\<rparr>
            in if get_prop out ''replayed'' = JBool True
               then bind_st (do_client_renew env dc grant (ao_ttlMs opts)) (\<lambda>g. return_st (Some g))
               else return_st (Some grant))
     else return_st None) u = (Inr (Some g), w')"
    unfolding do_client_attempt_def bind_st_eq_Inr by blast
  then obtain tok where tok: "do_asBigInt (get_prop out ''fencing_token'') = Some tok"
    by (cases "do_asBigInt (get_prop out ''fencing_token'')") (simp_all split: if_splits)
  show ?thesis
  proof (rule attempt_sound_after)
    let ?g = "\<lparr>cg_key = key, cg_holder = holder, cg_fencingToken = tok, cg_ttlMs = ao_ttlMs opts,
      cg_leaseExpiresMs = map_option NInt (do_asSafeMs (get_prop out ''lease_expires_ms''))\<rparr>"
    show "(if get_prop out ''replayed'' = JBool True
        then bind_st (do_client_renew env dc ?g (ao_ttlMs opts)) (\<lambda>g. return_st (Some g)) else return_st (Some ?g)) u =
        (Inr (Some g), w')"
      using out tok by (simp add: Let_def split: if_splits)
    show "attempt_sound key opts holder ?g" using do_asBigInt_bounds [OF tok] by (simp add: attempt_sound_def)
  qed (simp_all add: do_client_renew_identity)
qed

lemma rpc_attempt_sound:
  assumes "rpc_attempt ns key opts step holder rid w = (Inr (Some g), w')"
  shows "attempt_sound key opts holder g"
proof -
  from assms obtain out u where out: "(if js_truthy (get_prop out ''acquired'') then
       (case (rpc_asBigInt (get_prop out ''fencing_token''), rpc_asSafeMs (get_prop out ''lease_expires_ms'')) of
          (Some fencingToken, Some leaseExpiresMs) \<Rightarrow>
            let grant = \<lparr>cg_key = key, cg_holder = holder, cg_fencingToken = fencingToken, cg_ttlMs = ao_ttlMs opts,
                  cg_leaseExpiresMs = Some (NInt leaseExpiresMs)\<rparr>
            in if js_truthy (get_prop out ''replayed'')
               then bind_st (rpc_renew ns grant (ao_ttlMs opts)) (\<lambda>g. return_st (Some g))
               else return_st (Some grant)
        | _ \<Rightarrow> throw_st (transport key rpc_malformed_grant (Some step)))
     else return_st None) u = (Inr (Some g), w')"
    unfolding rpc_attempt_def bind_st_eq_Inr by blast
  then obtain tok e where tok: "rpc_asBigInt (get_prop out ''fencing_token'') = Some tok"
    "rpc_asSafeMs (get_prop out ''lease_expires_ms'') = Some e"
    by (cases "rpc_asBigInt (get_prop out ''fencing_token'')"; cases "rpc_asSafeMs (get_prop out ''lease_expires_ms'')")
      (simp_all split: if_splits)
  show ?thesis
  proof (rule attempt_sound_after)
    let ?g = "\<lparr>cg_key = key, cg_holder = holder, cg_fencingToken = tok, cg_ttlMs = ao_ttlMs opts,
      cg_leaseExpiresMs = Some (NInt e)\<rparr>"
    show "(if js_truthy (get_prop out ''replayed'')
        then bind_st (rpc_renew ns ?g (ao_ttlMs opts)) (\<lambda>g. return_st (Some g)) else return_st (Some ?g)) u =
        (Inr (Some g), w')"
      using out tok by (simp add: Let_def split: if_splits)
    show "attempt_sound key opts holder ?g" using rpc_asBigInt_bounds [OF tok(1)] by (simp add: attempt_sound_def)
  qed (simp_all add: rpc_renew_identity)
qed

lemma given_or_given: "given_or (Some s) gen w = (Inr s, w)"
  by (simp add: given_or_def)

lemma identities_given:
  assumes "bind_st (given_or (ao_holder opts) gen_h) (\<lambda>holder.
      bind_st (given_or rid gen_r) (\<lambda>requestId. return_st (holder, requestId))) w = (Inr (holder, requestId), w')"
    and "ao_holder opts = Some h"
  shows "holder = h"
  using assms by (auto simp: bind_st_eq_Inr given_or_given)

lemma do_client_acquire_sound:
  assumes "do_client_acquire env dc fuel key opts wait w = Some (Inr g, w')"
  shows "\<exists>holder. attempt_sound key opts holder g \<and> (\<forall>h. ao_holder opts = Some h \<longrightarrow> holder = h)"
proof -
  from assms obtain holder rid u where "bind_st (given_or (ao_holder opts) (ce_holder env)) (\<lambda>holder.
      bind_st (given_or (ao_requestId opts) (ce_requestId env)) (\<lambda>requestId. return_st (holder, requestId))) w = (Inr (holder, rid), u)"
    and "poll_loop fuel env key opts wait Fiducia_try_acquire Fiducia_acquire (ce_now env u)
      (do_client_attempt env dc key opts holder rid) u = Some (Inr g, w')"
    by (auto simp: do_client_acquire_def split: prod.splits sum.splits)
  then show ?thesis by (metis poll_loop_grant do_client_attempt_sound identities_given)
qed

lemma rpc_acquire_sound:
  assumes "rpc_acquire env ns fuel key opts wait w = Some (Inr g, w')"
  shows "\<exists>holder. attempt_sound key opts holder g \<and> (\<forall>h. ao_holder opts = Some h \<longrightarrow> holder = h)"
proof -
  define step where "step = (if wait then Fiducia_acquire else Fiducia_try_acquire)"
  from assms obtain holder rid u where "bind_st (given_or (ao_holder opts) (ce_holder env)) (\<lambda>holder.
      bind_st (given_or (ao_requestId opts) (ce_requestId env)) (\<lambda>requestId. return_st (holder, requestId))) w = (Inr (holder, rid), u)"
    and "poll_loop fuel env key opts wait step step (ce_now env u)
      (rpc_attempt ns key opts step holder rid) u = Some (Inr g, w')"
    by (auto simp: rpc_acquire_def Let_def step_def split: prod.splits sum.splits)
  then show ?thesis by (metis poll_loop_grant rpc_attempt_sound identities_given)
qed

interpretation do_http_adapter: lease_adapter "do_client_acquire env dc" "do_client_renew env dc" for env dc
  by unfold_locales (auto simp: attempt_sound_def dest: do_client_acquire_sound do_client_renew_identity)

interpretation do_rpc_adapter: lease_adapter "rpc_acquire env ns" "rpc_renew ns" for env ns
  by unfold_locales (auto simp: attempt_sound_def dest: rpc_acquire_sound rpc_renew_identity)

section \<open>The RPC adapter on the authority\<close>

text \<open>The objects the authority returns (\<open>authority.js\<close>), and a namespace of objects behind calls that
  may be lost: each call takes the next entry of a schedule.\<close>

definition code_text :: "invalid_code \<Rightarrow> js_string" where
  "code_text c = (case c of
       Invalid_holder \<Rightarrow> js ''invalid_holder''
     | Invalid_request_id \<Rightarrow> js ''invalid_request_id''
     | Invalid_ttl \<Rightarrow> js ''invalid_ttl''
     | Invalid_token \<Rightarrow> js ''invalid_fencing_token'')"

abbreviation num :: "int \<Rightarrow> js_value" where "num i \<equiv> JNumber (NInt i)"

fun answer_object :: "do_answer \<Rightarrow> js_value" where
  "answer_object (Answer_acquire (Acquire_invalid c)) =
     object_literal [(''acquired'', JBool False), (''error'', JString (code_text c))]"
| "answer_object (Answer_acquire Acquire_exhausted) =
     object_literal [(''acquired'', JBool False), (''error'', JString (js ''fencing_token_exhausted''))]"
| "answer_object (Answer_acquire (Acquire_contention e)) =
     object_literal [(''acquired'', JBool False), (''reason'', JString (js ''contention'')), (''lease_expires_ms'', num e)]"
| "answer_object (Answer_acquire (Acquire_other_request e)) =
     object_literal [(''acquired'', JBool False), (''reason'', JString (js ''holder_active_different_request'')),
       (''lease_expires_ms'', num e)]"
| "answer_object (Answer_acquire (Acquire_replayed t e)) =
     object_literal [(''acquired'', JBool True), (''fencing_token'', case t of None \<Rightarrow> JNull | Some s \<Rightarrow> JString s),
       (''lease_expires_ms'', num e), (''renewed'', JBool False), (''replayed'', JBool True)]"
| "answer_object (Answer_acquire (Acquire_granted t e ttl)) =
     object_literal [(''acquired'', JBool True), (''fencing_token'', JString t), (''lease_expires_ms'', num e),
       (''ttl_ms'', num ttl), (''renewed'', JBool False), (''replayed'', JBool False)]"
| "answer_object (Answer_renew _ (Renew_invalid c)) =
     object_literal [(''renewed'', JBool False), (''error'', JString (code_text c))]"
| "answer_object (Answer_renew _ Renew_expired) =
     object_literal [(''renewed'', JBool False), (''reason'', JString (js ''expired''))]"
| "answer_object (Answer_renew _ Renew_not_owner) =
     object_literal [(''renewed'', JBool False), (''reason'', JString (js ''not_owner''))]"
| "answer_object (Answer_renew _ (Renew_done e ttl)) =
     object_literal [(''renewed'', JBool True), (''lease_expires_ms'', num e), (''ttl_ms'', num ttl)]"
| "answer_object (Answer_release _ (Release_invalid c)) =
     object_literal [(''released'', JBool False), (''error'', JString (code_text c))]"
| "answer_object (Answer_release _ Release_expired) =
     object_literal [(''released'', JBool False), (''reason'', JString (js ''expired''))]"
| "answer_object (Answer_release _ Release_not_owner) =
     object_literal [(''released'', JBool False), (''reason'', JString (js ''not_owner''))]"
| "answer_object (Answer_release _ Release_done) = object_literal [(''released'', JBool True)]"
| "answer_object Answer_alarm = JUndefined"
| "answer_object (Answer_error _) = JUndefined"

record do_world =
  dw_objects :: lock_objects
  dw_calls :: "(rpc_fate \<times> do_env) list"

abbreviation rpc_rejected :: thrown where "rpc_rejected \<equiv> Thrown_error 320"

definition namespace_call :: "do_world rpc_namespace" where
  "namespace_call key req w =
     (case dw_calls w of
        [] \<Rightarrow> (Inl rpc_rejected, w)
      | (fate, env) # rest \<Rightarrow>
          (case call_object fate env key req (dw_objects w) of
             (Some a, objs) \<Rightarrow> (Inr (answer_object a), \<lparr>dw_objects = objs, dw_calls = rest\<rparr>)
           | (None, objs) \<Rightarrow> (Inl rpc_rejected, \<lparr>dw_objects = objs, dw_calls = rest\<rparr>)))"

lemma has_error_literal:
  "has_property name (object_literal fs) = Inr (list_ex (\<lambda>(n, _). n = name) fs)"
  by (simp add: object_literal_def list_ex_iff case_prod_unfold image_iff)

text \<open>The authority on a free row, on the live row of the same holder and request, and for its owner.\<close>

definition granted_row :: "js_string \<Rightarrow> js_string option \<Rightarrow> nat \<Rightarrow> int \<Rightarrow> lease_row" where
  "granted_row h rid n e = \<lparr>lr_holder = Some h, lr_token = Some (dec_nat n), lr_expires_ms = Some e,
     lr_next_token = dec_nat n, lr_request_id = rid\<rparr>"

lemma do_acquire_free:
  assumes "storage_invar st" and "live_owner (ds_row st) (de_now env) = None" and "de_alarm_ok env"
    and "storage_counter st < MAX_MINTED_FENCING_TOKEN"
    and "acquire_valid body"
  shows "do_acquire env body st =
    (let ttl = number_of (get_prop body ''ttl_ms''); e = de_now env + ttl; n = Suc (storage_counter st) in
     (Inr (Acquire_granted (dec_nat n) e ttl),
      \<lparr>ds_row = granted_row (text_of (get_prop body ''holder'')) (request_column (get_prop body ''request_id'')) n e,
       ds_alarm = Some e\<rparr>))"
proof -
  have inv: "row_invar (ds_row st)" using assms(1) by (simp add: storage_invar_def)
  then have "\<not> held_at (ds_row st) (de_now env)"
    using assms(2) by (auto simp: held_at_def live_owner_def row_invar_def split: option.splits if_splits)
  note free = acquire_body_free [OF this]
  have "nextToken (lr_next_token (ds_row st)) = Inr (dec_nat (Suc (storage_counter st)))"
    using row_invar_clear_cases [OF inv] assms(4) by (simp add: nextToken_ok_iff storage_counter_def row_counter_def)
  then show ?thesis
    using assms(3,5)
    by (simp add: do_acquire_def acquire_valid_def transactionSync_def free acquire_fresh_def granted_row_def
        clearLease_def bind_st_def setAlarm_def Let_def split: option.split)
qed

lemma do_acquire_replay:
  assumes "ds_row st = granted_row h (Some rid) n e" and "rid \<noteq> []" and "de_now env < e" and "de_alarm_ok env"
    and "acquire_valid body" and "get_prop body ''holder'' = JString h" and "get_prop body ''request_id'' = JString rid"
  shows "do_acquire env body st = (Inr (Acquire_replayed (Some (dec_nat n)) e), st\<lparr>ds_alarm := Some e\<rparr>)"
  using assms
  by (simp add: do_acquire_def acquire_valid_def transactionSync_def acquire_body_def granted_row_def text_of_def
      given_request_def stored_request_def bind_st_def setAlarm_def Let_def)

lemma canonicalToken_dec_nat: "0 < n \<Longrightarrow> n \<le> MAX_MINTED_FENCING_TOKEN \<Longrightarrow> canonicalToken (JString (dec_nat n)) = Some (dec_nat n)"
  by (simp add: canonicalToken_def positive_dec_nat MAX_MINTED_FENCING_TOKEN_def MAX_PERSISTED_FENCING_TOKEN_def)

lemma do_renew_owner:
  assumes "ds_row st = granted_row h rid n e" and "de_now env < e" and "de_alarm_ok env" and "renew_valid body"
    and "get_prop body ''holder'' = JString h" and "get_prop body ''fencing_token'' = JString (dec_nat n)"
    and "0 < n" and "n \<le> MAX_MINTED_FENCING_TOKEN"
  shows "do_renew env body st =
    (let ttl = number_of (get_prop body ''ttl_ms''); e' = de_now env + ttl in
     (Inr (Renew_done e' ttl), \<lparr>ds_row = granted_row h rid n e', ds_alarm = Some e'\<rparr>))"
  using assms
  by (simp add: do_renew_def renew_valid_def transactionSync_def renew_body_def granted_row_def text_of_def
      canonicalToken_dec_nat bind_st_def setAlarm_def Let_def)

lemma do_release_owner:
  assumes "ds_row st = granted_row h rid n e" and "de_now env < e" and "de_alarm_ok env"
    and "validHolder (get_prop body ''holder'')"
    and "get_prop body ''holder'' = JString h" and "get_prop body ''fencing_token'' = JString (dec_nat n)"
    and "0 < n" and "n \<le> MAX_MINTED_FENCING_TOKEN"
  shows "do_release env body st = (Inr Release_done, \<lparr>ds_row = clearLease (granted_row h rid n e), ds_alarm = None\<rparr>)"
  using assms
  by (simp add: do_release_def transactionSync_def release_body_def granted_row_def text_of_def
      canonicalToken_dec_nat bind_st_def deleteAlarm_def Let_def)

definition request_ok :: "acquire_options \<Rightarrow> js_string \<Rightarrow> js_string \<Rightarrow> int \<Rightarrow> bool" where
  "request_ok opts h rid ttl \<longleftrightarrow> ao_holder opts = Some h \<and> ao_requestId opts = Some rid \<and> ao_ttlMs opts = NInt ttl \<and>
     validHolder (JString h) \<and> validIdentity (JString rid) MAX_REQUEST_ID_BYTES \<and> validTtl (num ttl)"

abbreviation acquire_object :: "js_string \<Rightarrow> js_string \<Rightarrow> int \<Rightarrow> js_value" where
  "acquire_object h rid ttl \<equiv> object_literal [(''holder'', JString h), (''ttl_ms'', num ttl), (''request_id'', JString rid)]"

lemma request_ok_facts:
  assumes "request_ok opts h rid ttl"
  shows "acquire_valid (acquire_object h rid ttl)" "rid \<noteq> []" "0 < ttl" "ttl \<le> 86400000"
    "renew_valid (object_literal [(''holder'', JString h), (''fencing_token'', v), (''ttl_ms'', num ttl)])"
  using assms
  by (auto simp: request_ok_def acquire_valid_def renew_valid_def get_prop_literal validRequestId_def validIdentity_def
      identity_text_def validTtl_def MAX_TTL_MS_def)

lemma number_of_num [simp]: "number_of (num i) = i" "text_of (JString s) = s" "request_column (JString s) = Some s"
  by (simp_all add: number_of_def text_of_def request_column_def)

definition session_grant :: "js_string \<Rightarrow> js_string \<Rightarrow> nat \<Rightarrow> int \<Rightarrow> int \<Rightarrow> client_grant" where
  "session_grant key h n ttl e =
     \<lparr>cg_key = key, cg_holder = h, cg_fencingToken = int n, cg_ttlMs = NInt ttl, cg_leaseExpiresMs = Some (NInt e)\<rparr>"

definition free_object :: "do_storage \<Rightarrow> do_env \<Rightarrow> nat \<Rightarrow> bool" where
  "free_object st env n \<longleftrightarrow> storage_invar st \<and> live_owner (ds_row st) (de_now env) = None \<and> de_alarm_ok env \<and>
     n = Suc (storage_counter st) \<and> n \<le> MAX_MINTED_FENCING_TOKEN"

lemma fresh_step:
  assumes "request_ok opts h rid ttl" and "free_object st env n"
  shows "do_step st (env, Do_acquire (acquire_object h rid ttl)) =
    (Answer_acquire (Acquire_granted (dec_nat n) (de_now env + ttl) ttl),
     \<lparr>ds_row = granted_row h (Some rid) n (de_now env + ttl), ds_alarm = Some (de_now env + ttl)\<rparr>)"
  using do_acquire_free [of st env "acquire_object h rid ttl"] assms request_ok_facts(1) [OF assms(1)]
  by (simp add: free_object_def do_answer_of_def get_prop_literal Let_def)

text \<open>A fresh grant, and the same when its answer is lost on the way.\<close>

lemma rpc_attempt_fresh:
  assumes req: "request_ok opts h rid ttl" and free: "free_object (dw_objects w key) env n"
    and calls: "dw_calls w = (fate, env) # rest" and fate: "fate \<noteq> Rpc_not_sent"
    and time: "0 \<le> de_now env" "de_now env + ttl \<le> MAX_SAFE_INTEGER"
  defines "w' \<equiv> \<lparr>dw_objects = (dw_objects w)(key :=
      \<lparr>ds_row = granted_row h (Some rid) n (de_now env + ttl), ds_alarm = Some (de_now env + ttl)\<rparr>), dw_calls = rest\<rparr>"
  shows "rpc_attempt namespace_call key opts step h rid w =
    ((if fate = Rpc_answer_lost then Inl (transport key rpc_rejected (Some step))
      else Inr (Some (session_grant key h n ttl (de_now env + ttl)))), w')"
proof -
  have n: "0 < n" "int n \<le> MAX_SAFE_INTEGER"
    using free by (simp_all add: free_object_def MAX_MINTED_FENCING_TOKEN_def MAX_SAFE_INTEGER_def)
  have ttl: "ao_ttlMs opts = NInt ttl" using req by (simp add: request_ok_def)
  have ns: "namespace_call key (Do_acquire (acquire_object h rid ttl)) w =
      ((if fate = Rpc_answer_lost then Inl rpc_rejected
        else Inr (answer_object (Answer_acquire (Acquire_granted (dec_nat n) (de_now env + ttl) ttl)))), w')"
    using fresh_step [OF req free] calls fate
    by (simp add: namespace_call_def call_object_def w'_def del: do_step.simps)
  have e: "rpc_asSafeMs (num (de_now env + ttl)) = Some (de_now env + ttl)"
    using time request_ok_facts(3) [OF req] by (simp add: rpc_asSafeMs_def MAX_SAFE_INTEGER_def)
  have tok: "rpc_asBigInt (JString (dec_nat n)) = Some (int n)"
    using n positive_dec_nat [of n] by (simp add: rpc_asBigInt_def)
  show ?thesis
    unfolding rpc_attempt_def ttl
    by (simp add: rpc_call_def bind_st_apply catch_st_apply ns without_error_def has_error_literal get_prop_literal
        e tok session_grant_def)
qed

text \<open>A retry of the same acquisition gets the same grant back and renews it.\<close>

lemma rpc_attempt_replay:
  assumes req: "request_ok opts h rid ttl" and row: "ds_row (dw_objects w key) = granted_row h (Some rid) n e"
    and n: "0 < n" "n \<le> MAX_MINTED_FENCING_TOKEN"
    and calls: "dw_calls w = (Rpc_ok, env) # (Rpc_ok, env') # rest" and ok: "de_alarm_ok env" "de_alarm_ok env'"
    and time: "de_now env < e" "de_now env' < e" "0 \<le> e" "e \<le> MAX_SAFE_INTEGER" "0 \<le> de_now env'" "de_now env' + ttl \<le> MAX_SAFE_INTEGER"
  shows "rpc_attempt namespace_call key opts step h rid w =
    (Inr (Some (session_grant key h n ttl (de_now env' + ttl))),
     \<lparr>dw_objects = (dw_objects w)(key :=
        \<lparr>ds_row = granted_row h (Some rid) n (de_now env' + ttl), ds_alarm = Some (de_now env' + ttl)\<rparr>), dw_calls = rest\<rparr>)"
proof -
  have ttl: "ao_ttlMs opts = NInt ttl" using req by (simp add: request_ok_def)
  let ?st1 = "(dw_objects w key)\<lparr>ds_alarm := Some e\<rparr>"
  let ?w1 = "\<lparr>dw_objects = (dw_objects w)(key := ?st1), dw_calls = (Rpc_ok, env') # rest\<rparr>"
  let ?e = "de_now env' + ttl"
  let ?renew = "object_literal [(''holder'', JString h), (''fencing_token'', JString (dec_nat n)), (''ttl_ms'', num ttl)]"
  have "do_acquire env (acquire_object h rid ttl) (dw_objects w key) = (Inr (Acquire_replayed (Some (dec_nat n)) e), ?st1)"
    by (rule do_acquire_replay [OF row request_ok_facts(2) [OF req] time(1) ok(1) request_ok_facts(1) [OF req]])
      (simp_all add: get_prop_literal)
  then have ns1: "namespace_call key (Do_acquire (acquire_object h rid ttl)) w =
      (Inr (answer_object (Answer_acquire (Acquire_replayed (Some (dec_nat n)) e))), ?w1)"
    by (simp add: namespace_call_def call_object_def calls do_answer_of_def)
  have "do_renew env' ?renew ?st1 =
      (Inr (Renew_done ?e ttl), \<lparr>ds_row = granted_row h (Some rid) n ?e, ds_alarm = Some ?e\<rparr>)"
    using do_renew_owner [of ?st1 h "Some rid" n e env' ?renew] row time(2) ok(2) request_ok_facts(5) [OF req] n
    by (simp add: get_prop_literal Let_def)
  then have ns2: "namespace_call key (Do_renew ?renew) ?w1 = (Inr (answer_object (Answer_renew ?renew (Renew_done ?e ttl))),
      \<lparr>dw_objects = (dw_objects w)(key := \<lparr>ds_row = granted_row h (Some rid) n ?e, ds_alarm = Some ?e\<rparr>), dw_calls = rest\<rparr>)"
    by (simp add: namespace_call_def call_object_def do_answer_of_def)
  have ms: "rpc_asSafeMs (num e) = Some e" "rpc_asSafeMs (num ?e) = Some ?e"
    using time request_ok_facts(3) [OF req] by (simp_all add: rpc_asSafeMs_def MAX_SAFE_INTEGER_def)
  have tok: "rpc_asBigInt (JString (dec_nat n)) = Some (int n)" "dec_int (int n) = dec_nat n"
    using n positive_dec_nat [of n]
    by (simp_all add: rpc_asBigInt_def dec_int_def MAX_MINTED_FENCING_TOKEN_def MAX_SAFE_INTEGER_def)
  have renew: "rpc_renew namespace_call (session_grant key h n ttl e) (NInt ttl) ?w1 =
      (Inr (session_grant key h n ttl ?e),
       \<lparr>dw_objects = (dw_objects w)(key := \<lparr>ds_row = granted_row h (Some rid) n ?e, ds_alarm = Some ?e\<rparr>), dw_calls = rest\<rparr>)"
    unfolding rpc_renew_def
    by (simp add: rpc_call_def bind_st_apply catch_st_apply session_grant_def tok ns2 without_error_def has_error_literal
        get_prop_literal ms renewed_grant_def)
  show ?thesis
    unfolding rpc_attempt_def ttl
    by (simp add: rpc_call_def bind_st_apply catch_st_apply ns1 without_error_def has_error_literal get_prop_literal
        ms tok renew session_grant_def [symmetric])
qed

lemma rpc_acquire_attempt:
  assumes "request_ok opts h rid ttl"
    and "rpc_attempt ns key opts (if wait then Fiducia_acquire else Fiducia_try_acquire) h rid w = (r, w')"
    and "r \<noteq> Inr None"
  shows "rpc_acquire env ns (Suc fuel) key opts wait w = Some (map_sum id the r, w')"
  using assms
  by (cases r) (auto simp: rpc_acquire_def request_ok_def given_or_def bind_st_apply Let_def split: option.split)

section \<open>Properties\<close>

text \<open>C13: an acquisition whose answer is lost is recovered. The object is free, the first call reaches
  it but its answer does not come back: the adapter throws a transport error while the authority
  holds the lease under token \<open>n\<close>. A second \<open>acquire\<close> with the same holder and request id, while
  that lease lives, returns a grant with the same token \<open>n\<close> and a full time to live from the
  renewal; no second token is minted, and the authority's live owner is that holder under \<open>n\<close>.\<close>

theorem rpc_lost_answer_recovered:
  assumes "request_ok opts h rid ttl" and "free_object (dw_objects w key) env1 n"
    and "dw_calls w = (Rpc_answer_lost, env1) # (Rpc_ok, env2) # (Rpc_ok, env3) # rest"
    and "de_alarm_ok env2" and "de_alarm_ok env3"
    and "0 \<le> de_now env1" and "de_now env1 + ttl \<le> MAX_SAFE_INTEGER"
    and "de_now env2 < de_now env1 + ttl" and "0 \<le> de_now env3" and "de_now env3 < de_now env1 + ttl"
    and "de_now env3 + ttl \<le> MAX_SAFE_INTEGER"
  shows "\<exists>w1 w2. rpc_acquire ce namespace_call (Suc fuel) key opts wait w =
        Some (Inl (transport key rpc_rejected (Some (if wait then Fiducia_acquire else Fiducia_try_acquire))), w1) \<and>
      storage_counter (dw_objects w1 key) = n \<and>
      rpc_acquire ce namespace_call (Suc fuel') key opts wait' w1 =
        Some (Inr (session_grant key h n ttl (de_now env3 + ttl)), w2) \<and>
      storage_counter (dw_objects w2 key) = n \<and>
      live_owner (ds_row (dw_objects w2 key)) (de_now env3) = Some (h, dec_nat n)"
proof -
  let ?step = "\<lambda>b. if b then Fiducia_acquire else Fiducia_try_acquire"
  let ?row = "\<lambda>e. \<lparr>ds_row = granted_row h (Some rid) n e, ds_alarm = Some e\<rparr>"
  let ?w1 = "\<lparr>dw_objects = (dw_objects w)(key := ?row (de_now env1 + ttl)), dw_calls = (Rpc_ok, env2) # (Rpc_ok, env3) # rest\<rparr>"
  have n: "0 < n" "n \<le> MAX_MINTED_FENCING_TOKEN" using assms(2) by (simp_all add: free_object_def)
  have ttl: "0 < ttl" by (rule request_ok_facts(3) [OF assms(1)])
  have "rpc_attempt namespace_call key opts (?step wait) h rid w = (Inl (transport key rpc_rejected (Some (?step wait))), ?w1)"
    using rpc_attempt_fresh [OF assms(1,2,3) _ assms(6,7)] by simp
  from rpc_acquire_attempt [OF assms(1) this]
  have lost: "rpc_acquire ce namespace_call (Suc fuel) key opts wait w = Some (Inl (transport key rpc_rejected (Some (?step wait))), ?w1)"
    by simp
  have "rpc_attempt namespace_call key opts (?step wait') h rid ?w1 =
      (Inr (Some (session_grant key h n ttl (de_now env3 + ttl))),
       \<lparr>dw_objects = (dw_objects ?w1)(key := ?row (de_now env3 + ttl)), dw_calls = rest\<rparr>)"
    by (rule rpc_attempt_replay [OF assms(1) _ n _ assms(4,5) assms(8,10) _ assms(7,9,11)]) (use assms(6) ttl in simp_all)
  from rpc_acquire_attempt [OF assms(1) this]
  have again: "rpc_acquire ce namespace_call (Suc fuel') key opts wait' ?w1 =
      Some (Inr (session_grant key h n ttl (de_now env3 + ttl)),
       \<lparr>dw_objects = (dw_objects ?w1)(key := ?row (de_now env3 + ttl)), dw_calls = rest\<rparr>)"
    by simp
  show ?thesis
    by (intro exI conjI, rule lost, simp_all only: again)
      (use ttl in \<open>simp_all add: storage_counter_def row_counter_def granted_row_def live_owner_def\<close>)
qed

definition rpc_request :: acquire_options where
  "rpc_request = DEFAULT_ACQUIRE_OPTIONS\<lparr>ao_holder := Some [104], ao_requestId := Some [114]\<rparr>"

definition sample_do_world :: do_world where
  "sample_do_world = \<lparr>dw_objects = (\<lambda>_. open_authority No_table None),
     dw_calls = [(Rpc_answer_lost, tick 10), (Rpc_ok, tick 20), (Rpc_ok, tick 30)]\<rparr>"

lemma rpc_request_ok: "request_ok rpc_request [104] [114] 60000"
  by (simp add: request_ok_def rpc_request_def DEFAULT_ACQUIRE_OPTIONS_def do_eval)

lemma sample_free: "free_object (dw_objects sample_do_world [107]) (tick 10) 1"
  using fresh_invar
  by (simp add: free_object_def sample_do_world_def live_owner_def open_authority_def initial_row_def Let_def
      storage_counter_def row_counter_def MAX_MINTED_FENCING_TOKEN_def js_simps parse_dec_def digit_value_def)

definition idle_env :: "do_world client_env" where
  "idle_env = \<lparr>ce_fetch = (\<lambda>u i w. (Inl Thrown_undefined, w)), ce_now = (\<lambda>_. 0), ce_sleep = (\<lambda>_ w. w),
     ce_holder = return_st [], ce_requestId = return_st [], ce_stringify = (\<lambda>_. []), ce_parse = (\<lambda>_. Inr JNull)\<rparr>"

theorem rpc_lost_answer_recovered_witness:
  "\<exists>w1 w2. rpc_acquire idle_env namespace_call 1 [107] rpc_request False sample_do_world =
      Some (Inl (transport [107] rpc_rejected (Some Fiducia_try_acquire)), w1) \<and>
    rpc_acquire idle_env namespace_call 1 [107] rpc_request False w1 =
      Some (Inr (session_grant [107] [104] 1 60000 60030), w2)"
proof -
  have "dw_calls sample_do_world = (Rpc_answer_lost, tick 10) # (Rpc_ok, tick 20) # (Rpc_ok, tick 30) # []"
    by (simp add: sample_do_world_def)
  from rpc_lost_answer_recovered [OF rpc_request_ok sample_free this, of idle_env 0 False 0 False]
  have "\<exists>w1 w2. rpc_acquire idle_env namespace_call (Suc 0) [107] rpc_request False sample_do_world =
      Some (Inl (transport [107] rpc_rejected (Some Fiducia_try_acquire)), w1) \<and>
    rpc_acquire idle_env namespace_call (Suc 0) [107] rpc_request False w1 =
      Some (Inr (session_grant [107] [104] 1 60000 60030), w2)"
    by (simp add: MAX_SAFE_INTEGER_def) blast
  then show ?thesis by simp
qed

end
