(* ===== verification/Fiducia.thy ===== *)
theory Fiducia
  imports Cloudflare_Client
begin

text \<open>
  \<open>src/ts/src/fiducia.ts\<close>: the adapter for a fiducia node. It differs from the other adapters in
  three ways that the theorems are about: it refuses to send a credential over cleartext HTTP to
  a host that is not local; a waiting acquisition is queued on the node, so a caller that gives up
  (timeout or abort signal) first cancels the queued request and, when the cancellation raced with
  a grant, releases that grant; and fencing tokens travel as JSON numbers, so a token above
  \<open>2^53 - 1\<close> cannot be sent back.
\<close>

section \<open>Definitions\<close>

abbreviation fiducia_http_error :: thrown where "fiducia_http_error \<equiv> Thrown_error 331"
abbreviation fiducia_refused :: thrown where "fiducia_refused \<equiv> Thrown_error 332"
abbreviation wire_range_error :: thrown where "wire_range_error \<equiv> Thrown_error 333"
abbreviation unsafe_cancel_error :: thrown where "unsafe_cancel_error \<equiv> Thrown_error 334"
abbreviation raced_grant_missing :: thrown where "raced_grant_missing \<equiv> Thrown_error 335"
abbreviation raced_grant_malformed :: thrown where "raced_grant_malformed \<equiv> Thrown_error 336"
abbreviation raced_release_noop :: thrown where "raced_release_noop \<equiv> Thrown_error 337"
abbreviation fiducia_no_token :: thrown where "fiducia_no_token \<equiv> Thrown_error 338"
abbreviation cancelled_by_caller :: thrown where "cancelled_by_caller \<equiv> Thrown_error 339"

definition LOCAL_SUFFIXES :: "js_string list" where
  "LOCAL_SUFFIXES = [js ''.svc'', js ''.cluster.local'', js ''.internal'', js ''.local'']"

definition ends_with :: "js_string \<Rightarrow> js_string \<Rightarrow> bool" where
  "ends_with s suffix = (length suffix \<le> length s \<and> drop (length s - length suffix) s = suffix)"

definition local_host :: "js_string \<Rightarrow> bool" where
  "local_host host \<longleftrightarrow>
     host \<in> set [js ''localhost'', js ''127.0.0.1'', js ''[::1]'', js ''::1''] \<or>
     list_ex (ends_with host) LOCAL_SUFFIXES"

text \<open>\<open>hostname\<close> is the URL parser; it throws on a text that is not a URL. \<open>True\<close> is a refusal.\<close>

definition cleartextRefusal :: "(js_string \<Rightarrow> thrown + js_string) \<Rightarrow> js_string \<Rightarrow> bool \<Rightarrow> bool \<Rightarrow> thrown + bool" where
  "cleartextRefusal hostname baseUrl hasCredential allow =
     (if \<not> hasCredential \<or> allow \<or> take 7 baseUrl \<noteq> js ''http://'' then Inr False
      else map_sum id (\<lambda>host. \<not> local_host host) (hostname baseUrl))"

text \<open>The random bytes of a generated identity are the argument \<open>bytes\<close>.\<close>

definition generatedIdentity :: "js_string \<Rightarrow> byte list \<Rightarrow> js_string" where
  "generatedIdentity prefix bytes = prefix @ concat (map hex_byte bytes)"

definition generatedHolder :: "byte list \<Rightarrow> js_string" where
  "generatedHolder bytes = generatedIdentity (js ''ores-locks-'') bytes"

definition generatedRequestId :: "byte list \<Rightarrow> js_string" where
  "generatedRequestId bytes = generatedIdentity (js ''ores-lock-request-'') bytes"

record fiducia_options =
  fo_baseUrl :: js_string
  fo_internal :: "(js_string \<times> js_string) option"
  fo_apiKey :: "js_string option"
  fo_allowCleartext :: bool

record fiducia =
  fd_base :: js_string
  fd_headers :: "(js_string \<times> js_string) list"
  fd_refusal :: bool

definition fiducia_lease :: "(js_string \<Rightarrow> thrown + js_string) \<Rightarrow> fiducia_options \<Rightarrow> thrown + fiducia" where
  "fiducia_lease hostname o1 =
     (let base = strip_slashes (fo_baseUrl o1);
          key = (case fo_apiKey o1 of Some k \<Rightarrow> if k = [] then None else Some k | None \<Rightarrow> None)
      in map_sum id (\<lambda>refusal.
           \<lparr>fd_base = base,
            fd_headers = [(js ''content-type'', js ''application/json'')] @
              (case fo_internal o1 of None \<Rightarrow> []
               | Some (secret, orgId) \<Rightarrow> [(js ''x-fiducia-internal-auth'', secret), (js ''x-fiducia-org-id'', orgId)]) @
              (case key of None \<Rightarrow> [] | Some k \<Rightarrow> [(js ''authorization'', js ''Bearer '' @ k)]),
            fd_refusal = refusal\<rparr>)
         (cleartextRefusal hostname base (fo_internal o1 \<noteq> None \<or> key \<noteq> None) (fo_allowCleartext o1)))"

text \<open>A signal that can abort a waiting acquisition: its state, its reason, and the race of a timer against it.\<close>

record 'w abort_signal =
  sg_aborted :: "'w \<Rightarrow> bool"
  sg_reason :: "'w \<Rightarrow> thrown option"
  sg_race :: "js_number \<Rightarrow> 'w \<Rightarrow> bool \<times> 'w"

definition aborted :: "'w abort_signal option \<Rightarrow> 'w \<Rightarrow> bool" where
  "aborted sig w = (case sig of None \<Rightarrow> False | Some s \<Rightarrow> sg_aborted s w)"

text \<open>The flag is \<open>"aborted"\<close>.\<close>

definition sleepOrAbort :: "'w client_env \<Rightarrow> 'w abort_signal option \<Rightarrow> js_number \<Rightarrow> 'w \<Rightarrow> bool \<times> 'w" where
  "sleepOrAbort env sig ms w =
     (if aborted sig w then (True, w)
      else case sig of None \<Rightarrow> (False, ce_sleep env ms w) | Some s \<Rightarrow> sg_race s ms w)"

definition cancelledCause :: "'w abort_signal option \<Rightarrow> 'w \<Rightarrow> thrown" where
  "cancelledCause sig w =
     (case sig of None \<Rightarrow> cancelled_by_caller
      | Some s \<Rightarrow> (case sg_reason s w of None \<Rightarrow> cancelled_by_caller | Some r \<Rightarrow> r))"

definition asUint :: "js_value \<Rightarrow> nat option" where
  "asUint v = (case v of
       JNumber n \<Rightarrow> if is_safe_integer n \<and> 0 \<le> int_of_number n then Some (nat (int_of_number n)) else None
     | JString s \<Rightarrow> if all_digits s then Some (parse_dec s) else None
     | JBigInt i \<Rightarrow> if 0 \<le> i then Some (nat i) else None
     | _ \<Rightarrow> None)"

definition encodeWireInteger :: "int \<Rightarrow> thrown + js_value" where
  "encodeWireInteger i = (if i < 0 \<or> MAX_SAFE_INTEGER < i then Inl wire_range_error else Inr (JNumber (NInt i)))"

text \<open>The replacer of \<open>JSON.stringify\<close> on the members of a request.\<close>

fun wire_fields :: "(string \<times> js_value) list \<Rightarrow> thrown + (string \<times> js_value) list" where
  "wire_fields [] = Inr []"
| "wire_fields ((n, v) # fs) =
     and_then (case v of JBigInt i \<Rightarrow> encodeWireInteger i | _ \<Rightarrow> Inr v) (\<lambda>v'.
     and_then (wire_fields fs) (\<lambda>fs'. Inr ((n, v') # fs')))"

definition output_of :: "js_value \<Rightarrow> js_value" where
  "output_of parsed =
     (let output = get_prop (get_prop parsed ''result'') ''output'' in if is_object output then output else JObject [])"

definition fiducia_post ::
  "'w client_env \<Rightarrow> fiducia \<Rightarrow> string \<Rightarrow> (string \<times> js_value) list \<Rightarrow> ('w, thrown, js_value) action" where
  "fiducia_post env fd path body =
     (if fd_refusal fd then throw_st fiducia_refused
      else bind_st (lift_st (wire_fields body)) (\<lambda>fields.
      bind_st (ce_fetch env (fd_base fd @ js path)
         \<lparr>fi_method = js ''POST'', fi_headers = fd_headers fd, fi_body = ce_stringify env (object_literal fields),
          fi_redirect = js ''manual''\<rparr>) (\<lambda>response.
      bind_st (ft_text response) (\<lambda>answer.
      if 300 \<le> ft_status response then throw_st fiducia_http_error
      else if answer = [] then return_st (JObject [])
      else lift_st (map_sum id output_of (ce_parse env answer))))))"

abbreviation is_true :: "js_value \<Rightarrow> bool" where "is_true v \<equiv> v = JBool True"

definition release_fields :: "js_string \<Rightarrow> js_string \<Rightarrow> int \<Rightarrow> (string \<times> js_value) list" where
  "release_fields key holder tok =
     [(''key'', JString key), (''holder'', JString holder), (''fencing_token'', JBigInt tok)]"

definition cancel_fields :: "js_string \<Rightarrow> js_string \<Rightarrow> js_string \<Rightarrow> (string \<times> js_value) list" where
  "cancel_fields key holder requestId =
     [(''keys'', JArray [JString key]), (''holder'', JString holder), (''request_id'', JString requestId)]"

text \<open>The grant that a cancellation raced with; only a positive token of this holder is one.\<close>

definition raced_token :: "js_string \<Rightarrow> js_value \<Rightarrow> thrown + nat" where
  "raced_token holder grant =
     (if \<not> is_object grant then Inl raced_grant_missing
      else case asUint (get_prop grant ''fencing_token'') of
        None \<Rightarrow> Inl raced_grant_malformed
      | Some t \<Rightarrow>
          if get_prop grant ''holder'' \<noteq> JString holder \<or> t = 0 then Inl raced_grant_malformed else Inr t)"

definition cancelQueuedAcquire ::
  "'w client_env \<Rightarrow> fiducia \<Rightarrow> js_string \<Rightarrow> js_string \<Rightarrow> js_string \<Rightarrow> ('w, thrown, unit) action" where
  "cancelQueuedAcquire env fd key holder requestId =
     bind_st (fiducia_post env fd ''/v1/locks/cancel'' (cancel_fields key holder requestId)) (\<lambda>out.
     if is_true (get_prop out ''cancelled'') \<and> \<not> is_true (get_prop out ''acquired'') then return_st ()
     else if \<not> is_true (get_prop out ''acquired'') then throw_st unsafe_cancel_error
     else bind_st (lift_st (raced_token holder (get_prop out ''grant''))) (\<lambda>t.
          bind_st (fiducia_post env fd ''/v1/locks/release'' (release_fields key holder (int t))) (\<lambda>released.
          if \<not> is_true (get_prop released ''released'') then throw_st raced_release_noop else return_st ())))"

definition cancelBeforeTerminal ::
  "'w client_env \<Rightarrow> fiducia \<Rightarrow> js_string \<Rightarrow> js_string \<Rightarrow> js_string \<Rightarrow> thrown \<Rightarrow> ('w, thrown, client_grant) action" where
  "cancelBeforeTerminal env fd key holder requestId terminal =
     bind_st (catch_st (cancelQueuedAcquire env fd key holder requestId)
                (\<lambda>c. throw_st (transport key c (Some Fiducia_acquire)))) (\<lambda>_.
     throw_st terminal)"

definition acquire_fields :: "js_string \<Rightarrow> acquire_options \<Rightarrow> bool \<Rightarrow> js_string \<Rightarrow> js_string \<Rightarrow> (string \<times> js_value) list" where
  "acquire_fields key opts wait holder requestId =
     [(''key'', JString key), (''holder'', JString holder), (''ttl_ms'', JNumber (ao_ttlMs opts)),
      (''request_id'', JString requestId)] @
     (if wait then [(''wait_timeout_ms'', JNumber (ao_waitTimeoutMs opts))] else [])"

definition fiducia_grant :: "js_string \<Rightarrow> acquire_options \<Rightarrow> js_string \<Rightarrow> js_value \<Rightarrow> thrown + client_grant" where
  "fiducia_grant key opts holder out =
     (case asUint (get_prop out ''fencing_token'') of
        None \<Rightarrow> Inl (transport key fiducia_no_token None)
      | Some t \<Rightarrow>
          if t = 0 then Inl (transport key fiducia_no_token None)
          else Inr \<lparr>cg_key = key, cg_holder = holder, cg_fencingToken = int t, cg_ttlMs = ao_ttlMs opts,
                 cg_leaseExpiresMs = map_option number_of_nat (asUint (get_prop out ''lease_expires_ms''))\<rparr>)"

fun fiducia_loop ::
  "nat \<Rightarrow> 'w client_env \<Rightarrow> fiducia \<Rightarrow> 'w abort_signal option \<Rightarrow> js_string \<Rightarrow> acquire_options \<Rightarrow> bool \<Rightarrow> int \<Rightarrow>
   js_string \<Rightarrow> js_string \<Rightarrow> bool \<Rightarrow> 'w \<Rightarrow> ((thrown + client_grant) \<times> 'w) option" where
  "fiducia_loop 0 env fd sig key opts wait started holder rid attempted w = None"
| "fiducia_loop (Suc fuel) env fd sig key opts wait started holder rid attempted w =
     (let give_up = (\<lambda>terminal u. Some (cancelBeforeTerminal env fd key holder rid terminal u));
          cancelled = (\<lambda>u. transport key (cancelledCause sig u) (Some Fiducia_acquire))
      in if aborted sig w then (if \<not> attempted then Some (Inl (cancelled w), w) else give_up (cancelled w) w)
      else case fiducia_post env fd ''/v1/locks/acquire'' (acquire_fields key opts wait holder rid) w of
        (Inl c, w1) \<Rightarrow> Some (Inl (transport key c None), w1)
      | (Inr out, w1) \<Rightarrow>
          if is_true (get_prop out ''acquired'') then Some (fiducia_grant key opts holder out, w1)
          else if \<not> wait then Some (Inl (contention key Fiducia_try_acquire), w1)
          else if aborted sig w1 then give_up (cancelled w1) w1
          else let waited = ce_now env w1 - started in
          if num_less (ao_waitTimeoutMs opts) (num_add (NInt waited) (ao_retryIntervalMs opts))
          then give_up (timeout key Fiducia_acquire) w1
          else (case sleepOrAbort env sig (ao_retryIntervalMs opts) w1 of
             (ab, w2) \<Rightarrow>
               if ab \<and> sig \<noteq> None then give_up (cancelled w2) w2
               else fiducia_loop fuel env fd sig key opts wait started holder rid True w2))"

definition fiducia_acquire ::
  "'w client_env \<Rightarrow> fiducia \<Rightarrow> 'w abort_signal option \<Rightarrow> nat \<Rightarrow> js_string \<Rightarrow> acquire_options \<Rightarrow> bool \<Rightarrow> 'w \<Rightarrow>
   ((thrown + client_grant) \<times> 'w) option" where
  "fiducia_acquire env fd sig fuel key opts wait w =
     (case bind_st (given_or (ao_holder opts) (ce_holder env)) (\<lambda>holder.
           bind_st (given_or (ao_requestId opts) (ce_requestId env)) (\<lambda>requestId. return_st (holder, requestId))) w of
        (Inl e, w') \<Rightarrow> Some (Inl e, w')
      | (Inr (holder, requestId), w') \<Rightarrow>
          fiducia_loop fuel env fd sig key opts wait (ce_now env w') holder requestId False w')"

definition fiducia_renew :: "'w client_env \<Rightarrow> fiducia \<Rightarrow> client_grant \<Rightarrow> js_number \<Rightarrow> ('w, thrown, client_grant) action" where
  "fiducia_renew env fd grant ttlMs =
     bind_st (catch_st (fiducia_post env fd ''/v1/locks/renew''
          [(''key'', JString (cg_key grant)), (''holder'', JString (cg_holder grant)),
           (''fencing_token'', JBigInt (cg_fencingToken grant)), (''ttl_ms'', JNumber ttlMs)])
        (\<lambda>c. throw_st (transport (cg_key grant) c None))) (\<lambda>out.
     if \<not> is_true (get_prop out ''renewed'') then throw_st (lost_lease (cg_key grant) None)
     else return_st (renewed_grant grant ttlMs (map_option number_of_nat (asUint (get_prop out ''lease_expires_ms'')))))"

definition fiducia_release :: "'w client_env \<Rightarrow> fiducia \<Rightarrow> client_grant \<Rightarrow> ('w, thrown, bool) action" where
  "fiducia_release env fd grant =
     catch_st (bind_st (fiducia_post env fd ''/v1/locks/release''
          (release_fields (cg_key grant) (cg_holder grant) (cg_fencingToken grant)))
        (\<lambda>out. return_st (is_true (get_prop out ''released''))))
       (\<lambda>c. throw_st (transport (cg_key grant) c (Some Fiducia_release)))"

section \<open>Lemmas\<close>

lemma fiducia_grant_sound:
  "fiducia_grant key opts holder out = Inr g \<Longrightarrow>
   cg_key g = key \<and> cg_holder g = holder \<and> 0 < cg_fencingToken g \<and> cg_ttlMs g = ao_ttlMs opts"
  by (auto simp: fiducia_grant_def split: option.splits if_splits)

lemma cancelBeforeTerminal_throws: "\<exists>e u. cancelBeforeTerminal env fd key holder rid terminal w = (Inl e, u)"
  by (cases "cancelQueuedAcquire env fd key holder rid w"; cases "fst (cancelQueuedAcquire env fd key holder rid w)")
    (auto simp: cancelBeforeTerminal_def bind_st_apply catch_st_apply)

lemma give_up_no_grant: "cancelBeforeTerminal env fd key holder rid terminal w \<noteq> (Inr g, w')"
  using cancelBeforeTerminal_throws [of env fd key holder rid terminal w] by auto

lemma fiducia_loop_grant:
  "fiducia_loop fuel env fd sig key opts wait started holder rid att w = Some (Inr g, w') \<Longrightarrow>
   \<exists>out. fiducia_grant key opts holder out = Inr g"
proof (induction fuel arbitrary: att w)
  case (Suc fuel)
  then show ?case
    by (auto simp: Let_def give_up_no_grant split: prod.splits sum.splits if_splits)
qed simp

lemma fiducia_acquire_sound:
  assumes "fiducia_acquire env fd sig fuel key opts wait w = Some (Inr g, w')"
  shows "cg_key g = key \<and> (\<forall>h. ao_holder opts = Some h \<longrightarrow> cg_holder g = h) \<and> 0 < cg_fencingToken g \<and>
    cg_ttlMs g = ao_ttlMs opts"
proof -
  from assms obtain holder rid u where ids: "bind_st (given_or (ao_holder opts) (ce_holder env)) (\<lambda>holder.
      bind_st (given_or (ao_requestId opts) (ce_requestId env)) (\<lambda>requestId. return_st (holder, requestId))) w = (Inr (holder, rid), u)"
    and "fiducia_loop fuel env fd sig key opts wait (ce_now env u) holder rid False u = Some (Inr g, w')"
    by (auto simp: fiducia_acquire_def split: prod.splits sum.splits)
  from fiducia_loop_grant [OF this(2)] fiducia_grant_sound [of key opts holder _ g] identities_given [OF ids]
  show ?thesis by blast
qed

lemma fiducia_renew_identity:
  "fiducia_renew env fd g ttl w = (Inr g', w') \<Longrightarrow> client_identity g' = client_identity g \<and> cg_ttlMs g' = ttl"
  by (auto simp: fiducia_renew_def bind_st_eq_Inr split: if_splits)

interpretation fiducia_adapter: lease_adapter "fiducia_acquire env fd sig" "fiducia_renew env fd" for env fd sig
  by unfold_locales (auto dest: fiducia_acquire_sound fiducia_renew_identity)

text \<open>
  The node has settled a queued request: it confirmed the cancellation and no grant, or it reported
  the raced grant, and that grant was released under the holder and its own token.
\<close>

definition settled_cancel ::
  "'w client_env \<Rightarrow> fiducia \<Rightarrow> js_string \<Rightarrow> js_string \<Rightarrow> js_string \<Rightarrow> 'w \<Rightarrow> 'w \<Rightarrow> bool" where
  "settled_cancel env fd key holder rid u w' \<longleftrightarrow>
     (\<exists>out v. fiducia_post env fd ''/v1/locks/cancel'' (cancel_fields key holder rid) u = (Inr out, v) \<and>
        (is_true (get_prop out ''cancelled'') \<and> \<not> is_true (get_prop out ''acquired'') \<and> v = w' \<or>
         is_true (get_prop out ''acquired'') \<and>
         (\<exists>t released. raced_token holder (get_prop out ''grant'') = Inr t \<and> 0 < t \<and>
            fiducia_post env fd ''/v1/locks/release'' (release_fields key holder (int t)) v = (Inr released, w') \<and>
            is_true (get_prop released ''released''))))"

lemma raced_token_pos: "raced_token holder v = Inr t \<Longrightarrow> 0 < t"
  by (auto simp: raced_token_def split: option.splits if_splits)

lemma cancelQueuedAcquire_settles:
  "cancelQueuedAcquire env fd key holder rid u = (Inr x, w') \<Longrightarrow> settled_cancel env fd key holder rid u w'"
  by (auto simp: cancelQueuedAcquire_def settled_cancel_def bind_st_eq_Inr dest: raced_token_pos split: if_splits)

lemma give_up_cases:
  assumes "cancelBeforeTerminal env fd key holder rid terminal u = (Inl e, w')"
  obtains "e = terminal" "settled_cancel env fd key holder rid u w'"
  | c where "cancelQueuedAcquire env fd key holder rid u = (Inl c, w')" "e = transport key c (Some Fiducia_acquire)"
  using assms
  by (cases "cancelQueuedAcquire env fd key holder rid u"; cases "fst (cancelQueuedAcquire env fd key holder rid u)")
    (auto simp: cancelBeforeTerminal_def bind_st_apply catch_st_apply intro: cancelQueuedAcquire_settles)

text \<open>How an acquisition can end without a grant.\<close>

definition ends_without_grant ::
  "'w client_env \<Rightarrow> fiducia \<Rightarrow> 'w abort_signal option \<Rightarrow> js_string \<Rightarrow> bool \<Rightarrow> js_string \<Rightarrow> js_string \<Rightarrow> thrown \<Rightarrow> 'w \<Rightarrow> bool" where
  "ends_without_grant env fd sig key wait holder rid e w' \<longleftrightarrow>
     (\<exists>c. e = transport key c None) \<or> (\<not> wait \<and> e = contention key Fiducia_try_acquire) \<or>
     (\<exists>u. settled_cancel env fd key holder rid u w' \<and>
        (wait \<and> e = timeout key Fiducia_acquire \<or> e = transport key (cancelledCause sig u) (Some Fiducia_acquire))) \<or>
     (\<exists>u c. cancelQueuedAcquire env fd key holder rid u = (Inl c, w') \<and> e = transport key c (Some Fiducia_acquire))"

lemma give_up_ends:
  assumes "Some (cancelBeforeTerminal env fd key holder rid terminal u) = Some (Inl e, w')"
    and "(wait \<and> terminal = timeout key Fiducia_acquire) \<or> terminal = transport key (cancelledCause sig u) (Some Fiducia_acquire)"
  shows "ends_without_grant env fd sig key wait holder rid e w'"
proof -
  from assms(1) have "cancelBeforeTerminal env fd key holder rid terminal u = (Inl e, w')" by simp
  then show ?thesis
    by (cases rule: give_up_cases) (use assms(2) in \<open>auto simp: ends_without_grant_def\<close>)
qed

lemma fiducia_loop_ends_without_grant:
  "fiducia_loop fuel env fd sig key opts wait started holder rid att w = Some (Inl e, w') \<Longrightarrow>
   (\<not> att \<and> aborted sig w \<and> w' = w \<and> e = transport key (cancelledCause sig w) (Some Fiducia_acquire)) \<or>
   ends_without_grant env fd sig key wait holder rid e w'"
proof (induction fuel arbitrary: att w)
  case (Suc fuel)
  show ?case
  proof (cases "aborted sig w")
    case True
    with Suc.prems give_up_ends [of env fd key holder rid "transport key (cancelledCause sig w) (Some Fiducia_acquire)" w e w' wait sig]
    show ?thesis by (cases att) (auto simp: Let_def)
  next
    case False
    obtain r w1 where post: "fiducia_post env fd ''/v1/locks/acquire'' (acquire_fields key opts wait holder rid) w = (r, w1)"
      by fastforce
    show ?thesis
    proof (cases r)
      case (Inl c)
      with post False Suc.prems show ?thesis by (auto simp: ends_without_grant_def)
    next
      case (Inr out)
      obtain ab w2 where sl: "sleepOrAbort env sig (ao_retryIntervalMs opts) w1 = (ab, w2)" by fastforce
      have later: "ends_without_grant env fd sig key wait holder rid e w'"
        if "fiducia_loop fuel env fd sig key opts wait started holder rid True w2 = Some (Inl e, w')"
        using Suc.IH [OF that] by simp
      have grant: "ends_without_grant env fd sig key wait holder rid e w'" if "fiducia_grant key opts holder out = Inl e"
        using that by (auto simp: fiducia_grant_def ends_without_grant_def split: option.splits if_splits)
      have "ends_without_grant env fd sig key wait holder rid e w'"
        using Suc.prems post Inr False sl later grant
          give_up_ends [of env fd key holder rid "transport key (cancelledCause sig w1) (Some Fiducia_acquire)" w1 e w' wait sig]
          give_up_ends [of env fd key holder rid "transport key (cancelledCause sig w2) (Some Fiducia_acquire)" w2 e w' wait sig]
          give_up_ends [of env fd key holder rid "timeout key Fiducia_acquire" w1 e w' wait sig]
        by (simp add: Let_def split: if_splits) (auto simp: ends_without_grant_def)
      then show ?thesis ..
    qed
  qed
qed simp

section \<open>Properties\<close>

text \<open>C14: giving up is reconciled with the node. An acquisition that ends in a timeout or in the caller's
  cancellation reports that only after the node has settled the queued request: it confirmed the
  cancellation and no grant, or it reported the grant the cancellation raced with, under this
  holder and a positive token, and that grant was released. If that fails the error is a transport
  error with the failure as its cause. The only other ends without a grant are a failed or
  malformed answer to an attempt, contention when the caller does not wait, and a signal that was
  aborted before anything was sent.\<close>

theorem fiducia_gives_up_safely:
  assumes "fiducia_acquire env fd sig fuel key opts wait w = Some (Inl e, w')"
    and "ao_holder opts = Some holder" and "ao_requestId opts = Some rid"
  shows "(aborted sig w \<and> w' = w \<and> e = transport key (cancelledCause sig w) (Some Fiducia_acquire)) \<or>
    (\<exists>c. e = transport key c None) \<or> (\<not> wait \<and> e = contention key Fiducia_try_acquire) \<or>
    (\<exists>u. settled_cancel env fd key holder rid u w' \<and>
       (wait \<and> e = timeout key Fiducia_acquire \<or> e = transport key (cancelledCause sig u) (Some Fiducia_acquire))) \<or>
    (\<exists>u c. cancelQueuedAcquire env fd key holder rid u = (Inl c, w') \<and> e = transport key c (Some Fiducia_acquire))"
proof -
  from assms have "fiducia_loop fuel env fd sig key opts wait (ce_now env w) holder rid False w = Some (Inl e, w')"
    by (simp add: fiducia_acquire_def given_or_def bind_st_apply)
  from fiducia_loop_ends_without_grant [OF this] show ?thesis unfolding ends_without_grant_def by blast
qed

text \<open>A node that answers every acquisition with "queued" and confirms cancellations.\<close>

definition queue_env :: "int client_env" where
  "queue_env = \<lparr>
     ce_fetch = (\<lambda>url init now. (Inr \<lparr>ft_status = 200, ft_text = return_st [49]\<rparr>, now)),
     ce_now = (\<lambda>now. now), ce_sleep = (\<lambda>ms now. now + 100), ce_holder = return_st [104], ce_requestId = return_st [114],
     ce_stringify = (\<lambda>_. [49]),
     ce_parse = (\<lambda>_. Inr (object_literal [(''result'', object_literal [(''output'',
        object_literal [(''acquired'', JBool False), (''cancelled'', JBool True)])])]))\<rparr>"

definition open_fiducia :: fiducia where
  "open_fiducia = \<lparr>fd_base = js ''https://fiducia.example'', fd_headers = [], fd_refusal = False\<rparr>"

definition queued_options :: acquire_options where
  "queued_options = \<lparr>ao_ttlMs = NInt 1000, ao_waitTimeoutMs = NInt 150, ao_retryIntervalMs = NInt 100,
     ao_holder = Some [104], ao_requestId = Some [114]\<rparr>"

lemma queue_post: "list_all (\<lambda>(n, v). \<forall>i. v \<noteq> JBigInt i) body \<Longrightarrow> fiducia_post queue_env open_fiducia path body now =
   (Inr (object_literal [(''acquired'', JBool False), (''cancelled'', JBool True)]), now)"
proof -
  assume "list_all (\<lambda>(n, v). \<forall>i. v \<noteq> JBigInt i) body"
  then have "wire_fields body = Inr body"
    by (induction body) (auto split: js_value.split)
  then show ?thesis
    by (simp add: fiducia_post_def open_fiducia_def bind_st_apply queue_env_def output_of_def get_prop_literal)
      (simp add: object_literal_def)
qed

theorem fiducia_gives_up_safely_witness:
  "fiducia_acquire queue_env open_fiducia None 2 [107] queued_options True 0 = Some (Inl (timeout [107] Fiducia_acquire), 100) \<and>
   (\<exists>u. settled_cancel queue_env open_fiducia [107] [104] [114] u 100)"
proof -
  have run: "fiducia_acquire queue_env open_fiducia None (Suc (Suc 0)) [107] queued_options True 0 =
      Some (Inl (timeout [107] Fiducia_acquire), 100)"
    by (simp add: fiducia_acquire_def queued_options_def given_or_def bind_st_apply aborted_def acquire_fields_def queue_post
        get_prop_literal sleepOrAbort_def cancelBeforeTerminal_def catch_st_apply cancelQueuedAcquire_def cancel_fields_def)
      (simp add: queue_env_def)
  from fiducia_gives_up_safely [OF run, of "[104]" "[114]"]
  have "\<exists>u. settled_cancel queue_env open_fiducia [107] [104] [114] u 100"
    by (auto simp: queued_options_def aborted_def error_constructors)
  with run show ?thesis by (simp add: numeral_2_eq_2)
qed

text \<open>No credential is sent over cleartext to a host that is not local. An adapter built with a
  credential for a base URL that starts with \<open>http://\<close> and without the explicit permission either
  could not be built, or its host is local (loopback or one of the local suffixes), or every post
  throws before \<open>fetch\<close> is called and leaves the world unchanged.\<close>

theorem fiducia_cleartext_refused:
  assumes "fiducia_lease hostname o1 = Inr fd"
    and "fo_internal o1 \<noteq> None \<or> (\<exists>k. fo_apiKey o1 = Some k \<and> k \<noteq> [])"
    and "\<not> fo_allowCleartext o1" and "take 7 (strip_slashes (fo_baseUrl o1)) = js ''http://''"
  shows "(\<exists>host. hostname (fd_base fd) = Inr host \<and> local_host host) \<or>
    fiducia_post env fd path body w = (Inl fiducia_refused, w)"
  using assms
  by (cases "hostname (strip_slashes (fo_baseUrl o1))")
    (auto simp: fiducia_lease_def cleartextRefusal_def fiducia_post_def Let_def map_sum.simps split: option.splits if_splits)

definition sample_hostname :: "js_string \<Rightarrow> thrown + js_string" where
  "sample_hostname url = Inr (drop 7 url)"

definition sample_fiducia_options :: fiducia_options where
  "sample_fiducia_options = \<lparr>fo_baseUrl = js ''http://fiducia.example/'', fo_internal = None, fo_apiKey = Some [107],
     fo_allowCleartext = False\<rparr>"

theorem fiducia_cleartext_refused_witness:
  "\<exists>fd. fiducia_lease sample_hostname sample_fiducia_options = Inr fd \<and>
     fiducia_post queue_env fd ''/v1/locks/acquire'' [] 5 = (Inl fiducia_refused, 5)"
proof -
  have base: "strip_slashes (js ''http://fiducia.example/'') = js ''http://fiducia.example''"
    by (simp add: strip_slashes_def js_simps)
  have prefix: "take 7 (js ''http://fiducia.example'') = js ''http://''" by (simp add: js_def)
  obtain fd where fd: "fiducia_lease sample_hostname sample_fiducia_options = Inr fd" "fd_base fd = js ''http://fiducia.example''"
    by (simp add: fiducia_lease_def cleartextRefusal_def sample_fiducia_options_def sample_hostname_def base prefix Let_def)
  have host: "sample_hostname (fd_base fd) = Inr (js ''fiducia.example'')"
    by (simp add: fd sample_hostname_def js_def)
  have foreign: "\<not> local_host (js ''fiducia.example'')"
    by (simp add: local_host_def LOCAL_SUFFIXES_def ends_with_def js_simps)
  have "take 7 (strip_slashes (fo_baseUrl sample_fiducia_options)) = js ''http://''"
    by (simp add: sample_fiducia_options_def base prefix)
  from fiducia_cleartext_refused [OF fd(1) _ _ this, of queue_env "''/v1/locks/acquire''" "[]" 5] host foreign fd(1)
  show ?thesis by (auto simp: sample_fiducia_options_def)
qed

text \<open>A token above 2^53 - 1 is accepted and then stuck. The node may answer with a token as decimal
  text of any size and the adapter grants it; but a request with such a token cannot be encoded,
  so every renewal and every release of that grant throws without a call to the node, which keeps
  the lease until its time to live has passed.\<close>

theorem fiducia_wide_token_stuck:
  assumes "positive_decimal s" and "MAX_SAFE_INTEGER < int (parse_dec s)" and "\<not> fd_refusal fd"
    and "get_prop out ''fencing_token'' = JString s"
  shows "\<exists>g. fiducia_grant key opts holder out = Inr g \<and> cg_fencingToken g = int (parse_dec s) \<and>
    fiducia_renew env fd g ttl w = (Inl (transport key wire_range_error None), w) \<and>
    fiducia_release env fd g w = (Inl (transport key wire_range_error (Some Fiducia_release)), w)"
proof -
  have "asUint (JString s) = Some (parse_dec s)" "parse_dec s \<noteq> 0"
    using assms(1) positive_decimal_parse [of s, THEN conjunct1] by (simp_all add: asUint_def positive_decimal_def)
  then show ?thesis
    using assms(2-4)
    by (simp add: fiducia_grant_def fiducia_renew_def fiducia_release_def fiducia_post_def release_fields_def
        encodeWireInteger_def bind_st_apply catch_st_apply)
qed

theorem fiducia_wide_token_stuck_witness:
  "\<exists>g. fiducia_grant [107] queued_options [104] (object_literal [(''fencing_token'', JString (js ''9007199254740992''))]) = Inr g \<and>
     fiducia_release queue_env open_fiducia g 7 = (Inl (transport [107] wire_range_error (Some Fiducia_release)), 7)"
proof -
  let ?s = "js ''9007199254740992''"
  have s: "positive_decimal ?s" "MAX_SAFE_INTEGER < int (parse_dec ?s)"
    by (simp_all add: positive_decimal_def all_digits_def is_digit_def js_simps parse_dec_def digit_value_def MAX_SAFE_INTEGER_def)
  from fiducia_wide_token_stuck [OF s, of open_fiducia "object_literal [(''fencing_token'', JString ?s)]" "[107]" queued_options
      "[104]" queue_env "NInt 1" 7]
  show ?thesis by (auto simp: open_fiducia_def get_prop_literal)
qed

text \<open>Generated identities consist of visible ASCII units.\<close>

definition visible_unit :: "code_unit \<Rightarrow> bool" where
  "visible_unit u \<longleftrightarrow> 32 < u \<and> u < 127"

lemma visible_unit_plain: "visible_unit u \<Longrightarrow> \<not> js_whitespace u \<and> \<not> control_unit u"
  by (auto simp: visible_unit_def js_whitespace_def control_unit_def word_less_nat_alt word_le_nat_alt)

lemma hex_unit_visible: "d < 16 \<Longrightarrow> visible_unit (hex_unit d)"
  by (auto simp: visible_unit_def hex_unit_def word_less_nat_alt unat_of_nat simp del: of_nat_add)

lemma hex_byte_visible: "list_all visible_unit (hex_byte b)"
proof -
  have "unat b < 16 * 16" using unsigned_less [of b] by simp
  then have "unat b div 16 < 16" by (rule less_mult_imp_div_less)
  then show ?thesis by (simp add: hex_byte_def hex_unit_visible)
qed

lemma visible_identity_text:
  assumes "list_all visible_unit s" and "s \<noteq> []" and "4 * length s \<le> n"
  shows "identity_text n s"
proof -
  have plain: "\<not> js_whitespace u \<and> \<not> control_unit u" if "u \<in> set s" for u
    using that assms(1) visible_unit_plain by (simp add: list_all_iff)
  then have "js_trim s = s" using assms(2) by (simp add: js_trim_id_iff)
  moreover have "\<not> list_ex control_unit s" using plain by (auto simp: list_ex_iff)
  moreover have "length (text_encode s) \<le> n"
    using text_encode_length [of s] scalars_length [of s] assms(3) by linarith
  ultimately show ?thesis using assms(2) by (simp add: identity_text_def)
qed

lemma generatedIdentity_visible:
  "list_all visible_unit prefix \<Longrightarrow> list_all visible_unit (generatedIdentity prefix bytes)"
  using hex_byte_visible by (induction bytes) (auto simp: generatedIdentity_def)

lemma generatedIdentity_length: "length (generatedIdentity prefix bytes) = length prefix + 2 * length bytes"
  by (induction bytes) (auto simp: generatedIdentity_def hex_byte_length)

lemma identity_prefixes:
  "list_all visible_unit (js ''ores-locks-'')" "list_all visible_unit (js ''ores-lock-request-'')"
  "length (js ''ores-locks-'') = 11" "length (js ''ores-lock-request-'') = 18"
  by (simp_all add: js_simps visible_unit_def)

text \<open>C34: generated identities are well formed for the authority and as distinct as their random bytes.
  The holder and the request identity that the adapters generate from 16 random bytes pass the
  Durable Object authority's validation of holders and request identities, and two of them are
  equal only if all their bytes are.\<close>

theorem generated_identities_accepted:
  assumes "length bytes = 16"
  shows "validHolder (JString (generatedHolder bytes)) \<and> validRequestId (JString (generatedRequestId bytes)) \<and>
    (generatedHolder bytes = generatedHolder other \<longleftrightarrow> bytes = other) \<and>
    (generatedRequestId bytes = generatedRequestId other \<longleftrightarrow> bytes = other)"
proof -
  note visible = generatedIdentity_visible [OF identity_prefixes(1), of bytes] generatedIdentity_visible [OF identity_prefixes(2), of bytes]
  have len: "length (generatedHolder bytes) = 43" "length (generatedRequestId bytes) = 50"
    using assms by (simp_all add: generatedHolder_def generatedRequestId_def generatedIdentity_length identity_prefixes)
  then have "generatedHolder bytes \<noteq> []" "generatedRequestId bytes \<noteq> []" by auto
  with visible len have "identity_text MAX_HOLDER_BYTES (generatedHolder bytes)"
    "identity_text MAX_REQUEST_ID_BYTES (generatedRequestId bytes)"
    by (auto intro!: visible_identity_text simp: MAX_HOLDER_BYTES_def MAX_REQUEST_ID_BYTES_def generatedHolder_def generatedRequestId_def)
  moreover have "generatedIdentity p bytes = generatedIdentity p other \<longleftrightarrow> bytes = other" for p
    using concat_hex_inj by (auto simp: generatedIdentity_def)
  ultimately show ?thesis
    by (simp add: validHolder_def validRequestId_def validIdentity_def generatedHolder_def generatedRequestId_def)
qed

theorem generated_identities_accepted_witness:
  "length (replicate 16 (7 :: byte)) = 16 \<and> validHolder (JString (generatedHolder (replicate 16 7))) \<and>
   generatedHolder (replicate 16 7) \<noteq> generatedHolder (replicate 16 8)"
proof -
  have "replicate 16 (7 :: byte) \<noteq> replicate 16 8" by simp
  with generated_identities_accepted [of "replicate 16 7" "replicate 16 8"] show ?thesis by simp
qed

end
