(* ===== verification/Redlock.thy ===== *)
theory Redlock
  imports Fiducia
begin

text \<open>
  \<open>src/ts/src/redlock.ts\<close>: a Redlock lease made safe by an independent source of fencing tokens. The
  Redlock client, its handles, the token source, the clock and the timer are arguments; the map of
  held handles is the adapter's own state. The theorems: a grant is only given while its validity
  window is open, after its token was minted, and whenever no grant is given after a handle was
  won that handle is released; tokens of successive grants increase when the token source is the
  strictly ordered one the interface asks for; and a lost grant stays lost.
\<close>

section \<open>Definitions\<close>

abbreviation non_positive_token :: thrown where "non_positive_token \<equiv> Thrown_error 341"

datatype redlock_kind = Redlock_contention | Redlock_transport

record ('w, 'h) redlock_env =
  rk_acquire :: "js_string \<Rightarrow> js_number \<Rightarrow> ('w, thrown, 'h) action"
  rk_expiration :: "'h \<Rightarrow> js_number"
  rk_extend :: "'h \<Rightarrow> js_number \<Rightarrow> ('w, thrown, 'h) action"
  rk_release :: "'h \<Rightarrow> ('w, thrown, unit) action"
  rk_next :: "js_string \<Rightarrow> js_string \<Rightarrow> js_string option \<Rightarrow> ('w, thrown, int) action"
  rk_classify :: "thrown \<Rightarrow> thrown + redlock_kind"
  rk_now :: "'w \<Rightarrow> js_number"
  rk_sleep :: "js_number \<Rightarrow> ('w, thrown, unit) action"
  rk_holder :: "('w, thrown, js_string) action"

text \<open>The world and the adapter's map \<open>#held\<close>.\<close>

record ('w, 'h) redlock_state =
  rs_world :: 'w
  rs_held :: "js_string \<rightharpoonup> 'h \<times> client_grant"

definition in_world :: "('w, thrown, 'a) action \<Rightarrow> (('w, 'h) redlock_state, thrown, 'a) action" where
  "in_world f s = (case f (rs_world s) of (r, w) \<Rightarrow> (r, s\<lparr>rs_world := w\<rparr>))"

definition grantId :: "client_grant \<Rightarrow> js_string" where
  "grantId g = cg_key g @ [0] @ cg_holder g @ [0] @ dec_int (cg_fencingToken g)"

definition validExpiration :: "js_number \<Rightarrow> js_number \<Rightarrow> bool" where
  "validExpiration expiration now \<longleftrightarrow> is_safe_integer expiration \<and> num_less now expiration"

text \<open>The release of a handle whose failure nobody hears about.\<close>

definition releaseBestEffort :: "('w, 'h) redlock_env \<Rightarrow> 'h \<Rightarrow> (('w, 'h) redlock_state, thrown, unit) action" where
  "releaseBestEffort rk h = catch_st (in_world (rk_release rk h)) (\<lambda>_. return_st ())"

definition num_sub :: "js_number \<Rightarrow> js_number \<Rightarrow> js_number" where
  "num_sub a b = num_add a (case b of NInt i \<Rightarrow> NInt (- i) | NFrac r \<Rightarrow> NFrac (- r) | NNaN \<Rightarrow> NNaN | NInf p \<Rightarrow> NInf (\<not> p))"

definition num_min :: "js_number \<Rightarrow> js_number \<Rightarrow> js_number" where
  "num_min a b = (if a = NNaN \<or> b = NNaN then NNaN else if num_less b a then b else a)"

definition non_negative :: "js_number \<Rightarrow> bool" where
  "non_negative n \<longleftrightarrow> is_safe_integer n \<and> 0 \<le> int_of_number n"

text \<open>What follows a won handle: the window, the token, the window again.\<close>

definition redlock_grant ::
  "('w, 'h) redlock_env \<Rightarrow> js_string \<Rightarrow> acquire_options \<Rightarrow> js_string \<Rightarrow> 'h \<Rightarrow>
   (('w, 'h) redlock_state, thrown, client_grant) action" where
  "redlock_grant rk key opts holder handle =
     (\<lambda>s. if \<not> validExpiration (rk_expiration rk handle) (rk_now rk (rs_world s))
       then bind_st (releaseBestEffort rk handle) (\<lambda>_. throw_st (lost_lease key None)) s
       else bind_st
         (catch_st
           (bind_st (in_world (rk_next rk key holder (ao_requestId opts))) (\<lambda>t.
            if t \<le> 0 then throw_st non_positive_token else return_st t))
           (\<lambda>c. bind_st (releaseBestEffort rk handle) (\<lambda>_. throw_st (transport key c (Some Fiducia_acquire)))))
         (\<lambda>fencingToken s1.
            if \<not> validExpiration (rk_expiration rk handle) (rk_now rk (rs_world s1))
            then bind_st (releaseBestEffort rk handle) (\<lambda>_. throw_st (lost_lease key None)) s1
            else let grant = \<lparr>cg_key = key, cg_holder = holder, cg_fencingToken = fencingToken, cg_ttlMs = ao_ttlMs opts,
                       cg_leaseExpiresMs = Some (rk_expiration rk handle)\<rparr>
                 in (Inr grant, s1\<lparr>rs_held := (rs_held s1)(grantId grant \<mapsto> (handle, grant))\<rparr>))
         s)"

fun redlock_loop ::
  "nat \<Rightarrow> ('w, 'h) redlock_env \<Rightarrow> js_string \<Rightarrow> acquire_options \<Rightarrow> bool \<Rightarrow> js_string \<Rightarrow> js_number \<Rightarrow>
   ('w, 'h) redlock_state \<Rightarrow> ((thrown + client_grant) \<times> ('w, 'h) redlock_state) option" where
  "redlock_loop 0 rk key opts wait holder started s = None"
| "redlock_loop (Suc fuel) rk key opts wait holder started s =
     (case in_world (rk_acquire rk key (ao_ttlMs opts)) s of
        (Inr handle, s1) \<Rightarrow> Some (redlock_grant rk key opts holder handle s1)
      | (Inl err, s1) \<Rightarrow>
          (case rk_classify rk err of
             Inl e \<Rightarrow> Some (Inl e, s1)
           | Inr Redlock_transport \<Rightarrow> Some (Inl (transport key err (Some (acquire_step wait))), s1)
           | Inr Redlock_contention \<Rightarrow>
               if \<not> wait then Some (Inl (contention key Fiducia_try_acquire), s1)
               else let waited = num_sub (rk_now rk (rs_world s1)) started in
               if num_ge waited (ao_waitTimeoutMs opts) then Some (Inl (timeout key Fiducia_acquire), s1)
               else (case in_world (rk_sleep rk (num_min (ao_retryIntervalMs opts) (num_sub (ao_waitTimeoutMs opts) waited))) s1 of
                  (Inl e, s2) \<Rightarrow> Some (Inl e, s2)
                | (Inr _, s2) \<Rightarrow> redlock_loop fuel rk key opts wait holder started s2)))"

definition redlock_acquire ::
  "('w, 'h) redlock_env \<Rightarrow> nat \<Rightarrow> js_string \<Rightarrow> acquire_options \<Rightarrow> bool \<Rightarrow> ('w, 'h) redlock_state \<Rightarrow>
   ((thrown + client_grant) \<times> ('w, 'h) redlock_state) option" where
  "redlock_acquire rk fuel key opts wait s =
     (if \<not> (is_safe_integer (ao_ttlMs opts) \<and> 0 < int_of_number (ao_ttlMs opts)) then Some (Inl (invalidPlan key), s)
      else if \<not> non_negative (ao_retryIntervalMs opts) then Some (Inl (invalidPlan key), s)
      else if \<not> non_negative (ao_waitTimeoutMs opts) then Some (Inl (invalidPlan key), s)
      else case in_world (given_or (ao_holder opts) (rk_holder rk)) s of
        (Inl e, s1) \<Rightarrow> Some (Inl e, s1)
      | (Inr holder, s1) \<Rightarrow> redlock_loop fuel rk key opts wait holder (rk_now rk (rs_world s1)) s1)"

definition forget :: "js_string \<Rightarrow> ('w, 'h) redlock_state \<Rightarrow> ('w, 'h) redlock_state" where
  "forget i s = s\<lparr>rs_held := (rs_held s)(i := None)\<rparr>"

definition redlock_renew ::
  "('w, 'h) redlock_env \<Rightarrow> client_grant \<Rightarrow> js_number \<Rightarrow> (('w, 'h) redlock_state, thrown, client_grant) action" where
  "redlock_renew rk grant ttlMs s =
     (if \<not> (is_safe_integer ttlMs \<and> 0 < int_of_number ttlMs) then (Inl (invalidPlan (cg_key grant)), s)
      else case rs_held s (grantId grant) of
        None \<Rightarrow> (Inl (lost_lease (cg_key grant) None), s)
      | Some (handle, _) \<Rightarrow>
          (case in_world (rk_extend rk handle ttlMs) s of
             (Inl e, s1) \<Rightarrow> (Inl (Thrown_lock (LockError Lost_lease (cg_key grant) None (Cause e))), forget (grantId grant) s1)
           | (Inr handle', s1) \<Rightarrow>
               if \<not> validExpiration (rk_expiration rk handle') (rk_now rk (rs_world s1))
               then bind_st (releaseBestEffort rk handle') (\<lambda>_. throw_st (lost_lease (cg_key grant) None))
                      (forget (grantId grant) s1)
               else let renewed = renewed_grant grant ttlMs (Some (rk_expiration rk handle'))
                    in (Inr renewed, s1\<lparr>rs_held := (rs_held s1)(grantId grant \<mapsto> (handle', renewed))\<rparr>)))"

definition redlock_release :: "('w, 'h) redlock_env \<Rightarrow> client_grant \<Rightarrow> (('w, 'h) redlock_state, thrown, bool) action" where
  "redlock_release rk grant s =
     (case rs_held s (grantId grant) of
        None \<Rightarrow> (Inr False, s)
      | Some (handle, _) \<Rightarrow>
          (case in_world (rk_release rk handle) s of
             (Inl e, s1) \<Rightarrow> (Inl (transport (cg_key grant) e (Some Fiducia_release)), s1)
           | (Inr _, s1) \<Rightarrow> (Inr True, forget (grantId grant) s1)))"

section \<open>Lemmas\<close>

lemma in_world_apply:
  "in_world f s = (fst (f (rs_world s)), s\<lparr>rs_world := snd (f (rs_world s))\<rparr>)"
  by (simp add: in_world_def split: prod.split)

lemma releaseBestEffort_apply:
  "releaseBestEffort rk h s = (Inr (), s\<lparr>rs_world := snd (rk_release rk h (rs_world s))\<rparr>)"
  by (simp add: releaseBestEffort_def catch_st_apply in_world_apply split: sum.split)

text \<open>After a won handle: a grant, recorded, under an open window and the token just minted; or the release of the handle.\<close>

lemma redlock_grant_cases:
  assumes "redlock_grant rk key opts holder h s = (r, s')"
  obtains (granted) g where "r = Inr g" "cg_key g = key" "cg_holder g = holder" "cg_ttlMs g = ao_ttlMs opts"
      "cg_leaseExpiresMs g = Some (rk_expiration rk h)" "0 < cg_fencingToken g"
      "rk_next rk key holder (ao_requestId opts) (rs_world s) = (Inr (cg_fencingToken g), rs_world s')"
      "validExpiration (rk_expiration rk h) (rk_now rk (rs_world s))"
      "validExpiration (rk_expiration rk h) (rk_now rk (rs_world s'))"
      "rs_held s' = (rs_held s)(grantId g \<mapsto> (h, g))"
  | (released) e u where "r = Inl e" "rs_held s' = rs_held s" "rs_world s' = snd (rk_release rk h u)"
      "u = rs_world s \<or> u = snd (rk_next rk key holder (ao_requestId opts) (rs_world s))"
proof -
  obtain t w1 where mint: "rk_next rk key holder (ao_requestId opts) (rs_world s) = (t, w1)" by fastforce
  let ?exp = "rk_expiration rk h"
  note run = assms [unfolded redlock_grant_def]
  show thesis
  proof (cases "validExpiration ?exp (rk_now rk (rs_world s))")
    case False
    with run have "r = Inl (lost_lease key None)" "s' = s\<lparr>rs_world := snd (rk_release rk h (rs_world s))\<rparr>"
      by (simp_all add: bind_st_apply releaseBestEffort_apply)
    then show thesis by (intro released [of "lost_lease key None" "rs_world s"]) simp_all
  next
    case open_window: True
    show thesis
    proof (cases "\<exists>tok. t = Inr tok \<and> 0 < tok \<and> validExpiration ?exp (rk_now rk w1)")
      case True
      then obtain tok where tok: "t = Inr tok" "0 < tok" "validExpiration ?exp (rk_now rk w1)" by blast
      let ?g = "\<lparr>cg_key = key, cg_holder = holder, cg_fencingToken = tok, cg_ttlMs = ao_ttlMs opts,
          cg_leaseExpiresMs = Some ?exp\<rparr>"
      have "r = Inr ?g" "s' = s\<lparr>rs_world := w1, rs_held := (rs_held s)(grantId ?g \<mapsto> (h, ?g))\<rparr>"
        using run open_window tok mint by (simp_all add: bind_st_apply catch_st_apply in_world_apply Let_def)
      then show thesis using tok mint open_window by (intro granted [of ?g]) simp_all
    next
      case False
      then have "\<exists>e. r = Inl e \<and> s' = s\<lparr>rs_world := snd (rk_release rk h w1)\<rparr>"
        using run open_window mint
        by (cases t) (auto simp: bind_st_apply catch_st_apply in_world_apply releaseBestEffort_apply split: if_splits)
      then show thesis using mint by (auto intro: released [of _ w1])
    qed
  qed
qed

text \<open>
  The loop waits through failed acquisitions and sleeps, which may be summed up by any reflexive
  and transitive relation \<open>R\<close>, until it gives up or wins a handle.
\<close>

definition carries :: "('w \<Rightarrow> 'w \<Rightarrow> bool) \<Rightarrow> ('w, 'h) redlock_env \<Rightarrow> bool" where
  "carries R rk \<longleftrightarrow> reflp R \<and> transp R \<and>
     (\<forall>k t w e w'. rk_acquire rk k t w = (Inl e, w') \<longrightarrow> R w w') \<and>
     (\<forall>ms w. R w (snd (rk_sleep rk ms w))) \<and> (\<forall>w. R w (snd (rk_holder rk w)))"

lemma carriesD:
  assumes "carries R rk"
  shows "R w w" "R u v \<Longrightarrow> R v w \<Longrightarrow> R u w" "rk_acquire rk k t w = (Inl e, w') \<Longrightarrow> R w w'"
    "R w (snd (rk_sleep rk ms w))" "R w (snd (rk_holder rk w))"
  using assms by (auto simp: carries_def reflp_def transp_def)

lemma redlock_loop_cases:
  assumes run: "redlock_loop fuel rk key opts wait holder started s = Some (r, s')" and R: "carries R rk"
  shows "(\<exists>u h v. R (rs_world s) u \<and> rk_acquire rk key (ao_ttlMs opts) u = (Inr h, v) \<and>
       redlock_grant rk key opts holder h \<lparr>rs_world = v, rs_held = rs_held s\<rparr> = (r, s')) \<or>
     (\<exists>e. r = Inl e) \<and> rs_held s' = rs_held s \<and> R (rs_world s) (rs_world s')"
  using run
proof (induction fuel arbitrary: s)
  case (Suc fuel)
  obtain a v where acq: "rk_acquire rk key (ao_ttlMs opts) (rs_world s) = (a, v)" by fastforce
  show ?case
  proof (cases a)
    case (Inr h)
    have "s\<lparr>rs_world := v\<rparr> = \<lparr>rs_world = v, rs_held = rs_held s\<rparr>" by simp
    with Inr acq Suc.prems carriesD(1) [OF R, of "rs_world s"] show ?thesis by (auto simp: in_world_apply)
  next
    case (Inl err)
    let ?w = "snd (rk_sleep rk (num_min (ao_retryIntervalMs opts) (num_sub (ao_waitTimeoutMs opts) (num_sub (rk_now rk v) started))) v)"
    have v: "R (rs_world s) v" using carriesD(3) [OF R] acq Inl by blast
    have w: "R (rs_world s) ?w" by (rule carriesD(2) [OF R v carriesD(4) [OF R]])
    from Inl acq Suc.prems
    consider "redlock_loop fuel rk key opts wait holder started (s\<lparr>rs_world := ?w\<rparr>) = Some (r, s')"
      | "\<exists>e. r = Inl e" "s' = s\<lparr>rs_world := v\<rparr> \<or> s' = s\<lparr>rs_world := ?w\<rparr>"
      by (auto simp: in_world_apply Let_def split: sum.splits redlock_kind.splits if_splits)
    then show ?thesis
    proof cases
      case 1
      from Suc.IH [OF this] show ?thesis
        by simp (metis carriesD(2) [OF R w])
    next
      case 2
      with v w show ?thesis by auto
    qed
  qed
qed simp

text \<open>The whole acquisition: checks, the holder, then the loop.\<close>

lemma redlock_acquire_cases:
  assumes run: "redlock_acquire rk fuel key opts wait s = Some (r, s')" and R: "carries R rk"
  obtains (won) u h v holder where "R (rs_world s) u" "rk_acquire rk key (ao_ttlMs opts) u = (Inr h, v)"
      "redlock_grant rk key opts holder h \<lparr>rs_world = v, rs_held = rs_held s\<rparr> = (r, s')"
      "\<forall>h. ao_holder opts = Some h \<longrightarrow> holder = h"
  | (ended) e where "r = Inl e" "rs_held s' = rs_held s" "R (rs_world s) (rs_world s')"
proof -
  obtain b w1 where ids: "given_or (ao_holder opts) (rk_holder rk) (rs_world s) = (b, w1)" by fastforce
  have w1: "R (rs_world s) w1"
    using ids carriesD(1,5) [OF R, of "rs_world s"] by (cases "ao_holder opts") (auto simp: given_or_def)
  from run ids consider (early) e where "r = Inl e" "s' = s \<or> s' = s\<lparr>rs_world := w1\<rparr>"
    | (loop) holder where "b = Inr holder"
        "redlock_loop fuel rk key opts wait holder (rk_now rk w1) (s\<lparr>rs_world := w1\<rparr>) = Some (r, s')"
    by (cases b) (auto simp: redlock_acquire_def in_world_apply split: if_splits)
  then show thesis
  proof cases
    case early
    with w1 carriesD(1) [OF R] show thesis by (intro ended [of e]) auto
  next
    case loop
    have given: "\<forall>h. ao_holder opts = Some h \<longrightarrow> holder = h" using ids loop(1) by (auto simp: given_or_def)
    from redlock_loop_cases [OF loop(2) R]
    consider (a) u h v where "R w1 u" "rk_acquire rk key (ao_ttlMs opts) u = (Inr h, v)"
        "redlock_grant rk key opts holder h \<lparr>rs_world = v, rs_held = rs_held s\<rparr> = (r, s')"
      | (b) e where "r = Inl e" "rs_held s' = rs_held s" "R w1 (rs_world s')"
      by auto
    then show thesis
    proof cases
      case a
      with carriesD(2) [OF R w1] given show thesis by (intro won [of u h v holder]) auto
    next
      case b
      with carriesD(2) [OF R w1] show thesis by (intro ended [of e]) auto
    qed
  qed
qed

lemma redlock_acquire_grant:
  assumes "redlock_acquire rk fuel key opts wait s = Some (Inr g, s')"
  obtains u h v where "rk_acquire rk key (ao_ttlMs opts) u = (Inr h, v)"
    "rk_next rk key (cg_holder g) (ao_requestId opts) v = (Inr (cg_fencingToken g), rs_world s')"
    "validExpiration (rk_expiration rk h) (rk_now rk v)" "validExpiration (rk_expiration rk h) (rk_now rk (rs_world s'))"
    "cg_leaseExpiresMs g = Some (rk_expiration rk h)" "0 < cg_fencingToken g" "cg_key g = key" "cg_ttlMs g = ao_ttlMs opts"
    "\<forall>h. ao_holder opts = Some h \<longrightarrow> cg_holder g = h" "rs_held s' = (rs_held s)(grantId g \<mapsto> (h, g))"
proof -
  have "carries (\<lambda>_ _. True) rk" by (simp add: carries_def reflp_def transp_def)
  from redlock_acquire_cases [OF assms this] obtain u h v holder where
    won: "rk_acquire rk key (ao_ttlMs opts) u = (Inr h, v)"
      "redlock_grant rk key opts holder h \<lparr>rs_world = v, rs_held = rs_held s\<rparr> = (Inr g, s')"
      "\<forall>h. ao_holder opts = Some h \<longrightarrow> holder = h" by (metis Inl_Inr_False)
  from won(2) show thesis
  proof (cases rule: redlock_grant_cases)
    case (granted g')
    with won that [of u h v] show thesis by simp
  qed simp
qed

lemma redlock_renew_identity:
  "redlock_renew rk g ttl s = (Inr g', s') \<Longrightarrow> client_identity g' = client_identity g \<and> cg_ttlMs g' = ttl"
  by (auto simp: redlock_renew_def in_world_apply releaseBestEffort_apply bind_st_apply Let_def
      split: if_splits option.splits prod.splits sum.splits)

interpretation redlock_adapter: lease_adapter "redlock_acquire rk" "redlock_renew rk" for rk
proof
  fix fuel key opts wait s g s'
  assume "redlock_acquire rk fuel key opts wait s = Some (Inr g, s')"
  then show "cg_key g = key \<and> (\<forall>h. ao_holder opts = Some h \<longrightarrow> cg_holder g = h) \<and> 0 < cg_fencingToken g \<and>
      cg_ttlMs g = ao_ttlMs opts"
    by (rule redlock_acquire_grant) simp
qed (rule redlock_renew_identity)

text \<open>
  Bookkeeping over the calls of the adapter: \<open>owed w\<close> are the handles won so far on which no release
  was tried yet.
\<close>

definition tracks_handles :: "('w, 'h) redlock_env \<Rightarrow> ('w \<Rightarrow> 'h set) \<Rightarrow> bool" where
  "tracks_handles rk owed \<longleftrightarrow>
     (\<forall>k t w h w'. rk_acquire rk k t w = (Inr h, w') \<longrightarrow> h \<notin> owed w \<and> owed w' = insert h (owed w)) \<and>
     (\<forall>k t w e w'. rk_acquire rk k t w = (Inl e, w') \<longrightarrow> owed w' = owed w) \<and>
     (\<forall>h w. owed (snd (rk_release rk h w)) = owed w - {h}) \<and>
     (\<forall>k h i w. owed (snd (rk_next rk k h i w)) = owed w) \<and>
     (\<forall>ms w. owed (snd (rk_sleep rk ms w)) = owed w) \<and>
     (\<forall>w. owed (snd (rk_holder rk w)) = owed w)"

lemma tracks_handles_simps:
  assumes "tracks_handles rk owed"
  shows "owed (snd (rk_release rk h w)) = owed w - {h}" "owed (snd (rk_next rk k who i w)) = owed w"
    "owed (snd (rk_sleep rk ms w)) = owed w" "owed (snd (rk_holder rk w)) = owed w"
    "rk_acquire rk k t w = (Inr h, w') \<Longrightarrow> h \<notin> owed w \<and> owed w' = insert h (owed w)"
    "rk_acquire rk k t w = (Inl e, w') \<Longrightarrow> owed w' = owed w"
  using assms by (auto simp: tracks_handles_def)

text \<open>The handles owed after an acquisition: one more when it gave a grant, none otherwise.\<close>

definition owes_grant :: "('w \<Rightarrow> 'h set) \<Rightarrow> thrown + client_grant \<Rightarrow> ('w, 'h) redlock_state \<Rightarrow> ('w, 'h) redlock_state \<Rightarrow> bool" where
  "owes_grant owed r s s' \<longleftrightarrow>
     (case r of
        Inl e \<Rightarrow> owed (rs_world s') = owed (rs_world s) \<and> rs_held s' = rs_held s
      | Inr g \<Rightarrow> (\<exists>h. h \<notin> owed (rs_world s) \<and> owed (rs_world s') = insert h (owed (rs_world s)) \<and>
                   rs_held s' = (rs_held s)(grantId g \<mapsto> (h, g))))"

lemma redlock_acquire_owes:
  assumes track: "tracks_handles rk owed" and run: "redlock_acquire rk fuel key opts wait s = Some (r, s')"
  shows "owes_grant owed r s s'"
proof -
  have "carries (\<lambda>w w'. owed w' = owed w) rk"
    using tracks_handles_simps [OF track] by (auto simp: carries_def reflp_def transp_def)
  from run this show ?thesis
  proof (cases rule: redlock_acquire_cases)
    case (won u h v holder)
    have owed: "h \<notin> owed (rs_world s)" "owed v = insert h (owed (rs_world s))"
      using tracks_handles_simps(5) [OF track won(2)] won(1) by simp_all
    have mint: "owed (snd (rk_next rk key holder (ao_requestId opts) v)) = owed v"
      by (rule tracks_handles_simps(2) [OF track])
    from won(3) show ?thesis
    proof (cases rule: redlock_grant_cases)
      case (granted g)
      with owed mint show ?thesis by (auto simp: owes_grant_def)
    next
      case (released e u')
      then have "owed (rs_world s') = owed v - {h}"
        using tracks_handles_simps(1) [OF track, of h u'] mint by auto
      with released owed show ?thesis by (simp add: owes_grant_def)
    qed
  qed (simp add: owes_grant_def)
qed

section \<open>Histories and tokens\<close>

datatype redlock_op =
    Redlock_acquire nat js_string acquire_options bool
  | Redlock_renew client_grant js_number
  | Redlock_release client_grant

text \<open>The operations of one adapter in sequence; the result is the grants that were acquired.\<close>

fun redlock_run ::
  "('w, 'h) redlock_env \<Rightarrow> ('w, 'h) redlock_state \<Rightarrow> redlock_op list \<Rightarrow> client_grant list" where
  "redlock_run rk s [] = []"
| "redlock_run rk s (Redlock_acquire fuel key opts wait # ops) =
     (case redlock_acquire rk fuel key opts wait s of
        None \<Rightarrow> []
      | Some (Inl e, s') \<Rightarrow> redlock_run rk s' ops
      | Some (Inr g, s') \<Rightarrow> g # redlock_run rk s' ops)"
| "redlock_run rk s (Redlock_renew g ttl # ops) = redlock_run rk (snd (redlock_renew rk g ttl s)) ops"
| "redlock_run rk s (Redlock_release g # ops) = redlock_run rk (snd (redlock_release rk g s)) ops"

text \<open>
  The token source the interface asks for: \<open>minted k w\<close> is the last token given for key \<open>k\<close>; a new
  one is greater, and no other call makes the source forget.
\<close>

definition strictly_ordered :: "('w, 'h) redlock_env \<Rightarrow> (js_string \<Rightarrow> 'w \<Rightarrow> int) \<Rightarrow> bool" where
  "strictly_ordered rk minted \<longleftrightarrow>
     (\<forall>k h i w t w'. rk_next rk k h i w = (Inr t, w') \<longrightarrow> minted k w < t \<and> t \<le> minted k w') \<and>
     (\<forall>k j h i w. minted k w \<le> minted k (snd (rk_next rk j h i w))) \<and>
     (\<forall>k j t w. minted k w \<le> minted k (snd (rk_acquire rk j t w))) \<and>
     (\<forall>k h t w. minted k w \<le> minted k (snd (rk_extend rk h t w))) \<and>
     (\<forall>k h w. minted k w \<le> minted k (snd (rk_release rk h w))) \<and>
     (\<forall>k ms w. minted k w \<le> minted k (snd (rk_sleep rk ms w))) \<and>
     (\<forall>k w. minted k w \<le> minted k (snd (rk_holder rk w)))"

lemma strictly_ordered_mono:
  assumes "strictly_ordered rk minted"
  shows "minted k w \<le> minted k (snd (rk_next rk j h i w))" "minted k w \<le> minted k (snd (rk_acquire rk j t w))"
    "minted k w \<le> minted k (snd (rk_extend rk hdl t w))" "minted k w \<le> minted k (snd (rk_release rk hdl w))"
    "minted k w \<le> minted k (snd (rk_sleep rk ms w))" "minted k w \<le> minted k (snd (rk_holder rk w))"
  using assms by (auto simp: strictly_ordered_def)

definition grows :: "(js_string \<Rightarrow> 'w \<Rightarrow> int) \<Rightarrow> 'w \<Rightarrow> 'w \<Rightarrow> bool" where
  "grows minted w w' \<longleftrightarrow> (\<forall>k. minted k w \<le> minted k w')"

lemma grows_refl [simp]: "grows minted w w"
  by (simp add: grows_def)

lemma grows_trans: "grows minted u v \<Longrightarrow> grows minted v w \<Longrightarrow> grows minted u w"
  by (auto simp: grows_def intro: order_trans)

lemma grows_calls:
  assumes "strictly_ordered rk minted"
  shows "grows minted w (snd (rk_next rk j h i w))" "grows minted w (snd (rk_acquire rk j t w))"
    "grows minted w (snd (rk_extend rk hdl t w))" "grows minted w (snd (rk_release rk hdl w))"
    "grows minted w (snd (rk_sleep rk ms w))" "grows minted w (snd (rk_holder rk w))"
  using strictly_ordered_mono [OF assms] by (auto simp: grows_def)

lemma redlock_acquire_tokens:
  assumes ord: "strictly_ordered rk minted" and run: "redlock_acquire rk fuel key opts wait s = Some (r, s')"
  shows "grows minted (rs_world s) (rs_world s') \<and>
    (\<forall>g. r = Inr g \<longrightarrow> cg_key g = key \<and> minted key (rs_world s) < cg_fencingToken g \<and>
       cg_fencingToken g \<le> minted key (rs_world s'))"
proof -
  have "carries (grows minted) rk"
    using grows_calls [OF ord] grows_trans [of minted]
    by (auto simp: carries_def reflp_def transp_def) (metis snd_conv)
  from run this show ?thesis
  proof (cases rule: redlock_acquire_cases)
    case (won u h v holder)
    have v: "grows minted (rs_world s) v"
      using grows_trans [OF won(1) grows_calls(2) [OF ord, of u key "ao_ttlMs opts"]] won(2) by simp
    let ?w = "snd (rk_next rk key holder (ao_requestId opts) v)"
    have w: "grows minted (rs_world s) ?w" by (rule grows_trans [OF v grows_calls(1) [OF ord]])
    from won(3) show ?thesis
    proof (cases rule: redlock_grant_cases)
      case (granted g)
      then have "minted key v < cg_fencingToken g" "cg_fencingToken g \<le> minted key (rs_world s')"
        using ord unfolding strictly_ordered_def by simp_all
      with granted v w show ?thesis by (auto simp: grows_def intro: le_less_trans)
    next
      case (released e x)
      then have "grows minted (rs_world s) x" using v w by auto
      with released grows_trans [OF _ grows_calls(4) [OF ord]] show ?thesis by auto
    qed
  qed simp
qed

lemma redlock_renew_grows:
  assumes "strictly_ordered rk minted"
  shows "grows minted (rs_world s) (rs_world (snd (redlock_renew rk g ttl s)))"
  using grows_calls(3) [OF assms] grows_trans [OF grows_calls(3) [OF assms] grows_calls(4) [OF assms]]
  by (auto simp: redlock_renew_def in_world_apply releaseBestEffort_apply bind_st_apply forget_def Let_def
      split: option.split sum.split)

lemma redlock_release_grows:
  "strictly_ordered rk minted \<Longrightarrow> grows minted (rs_world s) (rs_world (snd (redlock_release rk g s)))"
  using grows_calls(4) [of rk minted]
  by (auto simp: redlock_release_def in_world_apply forget_def split: option.split sum.split)

lemma redlock_run_tokens:
  assumes ord: "strictly_ordered rk minted"
  shows "(\<forall>g \<in> set (redlock_run rk s ops). minted (cg_key g) (rs_world s) < cg_fencingToken g) \<and>
    sorted_wrt (\<lambda>g g'. cg_key g = cg_key g' \<longrightarrow> cg_fencingToken g < cg_fencingToken g') (redlock_run rk s ops)"
proof (induction ops arbitrary: s)
  case (Cons op ops)
  have later: "(\<forall>g \<in> set (redlock_run rk s' ops). minted (cg_key g) (rs_world s) < cg_fencingToken g) \<and>
      sorted_wrt (\<lambda>g g'. cg_key g = cg_key g' \<longrightarrow> cg_fencingToken g < cg_fencingToken g') (redlock_run rk s' ops)"
    if "grows minted (rs_world s) (rs_world s')" for s'
    using Cons.IH [of s'] that by (auto simp: grows_def intro: le_less_trans)
  show ?case
  proof (cases op)
    case (Redlock_acquire fuel key opts wait)
    show ?thesis
    proof (cases "redlock_acquire rk fuel key opts wait s")
      case None
      with Redlock_acquire show ?thesis by simp
    next
      case (Some rs')
      then obtain r s' where run: "redlock_acquire rk fuel key opts wait s = Some (r, s')" by (cases rs') simp
      note tok = redlock_acquire_tokens [OF ord run]
      from tok later [of s'] Cons.IH [of s'] show ?thesis
        by (cases r) (auto simp: Redlock_acquire run intro: le_less_trans)
    qed
  next
    case (Redlock_renew g ttl)
    with later [OF redlock_renew_grows [OF ord, of s g ttl]] show ?thesis by simp
  next
    case (Redlock_release g)
    with later [OF redlock_release_grows [OF ord, of s g]] show ?thesis by simp
  qed
qed simp

section \<open>Properties\<close>

text \<open>C15: a Redlock grant is fenced, and nothing is left behind without one. When \<open>acquire\<close> returns a
  grant, its token was minted after the quorum was won, is positive, and the validity window of the
  won handle was open both before and after minting; the grant expires with that window and its
  handle is recorded as held and owed a release. When \<open>acquire\<close> throws, the map of held handles is
  as before and every handle won on the way was released (or its release was tried).\<close>

theorem redlock_grant_fenced:
  assumes "tracks_handles rk owed" and "redlock_acquire rk fuel key opts wait s = Some (r, s')"
  shows "case r of
      Inl e \<Rightarrow> owed (rs_world s') = owed (rs_world s) \<and> rs_held s' = rs_held s
    | Inr g \<Rightarrow> \<exists>u h v. rk_acquire rk key (ao_ttlMs opts) u = (Inr h, v) \<and>
        rk_next rk key (cg_holder g) (ao_requestId opts) v = (Inr (cg_fencingToken g), rs_world s') \<and>
        0 < cg_fencingToken g \<and> cg_leaseExpiresMs g = Some (rk_expiration rk h) \<and>
        validExpiration (rk_expiration rk h) (rk_now rk v) \<and>
        validExpiration (rk_expiration rk h) (rk_now rk (rs_world s')) \<and>
        rs_held s' (grantId g) = Some (h, g) \<and> owed (rs_world s') = insert h (owed (rs_world s))"
proof (cases r)
  case (Inl e)
  with redlock_acquire_owes [OF assms] show ?thesis by (simp add: owes_grant_def)
next
  case (Inr g)
  with assms(2) have run: "redlock_acquire rk fuel key opts wait s = Some (Inr g, s')" by simp
  from redlock_acquire_grant [OF run] obtain u h v where facts:
    "rk_acquire rk key (ao_ttlMs opts) u = (Inr h, v)"
    "rk_next rk key (cg_holder g) (ao_requestId opts) v = (Inr (cg_fencingToken g), rs_world s')"
    "validExpiration (rk_expiration rk h) (rk_now rk v)" "validExpiration (rk_expiration rk h) (rk_now rk (rs_world s'))"
    "cg_leaseExpiresMs g = Some (rk_expiration rk h)" "0 < cg_fencingToken g"
    "rs_held s' = (rs_held s)(grantId g \<mapsto> (h, g))" .
  from redlock_acquire_owes [OF assms] Inr obtain h' where "owed (rs_world s') = insert h' (owed (rs_world s))"
    "rs_held s' = (rs_held s)(grantId g \<mapsto> (h', g))"
    by (auto simp: owes_grant_def)
  moreover from this(2) facts(7) have "h' = h" by (metis fun_upd_same option.inject prod.inject)
  ultimately show ?thesis using facts unfolding Inr by auto
qed

text \<open>A client for the witnesses: handles are fresh numbers, the world is the last token and the handles owed.\<close>

definition sample_redlock :: "(int \<times> nat list, nat) redlock_env" where
  "sample_redlock = \<lparr>
     rk_acquire = (\<lambda>key ttl (c, o1). (Inr (Suc (sum_list o1)), (c, Suc (sum_list o1) # o1))),
     rk_expiration = (\<lambda>_. NInt 10),
     rk_extend = (\<lambda>h ttl w. (Inl (Thrown_error 1), w)),
     rk_release = (\<lambda>h (c, o1). (Inr (), (c, filter (\<lambda>x. x \<noteq> h) o1))),
     rk_next = (\<lambda>key holder rid (c, o1). (Inr (max 0 c + 1), (max 0 c + 1, o1))),
     rk_classify = (\<lambda>_. Inr Redlock_contention), rk_now = (\<lambda>_. NInt 5),
     rk_sleep = (\<lambda>ms w. (Inr (), w)), rk_holder = return_st [104]\<rparr>"

lemma sample_redlock_tracks: "tracks_handles sample_redlock (\<lambda>w. set (snd w))"
proof -
  have "Suc (sum_list o1) \<notin> set o1" for o1 :: "nat list"
    using member_le_sum_list [of "Suc (sum_list o1)" o1] by auto
  then show ?thesis by (auto simp: tracks_handles_def sample_redlock_def)
qed

lemma sample_redlock_ordered: "strictly_ordered sample_redlock (\<lambda>k w. fst w)"
  by (auto simp: strictly_ordered_def sample_redlock_def)

abbreviation sample_redlock_state :: "(int \<times> nat list, nat) redlock_state" where
  "sample_redlock_state \<equiv> \<lparr>rs_world = (7, []), rs_held = Map.empty\<rparr>"

lemma sample_redlock_run:
  "\<exists>g s'. redlock_acquire sample_redlock 1 [107] DEFAULT_ACQUIRE_OPTIONS False sample_redlock_state = Some (Inr g, s') \<and>
     cg_fencingToken g = 8 \<and> rs_held s' (grantId g) = Some (1, g)"
  by (simp add: redlock_acquire_def DEFAULT_ACQUIRE_OPTIONS_def non_negative_def given_or_def in_world_apply
      MAX_SAFE_INTEGER_def redlock_grant_def validExpiration_def bind_st_apply catch_st_apply sample_redlock_def grantId_def Let_def)

theorem redlock_grant_fenced_witness:
  "\<exists>g s'. redlock_acquire sample_redlock 1 [107] DEFAULT_ACQUIRE_OPTIONS False sample_redlock_state = Some (Inr g, s') \<and>
     0 < cg_fencingToken g \<and> (\<exists>h. set (snd (rs_world s')) = {h})"
proof -
  from sample_redlock_run obtain g s' where
    run: "redlock_acquire sample_redlock 1 [107] DEFAULT_ACQUIRE_OPTIONS False sample_redlock_state = Some (Inr g, s')" by blast
  from redlock_grant_fenced [OF sample_redlock_tracks run] run show ?thesis by auto
qed

text \<open>The tokens of the grants an adapter gives out for a key strictly increase, over any sequence of
  acquisitions, renewals and releases, and are above the last token given before; provided the
  token source is strictly ordered for each key, as its interface demands.\<close>

theorem redlock_tokens_increase:
  assumes "strictly_ordered rk minted"
  shows "(\<forall>g \<in> set (redlock_run rk s ops). minted (cg_key g) (rs_world s) < cg_fencingToken g) \<and>
    sorted_wrt (\<lambda>g g'. cg_key g = cg_key g' \<longrightarrow> cg_fencingToken g < cg_fencingToken g') (redlock_run rk s ops)"
  by (rule redlock_run_tokens [OF assms])

theorem redlock_tokens_increase_witness:
  "list_all (\<lambda>g. 7 < cg_fencingToken g) (redlock_run sample_redlock sample_redlock_state
     [Redlock_acquire 1 [107] DEFAULT_ACQUIRE_OPTIONS False, Redlock_acquire 1 [107] DEFAULT_ACQUIRE_OPTIONS False])"
proof -
  have "fst (rs_world sample_redlock_state) = 7" by simp
  with redlock_tokens_increase [OF sample_redlock_ordered, of sample_redlock_state] show ?thesis
    unfolding list_all_iff by (metis (no_types, lifting))
qed

text \<open>A lost Redlock grant stays lost. When a renewal ends in the error that the lease is lost, the
  adapter no longer holds the grant: every further renewal throws (that the lease is lost, or that
  the time to live is invalid) and a release answers \<open>false\<close>, both without any call to the
  Redlock client.\<close>

theorem redlock_lost_is_final:
  assumes "redlock_renew rk g ttl s = (Inl e, s')" and "thrown_kind e = Some Lost_lease"
  shows "redlock_release rk g s' = (Inr False, s') \<and>
    redlock_renew rk g ttl' s' =
      (Inl (if is_safe_integer ttl' \<and> 0 < int_of_number ttl' then lost_lease (cg_key g) None else invalidPlan (cg_key g)), s')"
proof -
  have "rs_held s' (grantId g) = None"
    using assms
    by (auto simp: redlock_renew_def in_world_apply releaseBestEffort_apply bind_st_apply forget_def Let_def
        split: if_splits option.splits sum.splits)
  then show ?thesis by (simp add: redlock_release_def redlock_renew_def)
qed

definition sample_held :: client_grant where
  "sample_held = \<lparr>cg_key = [107], cg_holder = [104], cg_fencingToken = 1, cg_ttlMs = NInt 5, cg_leaseExpiresMs = None\<rparr>"

theorem redlock_lost_is_final_witness:
  "\<exists>e s'. redlock_renew sample_redlock sample_held (NInt 5)
       \<lparr>rs_world = (7, [1]), rs_held = [grantId sample_held \<mapsto> (1, sample_held)]\<rparr> = (Inl e, s') \<and>
     redlock_release sample_redlock sample_held s' = (Inr False, s')"
proof -
  let ?s = "\<lparr>rs_world = (7, [1]), rs_held = [grantId sample_held \<mapsto> (1, sample_held)]\<rparr>"
  obtain s' where run: "redlock_renew sample_redlock sample_held (NInt 5) ?s =
      (Inl (Thrown_lock (LockError Lost_lease (cg_key sample_held) None (Cause (Thrown_error 1)))), s')"
    by (simp add: redlock_renew_def in_world_apply sample_redlock_def MAX_SAFE_INTEGER_def)
  with redlock_lost_is_final [OF run, of "NInt 5"] show ?thesis by auto
qed

end
