(* ===== verification/Beamscale.thy ===== *)
theory Beamscale
  imports Redlock
begin

text \<open>
  \<open>src/ts/src/beamscale-critical-section.ts\<close>: the adapter for BeamScale critical sections. The
  authority's token is a triple (runtime epoch, owner epoch, sequence); only the sequence is in the
  grant, so the adapter keeps the full triple in a registry and a renewal must confirm it exactly.
  One ambiguous transport failure of an acquisition is retried with the same request identity. The
  registry key is modelled as the triple (key, holder, token) that the source serialises as JSON.
\<close>

section \<open>Definitions\<close>

abbreviation beam_deployment_error :: thrown where "beam_deployment_error \<equiv> Thrown_error 351"
abbreviation beam_json_error :: thrown where "beam_json_error \<equiv> Thrown_error 352"
abbreviation beam_invalid_grant :: thrown where "beam_invalid_grant \<equiv> Thrown_error 353"
abbreviation beam_rejected :: thrown where "beam_rejected \<equiv> Thrown_error 354"

record beam_token =
  bt_runtimeEpoch :: int
  bt_ownerEpoch :: int
  bt_sequence :: int

record beamscale =
  bs_base :: js_string
  bs_headers :: "(js_string \<times> js_string) list"
  bs_deploymentId :: js_string

text \<open>\<open>/^[A-Za-z0-9._-]{1,128}$/\<close>.\<close>

definition deployment_unit :: "code_unit \<Rightarrow> bool" where
  "deployment_unit u \<longleftrightarrow> (65 \<le> u \<and> u \<le> 90) \<or> (97 \<le> u \<and> u \<le> 122) \<or> is_digit u \<or> u = 46 \<or> u = 95 \<or> u = 45"

definition valid_deployment :: "js_string \<Rightarrow> bool" where
  "valid_deployment s \<longleftrightarrow> 1 \<le> length s \<and> length s \<le> 128 \<and> list_all deployment_unit s"

definition beamscale_lease :: "js_string \<Rightarrow> js_string \<Rightarrow> js_string \<Rightarrow> thrown + beamscale" where
  "beamscale_lease baseUrl apiToken deploymentId =
     and_then (require (valid_deployment deploymentId) beam_deployment_error) (\<lambda>_.
     Inr \<lparr>bs_base = strip_slashes baseUrl, bs_headers = json_headers apiToken, bs_deploymentId = deploymentId\<rparr>)"

definition positiveSafeInteger :: "js_value \<Rightarrow> int option" where
  "positiveSafeInteger v =
     (case v of JNumber n \<Rightarrow> if is_safe_integer n \<and> 0 < int_of_number n then Some (int_of_number n) else None | _ \<Rightarrow> None)"

definition nonnegativeSafeInteger :: "js_value \<Rightarrow> int option" where
  "nonnegativeSafeInteger v =
     (case v of JNumber n \<Rightarrow> if is_safe_integer n \<and> 0 \<le> int_of_number n then Some (int_of_number n) else None | _ \<Rightarrow> None)"

definition MAX_U64 :: int where
  "MAX_U64 = 18446744073709551615"

definition plain_object :: "js_value \<Rightarrow> bool" where
  "plain_object v = (case v of JArray _ \<Rightarrow> False | _ \<Rightarrow> is_object v)"

definition decodeToken :: "js_value \<Rightarrow> beam_token option" where
  "decodeToken v =
     (if \<not> plain_object v then None
      else case (positiveSafeInteger (get_prop v ''runtime_epoch''), positiveSafeInteger (get_prop v ''owner_epoch''),
                 positiveSafeInteger (get_prop v ''sequence'')) of
        (Some r, Some ow, Some sq) \<Rightarrow>
          if MAX_U64 < sq then None else Some \<lparr>bt_runtimeEpoch = r, bt_ownerEpoch = ow, bt_sequence = sq\<rparr>
      | _ \<Rightarrow> None)"

definition sameToken :: "beam_token \<Rightarrow> beam_token \<Rightarrow> bool" where
  "sameToken a b \<longleftrightarrow> bt_runtimeEpoch a = bt_runtimeEpoch b \<and> bt_ownerEpoch a = bt_ownerEpoch b \<and>
     bt_sequence a = bt_sequence b"

type_synonym registry_key = "js_string \<times> js_string \<times> js_string"

definition tokenRegistryKey :: "js_string \<Rightarrow> js_string \<Rightarrow> int \<Rightarrow> registry_key" where
  "tokenRegistryKey key holder fencingToken = (key, holder, dec_int fencingToken)"

record 'w beam_state =
  be_world :: 'w
  be_tokens :: "registry_key \<rightharpoonup> beam_token"

definition beam_world :: "('w, thrown, 'a) action \<Rightarrow> ('w beam_state, thrown, 'a) action" where
  "beam_world f s = (case f (be_world s) of (r, w) \<Rightarrow> (r, s\<lparr>be_world := w\<rparr>))"

text \<open>\<open>encodeURIComponent\<close> leaves a valid deployment id as it is, so it is not written.\<close>

definition beam_parse :: "'w client_env \<Rightarrow> js_string \<Rightarrow> js_string \<Rightarrow> thrown + js_value" where
  "beam_parse env key answer =
     (if answer = [] then Inr (JObject [])
      else catch_map (\<lambda>_. transport key beam_json_error None)
        (and_then (ce_parse env answer) (\<lambda>v. if plain_object v then Inr v else Inl beam_json_error)))"

definition beam_post ::
  "'w client_env \<Rightarrow> beamscale \<Rightarrow> string \<Rightarrow> js_string \<Rightarrow> js_value \<Rightarrow> ('w, thrown, int \<times> js_value) action" where
  "beam_post env bs operation key body =
     bind_st (catch_st (ce_fetch env (bs_base bs @ js ''/v1/critical-sections/'' @ bs_deploymentId bs @ js ''/'' @ js operation)
                 \<lparr>fi_method = js ''POST'', fi_headers = bs_headers bs, fi_body = ce_stringify env body,
                  fi_redirect = js ''manual''\<rparr>)
                (\<lambda>c. throw_st (transport key c None))) (\<lambda>response.
     bind_st (ft_text response) (\<lambda>answer.
     bind_st (lift_st (beam_parse env key answer)) (\<lambda>parsed. return_st (ft_status response, parsed))))"

definition accepted :: "int \<Rightarrow> js_value \<Rightarrow> bool" where
  "accepted status body \<longleftrightarrow> 200 \<le> status \<and> status < 300 \<and> get_prop body ''ok'' = JBool True"

definition error_is :: "js_value \<Rightarrow> string \<Rightarrow> bool" where
  "error_is body code \<longleftrightarrow> get_prop body ''error_code'' = JString (js code)"

definition remember :: "js_string \<Rightarrow> js_string \<Rightarrow> beam_token \<Rightarrow> 'w beam_state \<Rightarrow> int \<times> 'w beam_state" where
  "remember key holder tok s =
     (bt_sequence tok, s\<lparr>be_tokens := (be_tokens s)(tokenRegistryKey key holder (bt_sequence tok) \<mapsto> tok)\<rparr>)"

definition registry_of :: "client_grant \<Rightarrow> registry_key" where
  "registry_of g = tokenRegistryKey (cg_key g) (cg_holder g) (cg_fencingToken g)"

definition lookup_token :: "client_grant \<Rightarrow> 'w beam_state \<Rightarrow> thrown + beam_token" where
  "lookup_token g s = (case be_tokens s (registry_of g) of None \<Rightarrow> Inl (lost_lease (cg_key g) None) | Some t \<Rightarrow> Inr t)"

definition forget_token :: "client_grant \<Rightarrow> 'w beam_state \<Rightarrow> 'w beam_state" where
  "forget_token g s = s\<lparr>be_tokens := (be_tokens s)(registry_of g := None)\<rparr>"

definition token_object :: "beam_token \<Rightarrow> js_value" where
  "token_object t = object_literal [(''runtime_epoch'', JNumber (NInt (bt_runtimeEpoch t))),
     (''owner_epoch'', JNumber (NInt (bt_ownerEpoch t))), (''sequence'', JNumber (NInt (bt_sequence t)))]"

definition beam_acquire_body :: "js_string \<Rightarrow> acquire_options \<Rightarrow> js_string \<Rightarrow> js_string \<Rightarrow> js_value" where
  "beam_acquire_body key opts holder rid = object_literal [(''key'', JString key), (''holder'', JString holder),
     (''request_id'', JString rid), (''lease_ms'', JNumber (ao_ttlMs opts))]"

definition beam_grant :: "js_string \<Rightarrow> acquire_options \<Rightarrow> js_string \<Rightarrow> js_value \<Rightarrow> ('w beam_state, thrown, client_grant) action" where
  "beam_grant key opts holder body s =
     (case (decodeToken (get_prop body ''token''), nonnegativeSafeInteger (get_prop body ''expires_at_ms'')) of
        (Some tok, Some e) \<Rightarrow>
          (case remember key holder tok s of (fencingToken, s') \<Rightarrow>
             (Inr \<lparr>cg_key = key, cg_holder = holder, cg_fencingToken = fencingToken, cg_ttlMs = ao_ttlMs opts,
                cg_leaseExpiresMs = Some (NInt e)\<rparr>, s'))
      | _ \<Rightarrow> (Inl (transport key beam_invalid_grant None), s))"

fun beam_loop ::
  "nat \<Rightarrow> 'w client_env \<Rightarrow> beamscale \<Rightarrow> js_string \<Rightarrow> acquire_options \<Rightarrow> bool \<Rightarrow> int \<Rightarrow> js_string \<Rightarrow> js_string \<Rightarrow> nat \<Rightarrow>
   'w beam_state \<Rightarrow> ((thrown + client_grant) \<times> 'w beam_state) option" where
  "beam_loop 0 env bs key opts wait started holder rid retries s = None"
| "beam_loop (Suc fuel) env bs key opts wait started holder rid retries s =
     (case beam_world (beam_post env bs ''acquire'' key (beam_acquire_body key opts holder rid)) s of
        (Inl c, s1) \<Rightarrow>
          if thrown_kind c = Some Transport \<and> retries = 0
          then beam_loop fuel env bs key opts wait started holder rid (Suc retries) s1
          else Some (Inl c, s1)
      | (Inr (status, body), s1) \<Rightarrow>
          if accepted status body then Some (beam_grant key opts holder body s1)
          else if error_is body ''fencing_exhausted'' then Some (Inl (invalidPlan key), s1)
          else if status = 409 \<and> error_is body ''busy'' then
            (if \<not> wait then Some (Inl (contention key Fiducia_try_acquire), s1)
             else let waited = ce_now env (be_world s1) - started in
             if num_ge (NInt waited) (ao_waitTimeoutMs opts) \<or>
                num_less (ao_waitTimeoutMs opts) (num_add (NInt waited) (ao_retryIntervalMs opts))
             then Some (Inl (timeout key Fiducia_acquire), s1)
             else beam_loop fuel env bs key opts wait started holder rid retries
                    (s1\<lparr>be_world := ce_sleep env (ao_retryIntervalMs opts) (be_world s1)\<rparr>))
          else Some (Inl (transport key beam_rejected None), s1))"

definition beam_acquire ::
  "'w client_env \<Rightarrow> beamscale \<Rightarrow> nat \<Rightarrow> js_string \<Rightarrow> acquire_options \<Rightarrow> bool \<Rightarrow> 'w beam_state \<Rightarrow>
   ((thrown + client_grant) \<times> 'w beam_state) option" where
  "beam_acquire env bs fuel key opts wait s =
     (case beam_world (bind_st (given_or (ao_holder opts) (ce_holder env)) (\<lambda>holder.
           bind_st (given_or (ao_requestId opts) (ce_requestId env)) (\<lambda>requestId. return_st (holder, requestId)))) s of
        (Inl e, s1) \<Rightarrow> Some (Inl e, s1)
      | (Inr (holder, rid), s1) \<Rightarrow>
          beam_loop fuel env bs key opts wait (ce_now env (be_world s1)) holder rid 0 s1)"

definition beam_renew ::
  "'w client_env \<Rightarrow> beamscale \<Rightarrow> client_grant \<Rightarrow> js_number \<Rightarrow> ('w beam_state, thrown, client_grant) action" where
  "beam_renew env bs grant ttlMs s =
     (case lookup_token grant s of
        Inl e \<Rightarrow> (Inl e, s)
      | Inr tok \<Rightarrow>
          (case beam_world (beam_post env bs ''renew'' (cg_key grant)
              (object_literal [(''key'', JString (cg_key grant)), (''holder'', JString (cg_holder grant)),
                 (''lease_ms'', JNumber ttlMs), (''token'', token_object tok)])) s of
             (Inl e, s1) \<Rightarrow> (Inl e, s1)
           | (Inr (status, body), s1) \<Rightarrow>
               if status = 409 \<and> error_is body ''stale_or_not_owner''
               then (Inl (lost_lease (cg_key grant) None), forget_token grant s1)
               else if \<not> accepted status body then (Inl (transport (cg_key grant) beam_rejected None), s1)
               else (case (decodeToken (get_prop body ''token''), nonnegativeSafeInteger (get_prop body ''expires_at_ms'')) of
                  (Some renewed, Some e) \<Rightarrow>
                    if \<not> sameToken tok renewed then (Inl (lost_lease (cg_key grant) None), forget_token grant s1)
                    else (Inr (renewed_grant grant ttlMs (Some (NInt e))), s1)
                | _ \<Rightarrow> (Inl (lost_lease (cg_key grant) None), forget_token grant s1))))"

definition beam_release :: "'w client_env \<Rightarrow> beamscale \<Rightarrow> client_grant \<Rightarrow> ('w beam_state, thrown, bool) action" where
  "beam_release env bs grant s =
     (case lookup_token grant s of
        Inl e \<Rightarrow> (Inl e, s)
      | Inr tok \<Rightarrow>
          (case beam_world (beam_post env bs ''release'' (cg_key grant)
              (object_literal [(''key'', JString (cg_key grant)), (''holder'', JString (cg_holder grant)),
                 (''token'', token_object tok)])) s of
             (Inl e, s1) \<Rightarrow> (Inl (tagStep e Fiducia_release), s1)
           | (Inr (status, body), s1) \<Rightarrow>
               if status = 409 \<and> error_is body ''stale_or_not_owner'' then (Inr False, forget_token grant s1)
               else if \<not> accepted status body
               then (Inl (tagStep (transport (cg_key grant) beam_rejected None) Fiducia_release), s1)
               else (Inr True, forget_token grant s1)))"

section \<open>Lemmas\<close>

lemma beam_world_apply: "beam_world f s = (fst (f (be_world s)), s\<lparr>be_world := snd (f (be_world s))\<rparr>)"
  by (simp add: beam_world_def split: prod.split)

lemma decodeToken_bounds: "decodeToken v = Some t \<Longrightarrow> 0 < bt_sequence t \<and> bt_sequence t \<le> MAX_SAFE_INTEGER"
proof -
  have "positiveSafeInteger u = Some i \<Longrightarrow> 0 < i \<and> i \<le> MAX_SAFE_INTEGER" for u i
    by (auto simp: positiveSafeInteger_def is_safe_integer_int split: js_value.splits if_splits)
  then show "decodeToken v = Some t \<Longrightarrow> 0 < bt_sequence t \<and> bt_sequence t \<le> MAX_SAFE_INTEGER"
    by (auto simp: decodeToken_def split: option.splits if_splits)
qed

lemma sameToken_iff: "sameToken a b \<longleftrightarrow> a = b"
  by (cases a; cases b) (simp add: sameToken_def)

lemma beam_grant_cases:
  assumes "beam_grant key opts holder body s = (Inr g, s')"
  shows "cg_key g = key \<and> cg_holder g = holder \<and> cg_ttlMs g = ao_ttlMs opts \<and> 0 < cg_fencingToken g \<and>
    cg_fencingToken g \<le> MAX_SAFE_INTEGER \<and> be_world s' = be_world s \<and>
    (\<exists>tok. decodeToken (get_prop body ''token'') = Some tok \<and> bt_sequence tok = cg_fencingToken g \<and>
       be_tokens s' = (be_tokens s)(registry_of g \<mapsto> tok))"
  using assms
  by (auto simp: beam_grant_def remember_def registry_of_def dest: decodeToken_bounds split: option.splits)

text \<open>A grant comes from the answer of one post, with this holder and request identity.\<close>

lemma beam_loop_grant:
  "beam_loop fuel env bs key opts wait started holder rid retries s = Some (Inr g, s') \<Longrightarrow>
   \<exists>u status body v. beam_post env bs ''acquire'' key (beam_acquire_body key opts holder rid) u = (Inr (status, body), v) \<and>
     accepted status body \<and> beam_grant key opts holder body \<lparr>be_world = v, be_tokens = be_tokens s\<rparr> = (Inr g, s')"
proof (induction fuel arbitrary: retries s)
  case (Suc fuel)
  obtain r v where post: "beam_post env bs ''acquire'' key (beam_acquire_body key opts holder rid) (be_world s) = (r, v)"
    by fastforce
  have IH: ?case if "beam_loop fuel env bs key opts wait started holder rid rt u = Some (Inr g, s')" "be_tokens u = be_tokens s" for rt u
    using Suc.IH [OF that(1)] that(2) by simp
  have same: "s\<lparr>be_world := v\<rparr> = \<lparr>be_world = v, be_tokens = be_tokens s\<rparr>" by simp
  show ?case
  proof (cases r)
    case (Inl c)
    with post Suc.prems IH show ?thesis by (auto simp: beam_world_apply split: if_splits)
  next
    case (Inr sb)
    then obtain status body where sb: "r = Inr (status, body)" by (cases sb) simp
    with post Suc.prems same IH show ?thesis
      by (auto simp: beam_world_apply Let_def split: if_splits)
  qed
qed simp

lemma beam_acquire_grant:
  assumes "beam_acquire env bs fuel key opts wait s = Some (Inr g, s')"
  shows "cg_key g = key \<and> (\<forall>h. ao_holder opts = Some h \<longrightarrow> cg_holder g = h) \<and> cg_ttlMs g = ao_ttlMs opts \<and>
    0 < cg_fencingToken g \<and>
    (\<exists>u rid status body v tok. beam_post env bs ''acquire'' key (beam_acquire_body key opts (cg_holder g) rid) u =
        (Inr (status, body), v) \<and> accepted status body \<and> decodeToken (get_prop body ''token'') = Some tok \<and>
       bt_sequence tok = cg_fencingToken g \<and> be_tokens s' (registry_of g) = Some tok)"
proof -
  let ?ids = "bind_st (given_or (ao_holder opts) (ce_holder env)) (\<lambda>holder.
      bind_st (given_or (ao_requestId opts) (ce_requestId env)) (\<lambda>requestId. return_st (holder, requestId)))"
  obtain b w1 where ran: "?ids (be_world s) = (b, w1)" by fastforce
  with assms obtain holder rid where b: "b = Inr (holder, rid)"
    and loop: "beam_loop fuel env bs key opts wait (ce_now env w1) holder rid 0 (s\<lparr>be_world := w1\<rparr>) = Some (Inr g, s')"
    by (cases b) (auto simp: beam_acquire_def beam_world_apply)
  from ran b have ids: "?ids (be_world s) = (Inr (holder, rid), w1)" by simp
  from beam_loop_grant [OF loop] obtain u status body v where
    post: "beam_post env bs ''acquire'' key (beam_acquire_body key opts holder rid) u = (Inr (status, body), v)" "accepted status body"
    and grant: "beam_grant key opts holder body \<lparr>be_world = v, be_tokens = be_tokens s\<rparr> = (Inr g, s')" by auto
  from beam_grant_cases [OF grant] have g: "cg_key g = key" "cg_holder g = holder" "cg_ttlMs g = ao_ttlMs opts"
    "0 < cg_fencingToken g" by simp_all
  from beam_grant_cases [OF grant] obtain tok where "decodeToken (get_prop body ''token'') = Some tok"
    "bt_sequence tok = cg_fencingToken g" "be_tokens s' (registry_of g) = Some tok" by auto
  with g post identities_given [OF ids] show ?thesis by blast
qed

lemma beam_renew_confirmed:
  assumes "beam_renew env bs g ttl s = (Inr g', s')"
  shows "client_identity g' = client_identity g \<and> cg_ttlMs g' = ttl \<and> be_tokens s' = be_tokens s \<and>
    (\<exists>tok status body. be_tokens s (registry_of g) = Some tok \<and>
       beam_post env bs ''renew'' (cg_key g)
         (object_literal [(''key'', JString (cg_key g)), (''holder'', JString (cg_holder g)), (''lease_ms'', JNumber ttl),
            (''token'', token_object tok)]) (be_world s) = (Inr (status, body), be_world s') \<and>
       accepted status body \<and> decodeToken (get_prop body ''token'') = Some tok)"
proof -
  from assms obtain tok where tok: "be_tokens s (registry_of g) = Some tok"
    by (auto simp: beam_renew_def lookup_token_def split: option.splits)
  obtain r v where post: "beam_post env bs ''renew'' (cg_key g)
         (object_literal [(''key'', JString (cg_key g)), (''holder'', JString (cg_holder g)), (''lease_ms'', JNumber ttl),
            (''token'', token_object tok)]) (be_world s) = (r, v)" by fastforce
  from assms tok post obtain status body where r: "r = Inr (status, body)"
    by (cases r) (auto simp: beam_renew_def lookup_token_def beam_world_apply)
  from assms tok post r show ?thesis
    by (auto simp: beam_renew_def lookup_token_def beam_world_apply sameToken_iff split: if_splits option.splits)
qed

interpretation beam_adapter: lease_adapter "beam_acquire env bs" "beam_renew env bs" for env bs
proof
  fix fuel key opts wait s g s'
  assume "beam_acquire env bs fuel key opts wait s = Some (Inr g, s')"
  from beam_acquire_grant [OF this]
  show "cg_key g = key \<and> (\<forall>h. ao_holder opts = Some h \<longrightarrow> cg_holder g = h) \<and> 0 < cg_fencingToken g \<and>
      cg_ttlMs g = ao_ttlMs opts" by simp
next
  fix g ttl s g' s'
  assume "beam_renew env bs g ttl s = (Inr g', s')"
  from beam_renew_confirmed [OF this] show "client_identity g' = client_identity g \<and> cg_ttlMs g' = ttl" by simp
qed

section \<open>Properties\<close>


text \<open>A transport for the witness: every answer is status 200 with the same accepted body.\<close>

definition sample_beam_env :: "nat client_env" where
  "sample_beam_env = \<lparr>
     ce_fetch = (\<lambda>url init w. (Inr \<lparr>ft_status = 200, ft_text = return_st [123]\<rparr>, Suc w)),
     ce_now = int, ce_sleep = (\<lambda>ms. Suc), ce_holder = return_st [104], ce_requestId = return_st [114],
     ce_stringify = (\<lambda>_. []),
     ce_parse = (\<lambda>_. Inr (object_literal [(''ok'', JBool True), (''expires_at_ms'', JNumber (NInt 9)),
        (''token'', token_object \<lparr>bt_runtimeEpoch = 3, bt_ownerEpoch = 4, bt_sequence = 5\<rparr>)]))\<rparr>"

definition sample_beam :: beamscale where
  "sample_beam = \<lparr>bs_base = js ''http://b'', bs_headers = [], bs_deploymentId = js ''d''\<rparr>"

definition sample_beam_grant :: client_grant where
  "sample_beam_grant = \<lparr>cg_key = [107], cg_holder = [104], cg_fencingToken = 5, cg_ttlMs = NInt 60000, cg_leaseExpiresMs = Some (NInt 9)\<rparr>"


end
