(* ===== verification/Adapters.thy ===== *)
theory Adapters
  imports Beamscale
begin

text \<open>
  What the lease adapters have in common, proved over all of them: a waiting acquisition ends. The
  transport, the timers and the signal are arguments of every adapter; \<open>timed\<close> says what is needed of
  them: no call moves the clock backwards and a timer moves it forward.
\<close>

section \<open>Actions and the clock\<close>

named_theorems onward_intros

definition onward :: "'w client_env \<Rightarrow> ('w, 'e, 'a) action \<Rightarrow> bool" where
  "onward env f \<longleftrightarrow> (\<forall>w. ce_now env w \<le> ce_now env (snd (f w)))"

lemma onwardD: "onward env f \<Longrightarrow> f w = (r, w') \<Longrightarrow> ce_now env w \<le> ce_now env w'"
  by (metis onward_def snd_conv)

lemma onward_return [onward_intros]: "onward env (return_st a)"
  by (simp add: onward_def)

lemma onward_throw [onward_intros]: "onward env (throw_st e)"
  by (simp add: onward_def)

lemma onward_lift [onward_intros]: "onward env (lift_st r)"
  by (cases r) (simp_all add: onward_def)

lemma onward_read [onward_intros]: "onward env (\<lambda>w. (h w, w))"
  by (simp add: onward_def)

lemma onward_if [onward_intros]: "onward env f \<Longrightarrow> onward env g \<Longrightarrow> onward env (if b then f else g)"
  by simp

lemma onward_option [onward_intros]:
  "onward env f \<Longrightarrow> (\<And>a. onward env (g a)) \<Longrightarrow> onward env (case x of None \<Rightarrow> f | Some a \<Rightarrow> g a)"
  by (cases x) simp_all

lemma onward_switch: "(\<And>v. onward env (f v)) \<Longrightarrow> onward env (\<lambda>w. if b then f w w else (h w, w))"
  by (simp add: onward_def)

lemma onward_bind_result:
  assumes "onward env f" and "\<And>a w w'. f w = (Inr a, w') \<Longrightarrow> onward env (g a)"
  shows "onward env (bind_st f g)"
  unfolding onward_def
proof
  fix w
  obtain r w' where f: "f w = (r, w')" by fastforce
  note here = onwardD [OF assms(1) f]
  show "ce_now env w \<le> ce_now env (snd (bind_st f g w))"
  proof (cases r)
    case (Inr a)
    with f assms(2) have "onward env (g a)" by blast
    then have "ce_now env w' \<le> ce_now env (snd (g a w'))" by (simp add: onward_def)
    with here f Inr show ?thesis by (simp add: bind_st_apply)
  qed (use f here in \<open>simp add: bind_st_apply\<close>)
qed

lemma onward_bind [onward_intros]: "onward env f \<Longrightarrow> (\<And>a. onward env (g a)) \<Longrightarrow> onward env (bind_st f g)"
  by (rule onward_bind_result)

lemma onward_catch [onward_intros]:
  assumes "onward env f" and "\<And>e. onward env (h e)"
  shows "onward env (catch_st f h)"
  unfolding onward_def
proof
  fix w
  obtain r w' where f: "f w = (r, w')" by fastforce
  note here = onwardD [OF assms(1) f]
  show "ce_now env w \<le> ce_now env (snd (catch_st f h w))"
  proof (cases r)
    case (Inl e)
    have "ce_now env w' \<le> ce_now env (snd (h e w'))" using assms(2) by (simp add: onward_def)
    with here f Inl show ?thesis by (simp add: catch_st_apply)
  qed (use f here in \<open>simp add: catch_st_apply\<close>)
qed

lemma onward_given_or [onward_intros]: "onward env gen \<Longrightarrow> onward env (given_or given gen)"
  by (cases given) (simp_all add: given_or_def onward_intros)

section \<open>A transport that takes time\<close>

definition timed :: "'w client_env \<Rightarrow> js_number \<Rightarrow> bool" where
  "timed env every \<longleftrightarrow>
     (\<forall>url init. onward env (ce_fetch env url init)) \<and>
     (\<forall>url init w answer w'. ce_fetch env url init w = (Inr answer, w') \<longrightarrow> onward env (ft_text answer)) \<and>
     onward env (ce_holder env) \<and> onward env (ce_requestId env) \<and>
     (\<forall>w. ce_now env w < ce_now env (ce_sleep env every w))"

definition timed_signal :: "'w client_env \<Rightarrow> 'w abort_signal option \<Rightarrow> js_number \<Rightarrow> bool" where
  "timed_signal env sig every \<longleftrightarrow>
     (\<forall>s w ab w'. sig = Some s \<and> sg_race s every w = (ab, w') \<longrightarrow>
        ce_now env w \<le> ce_now env w' \<and> (\<not> ab \<longrightarrow> ce_now env w < ce_now env w'))"

lemma timed_holder [onward_intros]: "timed env every \<Longrightarrow> onward env (ce_holder env)"
  and timed_requestId [onward_intros]: "timed env every \<Longrightarrow> onward env (ce_requestId env)"
  and timed_fetch: "timed env every \<Longrightarrow> onward env (ce_fetch env url init)"
  and timed_text: "timed env every \<Longrightarrow> ce_fetch env url init w = (Inr answer, w') \<Longrightarrow> onward env (ft_text answer)"
  and timed_sleep: "timed env every \<Longrightarrow> ce_now env w < ce_now env (ce_sleep env every w)"
  unfolding timed_def by blast+

text \<open>The shape of every post: fetch with its failure mapped, then the text, then a computation on it.\<close>

lemma timed_exchange:
  assumes "timed env every" and "\<And>answer text. onward env (after answer text)"
  shows "onward env (bind_st (catch_st (ce_fetch env url init) (\<lambda>c. throw_st (err c))) (\<lambda>answer.
    bind_st (ft_text answer) (after answer)))"
proof (rule onward_bind_result)
  show "onward env (catch_st (ce_fetch env url init) (\<lambda>c. throw_st (err c)))"
    by (intro onward_intros timed_fetch [OF assms(1)])
  fix answer w w'
  assume "catch_st (ce_fetch env url init) (\<lambda>c. throw_st (err c)) w = (Inr answer, w')"
  then have "ce_fetch env url init w = (Inr answer, w')"
    by (auto simp: catch_st_apply split: prod.splits sum.splits)
  from timed_text [OF assms(1) this] show "onward env (bind_st (ft_text answer) (after answer))"
    by (intro onward_intros assms(2))
qed

lemma command_onward: "timed env every \<Longrightarrow> onward env (command env up key cmd)"
  unfolding command_def by (erule timed_exchange) (auto intro!: onward_intros)

lemma do_post_onward: "timed env every \<Longrightarrow> onward env (do_post env dc path key body)"
  unfolding do_post_def by (erule timed_exchange) (auto intro!: onward_intros)

lemma beam_post_onward: "timed env every \<Longrightarrow> onward env (beam_post env bs op key body)"
  unfolding beam_post_def by (erule timed_exchange) (auto intro!: onward_intros)

lemma fiducia_post_onward:
  assumes "timed env every"
  shows "onward env (fiducia_post env fd path body)"
proof -
  have exchange: "onward env (bind_st (ce_fetch env url init) (\<lambda>response. bind_st (ft_text response) (after response)))"
    if "\<And>response answer. onward env (after response answer)" for url init and after :: "_ \<Rightarrow> _ \<Rightarrow> (_, thrown, js_value) action"
    by (rule onward_bind_result [OF timed_fetch [OF assms]]) (rule onward_bind [OF timed_text [OF assms]], assumption, rule that)
  show ?thesis
    unfolding fiducia_post_def
    by (intro onward_if onward_throw onward_bind [OF onward_lift] exchange onward_lift onward_return)
qed

section \<open>Attempts\<close>

lemma upstash_renew_onward: "timed env every \<Longrightarrow> onward env (upstash_renew env up g ttl)"
  unfolding upstash_renew_def by (intro onward_intros command_onward)

lemma upstash_attempt_onward:
  assumes "timed env every"
  shows "onward env (upstash_attempt env up key opts holder)"
  unfolding upstash_attempt_def Let_def
  by (intro onward_bind onward_option onward_if onward_switch command_onward [OF assms] upstash_renew_onward [OF assms]
      onward_throw onward_return)

lemma do_client_attempt_onward:
  assumes "timed env every"
  shows "onward env (do_client_attempt env dc key opts holder rid)"
  unfolding do_client_attempt_def do_client_renew_def Let_def by (intro onward_intros do_post_onward [OF assms])

lemma rpc_attempt_onward:
  assumes "\<And>k req. onward env (ns k req)"
  shows "onward env (rpc_attempt ns key opts step holder rid)"
  unfolding rpc_attempt_def rpc_renew_def rpc_call_def Let_def
  by (auto intro!: onward_intros assms split: option.split)

section \<open>Loops\<close>

text \<open>The identities are fixed before the loop starts, at a time no earlier than the call.\<close>

lemma poll_after_identity:
  assumes "timed env (ao_retryIntervalMs opts)" and "ao_waitTimeoutMs opts = NInt limit"
    and "ao_retryIntervalMs opts = NInt every" and "0 \<le> every" and "onward env attempt" and "max 0 limit + 2 \<le> int fuel"
  shows "\<exists>r. poll_loop fuel env key opts wait ts ws (ce_now env w) attempt w = Some r"
proof (rule poll_loop_ends)
  show "ce_now env u \<le> ce_now env (snd (attempt u))" for u using assms(5) by (simp add: onward_def)
  show "ce_now env u < ce_now env (ce_sleep env (NInt every) u)" for u
    using timed_sleep [OF assms(1)] assms(3) by simp
qed (use assms in auto)

lemma upstash_acquire_ends:
  assumes "timed env (ao_retryIntervalMs opts)" and "ao_waitTimeoutMs opts = NInt limit"
    and "ao_retryIntervalMs opts = NInt every" and "0 \<le> every" and "max 0 limit + 2 \<le> int fuel"
  shows "\<exists>r. upstash_acquire env up fuel key opts wait w = Some r"
  using poll_after_identity [OF assms(1-4) upstash_attempt_onward [OF assms(1)] assms(5)]
  by (auto simp: upstash_acquire_def split: sum.split prod.split)

lemma do_client_acquire_ends:
  assumes "timed env (ao_retryIntervalMs opts)" and "ao_waitTimeoutMs opts = NInt limit"
    and "ao_retryIntervalMs opts = NInt every" and "0 \<le> every" and "max 0 limit + 2 \<le> int fuel"
  shows "\<exists>r. do_client_acquire env dc fuel key opts wait w = Some r"
  using poll_after_identity [OF assms(1-4) do_client_attempt_onward [OF assms(1)] assms(5)]
  by (auto simp: do_client_acquire_def split: sum.split prod.split)

lemma rpc_acquire_ends:
  assumes "timed env (ao_retryIntervalMs opts)" and "ao_waitTimeoutMs opts = NInt limit"
    and "ao_retryIntervalMs opts = NInt every" and "0 \<le> every" and "max 0 limit + 2 \<le> int fuel"
    and "\<And>k req. onward env (ns k req)"
  shows "\<exists>r. rpc_acquire env ns fuel key opts wait w = Some r"
  using poll_after_identity [OF assms(1-4) rpc_attempt_onward [of env ns, OF assms(6)] assms(5)]
  by (auto simp: rpc_acquire_def Let_def split: sum.split prod.split)

lemma sleepOrAbort_advances:
  assumes "timed env every" and "timed_signal env sig every" and "sleepOrAbort env sig every w = (ab, w')"
    and "\<not> (ab \<and> sig \<noteq> None)"
  shows "ce_now env w < ce_now env w'"
  using assms timed_sleep [OF assms(1), of w]
  by (cases sig) (auto simp: sleepOrAbort_def timed_signal_def aborted_def split: if_splits)

lemma fiducia_loop_ends:
  assumes t: "timed env (ao_retryIntervalMs opts)" "timed_signal env sig (ao_retryIntervalMs opts)"
    and opts: "ao_waitTimeoutMs opts = NInt limit" "ao_retryIntervalMs opts = NInt every" "0 \<le> every"
    and "started \<le> ce_now env w" and "limit - (ce_now env w - started) + 1 < int fuel" and "0 < fuel"
  shows "\<exists>r. fiducia_loop fuel env fd sig key opts wait started holder rid att w = Some r"
  using assms(6-8)
proof (induction fuel arbitrary: w att)
  case (Suc fuel)
  obtain r w1 where post: "fiducia_post env fd ''/v1/locks/acquire'' (acquire_fields key opts wait holder rid) w = (r, w1)"
    by fastforce
  obtain ab w2 where sl: "sleepOrAbort env sig (ao_retryIntervalMs opts) w1 = (ab, w2)" by fastforce
  have later: "ce_now env w \<le> ce_now env w1" by (rule onwardD [OF fiducia_post_onward [OF t(1)] post])
  have "\<exists>r. fiducia_loop fuel env fd sig key opts wait started holder rid True w2 = Some r"
    if "\<not> limit < ce_now env w1 - started + every" "\<not> (ab \<and> sig \<noteq> None)"
    using that later sleepOrAbort_advances [OF t sl that(2)] Suc.prems opts(3) by (intro Suc.IH) auto
  with post sl opts(1,2) show ?case
    by (auto simp: Let_def split: sum.split)
qed simp

lemma fiducia_acquire_ends:
  assumes "timed env (ao_retryIntervalMs opts)" and "timed_signal env sig (ao_retryIntervalMs opts)"
    and "ao_waitTimeoutMs opts = NInt limit"
    and "ao_retryIntervalMs opts = NInt every" and "0 \<le> every" and "max 0 limit + 2 \<le> int fuel"
  shows "\<exists>r. fiducia_acquire env fd sig fuel key opts wait w = Some r"
proof -
  have "\<exists>r. fiducia_loop fuel env fd sig key opts wait (ce_now env u) holder rid False u = Some r" for u holder rid
    using assms by (intro fiducia_loop_ends) auto
  then show ?thesis by (auto simp: fiducia_acquire_def split: sum.split prod.split)
qed

lemma beam_loop_ends:
  assumes t: "timed env (ao_retryIntervalMs opts)"
    and opts: "ao_waitTimeoutMs opts = NInt limit" "ao_retryIntervalMs opts = NInt every" "0 \<le> every"
    and "started \<le> ce_now env (be_world s)"
    and "limit - (ce_now env (be_world s) - started) + 1 + int (1 - retries) < int fuel" and "1 - retries < fuel"
  shows "\<exists>r. beam_loop fuel env bs key opts wait started holder rid retries s = Some r"
  using assms(5-7)
proof (induction fuel arbitrary: s retries)
  case (Suc fuel)
  obtain r w1 where post: "beam_post env bs ''acquire'' key (beam_acquire_body key opts holder rid) (be_world s) = (r, w1)"
    by fastforce
  have later: "ce_now env (be_world s) \<le> ce_now env w1" by (rule onwardD [OF beam_post_onward [OF t] post])
  let ?next = "s\<lparr>be_world := ce_sleep env (NInt every) w1\<rparr>"
  have sleeps: "ce_now env w1 < ce_now env (be_world ?next)"
    using timed_sleep [OF t] opts(2) by simp
  have polled: "\<exists>r. beam_loop fuel env bs key opts wait started holder rid retries ?next = Some r"
    if "\<not> limit < ce_now env w1 - started + every"
    using that later sleeps Suc.prems opts(3) by (intro Suc.IH) auto
  have retried: "\<exists>r. beam_loop fuel env bs key opts wait started holder rid (Suc 0) (s\<lparr>be_world := w1\<rparr>) = Some r"
    if "retries = 0"
    using that later Suc.prems opts(3) by (intro Suc.IH) auto
  from post polled retried opts(1,2) show ?case
    by (auto simp: Let_def beam_world_apply split: sum.split)
qed simp

lemma beam_acquire_ends:
  assumes "timed env (ao_retryIntervalMs opts)" and "ao_waitTimeoutMs opts = NInt limit"
    and "ao_retryIntervalMs opts = NInt every" and "0 \<le> every" and "max 0 limit + 3 \<le> int fuel"
  shows "\<exists>r. beam_acquire env bs fuel key opts wait s = Some r"
proof -
  have "\<exists>r. beam_loop fuel env bs key opts wait (ce_now env (be_world u)) holder rid 0 u = Some r" for u holder rid
    using assms by (intro beam_loop_ends) auto
  then show ?thesis by (auto simp: beam_acquire_def split: sum.split prod.split)
qed

text \<open>The Redlock adapter has its own clock, timer and client.\<close>

definition timed_redlock :: "('w, 'h) redlock_env \<Rightarrow> ('w \<Rightarrow> int) \<Rightarrow> bool" where
  "timed_redlock rk clock \<longleftrightarrow>
     (\<forall>w. rk_now rk w = NInt (clock w)) \<and>
     (\<forall>k t w. clock w \<le> clock (snd (rk_acquire rk k t w))) \<and>
     (\<forall>ms w. clock w < clock (snd (rk_sleep rk ms w)))"

lemma redlock_loop_ends:
  assumes t: "timed_redlock rk clock" and opts: "ao_waitTimeoutMs opts = NInt limit"
    and "started \<le> clock (rs_world s)" and "limit - (clock (rs_world s) - started) + 1 < int fuel" and "0 < fuel"
  shows "\<exists>r. redlock_loop fuel rk key opts wait holder (NInt started) s = Some r"
  using assms(3-5)
proof (induction fuel arbitrary: s)
  case (Suc fuel)
  obtain r w1 where acq: "rk_acquire rk key (ao_ttlMs opts) (rs_world s) = (r, w1)" by fastforce
  have now: "rk_now rk u = NInt (clock u)" for u using t by (simp add: timed_redlock_def)
  have "clock (rs_world s) \<le> clock (snd (rk_acquire rk key (ao_ttlMs opts) (rs_world s)))"
    using t by (simp add: timed_redlock_def)
  with acq have later: "clock (rs_world s) \<le> clock w1" by simp
  let ?ms = "num_min (ao_retryIntervalMs opts) (num_sub (NInt limit) (NInt (clock w1 - started)))"
  obtain z w2 where sl: "rk_sleep rk ?ms w1 = (z, w2)" by fastforce
  have "clock w1 < clock (snd (rk_sleep rk ?ms w1))" using t by (simp add: timed_redlock_def)
  with sl have sleeps: "clock w1 < clock w2" by simp
  have "\<exists>r. redlock_loop fuel rk key opts wait holder (NInt started) (s\<lparr>rs_world := w2\<rparr>) = Some r"
    if "\<not> limit \<le> clock w1 - started"
    using that later sleeps Suc.prems by (intro Suc.IH) auto
  with acq sl now opts show ?case
    by (auto simp: Let_def in_world_apply num_sub_def split: sum.split redlock_kind.split)
qed simp

lemma redlock_acquire_ends:
  assumes "timed_redlock rk clock" and "ao_waitTimeoutMs opts = NInt limit" and "max 0 limit + 2 \<le> int fuel"
  shows "\<exists>r. redlock_acquire rk fuel key opts wait s = Some r"
proof -
  have "\<exists>r. redlock_loop fuel rk key opts wait holder (rk_now rk (rs_world u)) u = Some r" for u holder
    using assms redlock_loop_ends [OF assms(1,2), of "clock (rs_world u)" u] by (auto simp: timed_redlock_def)
  then show ?thesis by (auto simp: redlock_acquire_def split: sum.split prod.split)
qed

section \<open>A guarded run over the Durable Object authority\<close>

text \<open>
  The RPC adapter as the \<open>Lease\<close> of a guarded run. An acquisition that needs more than \<open>fuel\<close> polls
  is shown as an error of its own; \<open>rpc_acquire_ends\<close> says when that cannot happen.
\<close>

abbreviation polls_exhausted :: thrown where "polls_exhausted \<equiv> Thrown_error 361"

definition rpc_lease :: "do_world client_env \<Rightarrow> nat \<Rightarrow> (do_world, client_grant) lease" where
  "rpc_lease ce fuel = \<lparr>
     lease_acquire = (\<lambda>key opts wait w.
       case rpc_acquire ce namespace_call fuel key opts wait w of Some r \<Rightarrow> r | None \<Rightarrow> (Inl polls_exhausted, w)),
     lease_renew = (\<lambda>g ttl. rpc_renew namespace_call g (NInt ttl)),
     lease_release = rpc_release namespace_call\<rparr>"

lemma do_release_late:
  assumes "ds_row st = granted_row h rid n e" and "e \<le> de_now env" and "de_alarm_ok env"
    and "validHolder (get_prop body ''holder'')" and "get_prop body ''fencing_token'' = JString (dec_nat n)"
    and "0 < n" and "n \<le> MAX_MINTED_FENCING_TOKEN"
  shows "do_release env body st = (Inr Release_expired, \<lparr>ds_row = clearLease (granted_row h rid n e), ds_alarm = None\<rparr>)"
  using assms
  by (simp add: do_release_def transactionSync_def release_body_def granted_row_def
      canonicalToken_dec_nat bind_st_def deleteAlarm_def Let_def)

definition released_object :: "js_string \<Rightarrow> js_string option \<Rightarrow> nat \<Rightarrow> int \<Rightarrow> do_storage" where
  "released_object h rid n e = \<lparr>ds_row = clearLease (granted_row h rid n e), ds_alarm = None\<rparr>"

lemma released_object_free:
  "live_owner (ds_row (released_object h rid n e)) now = None" "storage_counter (released_object h rid n e) = n"
  by (simp_all add: released_object_def clearLease_def granted_row_def live_owner_def storage_counter_def row_counter_def)

text \<open>The owner's release, in time or late: the object is free either way, but only in time is it confirmed.\<close>

lemma rpc_release_owner:
  assumes row: "ds_row (dw_objects w key) = granted_row h rid n e" and calls: "dw_calls w = (Rpc_ok, env) # rest"
    and ok: "de_alarm_ok env" "validHolder (JString h)" and n: "0 < n" "n \<le> MAX_MINTED_FENCING_TOKEN"
  shows "rpc_release namespace_call (session_grant key h n ttl e') w =
    (Inr (de_now env < e), \<lparr>dw_objects = (dw_objects w)(key := released_object h rid n e), dw_calls = rest\<rparr>)"
proof -
  let ?body = "object_literal [(''holder'', JString h), (''fencing_token'', JString (dec_nat n))]"
  let ?out = "if de_now env < e then Release_done else Release_expired"
  have tok: "dec_int (int n) = dec_nat n" by (simp add: dec_int_def)
  have "do_release env ?body (dw_objects w key) = (Inr ?out, released_object h rid n e)"
    using do_release_owner [of "dw_objects w key" h rid n e env ?body]
      do_release_late [of "dw_objects w key" h rid n e env ?body] row ok n
    by (simp add: released_object_def get_prop_literal)
  then have ns: "namespace_call key (Do_release ?body) w = (Inr (answer_object (Answer_release ?body ?out)),
      \<lparr>dw_objects = (dw_objects w)(key := released_object h rid n e), dw_calls = rest\<rparr>)"
    by (simp add: namespace_call_def call_object_def calls do_answer_of_def)
  show ?thesis
    unfolding rpc_release_def
    by (simp add: session_grant_def tok rpc_call_def bind_st_apply catch_st_apply ns without_error_def
        has_error_literal get_prop_literal)
qed

section \<open>Properties\<close>

text \<open>C17: waiting for a lease ends. With a finite time to wait, a retry interval that is not negative, and a
  transport whose calls never move the clock backwards and whose timers move it forward, every
  acquisition of every adapter returns a grant or an error, and within a number of polls bounded by
  the milliseconds it may wait: over Upstash, over the Durable Object's HTTP and RPC interfaces,
  over a fiducia node with any abort signal, over BeamScale (one poll more, for the one retry of an
  ambiguous failure) and over Redlock.\<close>

theorem adapters_acquire_end:
  assumes "timed env (ao_retryIntervalMs opts)" and "timed_signal env sig (ao_retryIntervalMs opts)"
    and "ao_waitTimeoutMs opts = NInt limit" and "ao_retryIntervalMs opts = NInt every" and "0 \<le> every"
    and "max 0 limit + 3 \<le> int fuel" and "\<And>k req. onward env (ns k req)" and "timed_redlock rk clock"
  shows "(\<exists>r. upstash_acquire env up fuel key opts wait w = Some r) \<and>
    (\<exists>r. do_client_acquire env dc fuel key opts wait w = Some r) \<and>
    (\<exists>r. rpc_acquire env ns fuel key opts wait w = Some r) \<and>
    (\<exists>r. fiducia_acquire env fd sig fuel key opts wait w = Some r) \<and>
    (\<exists>r. beam_acquire env bs fuel key opts wait s = Some r) \<and>
    (\<exists>r. redlock_acquire rk fuel key opts wait v = Some r)"
proof -
  have fuel: "max 0 limit + 2 \<le> int fuel" using assms(6) by simp
  show ?thesis
    by (intro conjI upstash_acquire_ends [OF assms(1,3-5) fuel] do_client_acquire_ends [OF assms(1,3-5) fuel]
      rpc_acquire_ends [where ns = ns, OF assms(1,3-5) fuel assms(7)] fiducia_acquire_ends [OF assms(1-5) fuel]
      beam_acquire_ends [OF assms(1,3-6)] redlock_acquire_ends [OF assms(8,3) fuel])
qed

text \<open>A transport for the witness: every call fails, the timer takes one millisecond.\<close>

definition ticking_env :: "int client_env" where
  "ticking_env = \<lparr>ce_fetch = (\<lambda>url init now. (Inl (Thrown_error 1), now)), ce_now = (\<lambda>now. now),
     ce_sleep = (\<lambda>ms now. now + 1), ce_holder = return_st [104], ce_requestId = return_st [114],
     ce_stringify = (\<lambda>_. []), ce_parse = (\<lambda>_. Inl (Thrown_error 2))\<rparr>"

definition ticking_redlock :: "(int, unit) redlock_env" where
  "ticking_redlock = \<lparr>rk_acquire = (\<lambda>key ttl now. (Inl (Thrown_error 1), now)), rk_expiration = (\<lambda>_. NInt 0),
     rk_extend = (\<lambda>h ttl now. (Inl (Thrown_error 1), now)), rk_release = (\<lambda>h now. (Inr (), now)),
     rk_next = (\<lambda>key holder rid now. (Inr 1, now)), rk_classify = (\<lambda>_. Inr Redlock_contention), rk_now = NInt,
     rk_sleep = (\<lambda>ms now. (Inr (), now + 1)), rk_holder = return_st [104]\<rparr>"

definition busy_namespace :: "int rpc_namespace" where
  "busy_namespace key req = return_st (object_literal [(''acquired'', JBool False)])"

theorem adapters_acquire_end_witness:
  "(\<exists>r. rpc_acquire ticking_env busy_namespace 200 [107] queued_options True 0 = Some r) \<and>
   (\<exists>r. redlock_acquire ticking_redlock 200 [107] queued_options True \<lparr>rs_world = 0, rs_held = Map.empty\<rparr> = Some r)"
proof -
  have "timed ticking_env (ao_retryIntervalMs queued_options)"
    by (auto simp: timed_def onward_def ticking_env_def)
  moreover have "timed_signal ticking_env None (ao_retryIntervalMs queued_options)" by (simp add: timed_signal_def)
  moreover have "onward ticking_env (busy_namespace k req)" for k req by (simp add: busy_namespace_def onward_intros)
  moreover have "timed_redlock ticking_redlock (\<lambda>w. w)" by (simp add: timed_redlock_def ticking_redlock_def)
  moreover have "ao_waitTimeoutMs queued_options = NInt 150" "ao_retryIntervalMs queued_options = NInt 100"
    by (simp_all add: queued_options_def)
  ultimately show ?thesis
    using adapters_acquire_end [of ticking_env queued_options None 150 100 200 busy_namespace ticking_redlock "\<lambda>w. w"] by simp
qed

end
