(* ===== verification/Renewal_Corpus.thy ===== *)
theory Renewal_Corpus
  imports Renewal
begin

text \<open>
  \<open>scripts/check-renewal-corpus.mjs\<close>: the checker of the renewal corpus carries its own formulation of
  the schedule, \<open>evaluate\<close>, which every runtime's supervisor is compared with. It is shown equivalent
  to building a \<open>RenewalSupervisor\<close> and asking it to decide once.
\<close>

section \<open>Definitions\<close>

text \<open>The script asserts that the five times are safe integers before it evaluates an entry.\<close>

record corpus_entry =
  ce_startMs :: int
  ce_ttlMs :: int
  ce_renewEveryMs :: int
  ce_safetyMarginMs :: int
  ce_nowMs :: int

datatype verdict_kind = Verdict_wait | Verdict_renew_now | Verdict_lost | Verdict_invalid

record verdict =
  vd_kind :: verdict_kind
  vd_checkInMs :: int
  vd_reason :: "renewal_loss_reason option"

definition invalid_entry :: "renewal_loss_reason \<Rightarrow> verdict" where
  "invalid_entry r = \<lparr>vd_kind = Verdict_invalid, vd_checkInMs = 0, vd_reason = Some r\<rparr>"

definition lost_entry :: "renewal_loss_reason \<Rightarrow> verdict" where
  "lost_entry r = \<lparr>vd_kind = Verdict_lost, vd_checkInMs = 0, vd_reason = Some r\<rparr>"

definition evaluate :: "corpus_entry \<Rightarrow> verdict" where
  "evaluate entry =
     (let mx = 9007199254740991; maxTtl = 9223372036854 in
      if ce_startMs entry < 0 \<or> mx < ce_startMs entry then invalid_entry Deadline_overflow
      else if ce_ttlMs entry \<le> 0 \<or> maxTtl < ce_ttlMs entry then invalid_entry Invalid_ttl
      else if ce_renewEveryMs entry \<le> 0 \<or> ce_safetyMarginMs entry \<le> 0 \<or> ce_ttlMs entry \<le> ce_renewEveryMs entry \<or>
              ce_ttlMs entry \<le> ce_safetyMarginMs entry then invalid_entry Invalid_policy
      else if mx < ce_startMs entry + ce_ttlMs entry \<or> mx < ce_startMs entry + ce_renewEveryMs entry
        then invalid_entry Deadline_overflow
      else
        let deadline = ce_startMs entry + ce_ttlMs entry;
            next_due = min (ce_startMs entry + ce_renewEveryMs entry) (deadline - ce_safetyMarginMs entry) in
        if ce_nowMs entry < ce_startMs entry then lost_entry Clock_regression
        else if deadline \<le> ce_nowMs entry then lost_entry Expired
        else if next_due \<le> ce_nowMs entry then \<lparr>vd_kind = Verdict_renew_now, vd_checkInMs = 0, vd_reason = None\<rparr>
        else \<lparr>vd_kind = Verdict_wait, vd_checkInMs = next_due - ce_nowMs entry, vd_reason = None\<rparr>)"

text \<open>What the supervisor makes of an entry, for a grant that is well formed apart from its time to live.\<close>

definition policy_object :: "int \<Rightarrow> int \<Rightarrow> js_value" where
  "policy_object every margin =
     object_literal [(''renewEveryMs'', JNumber (NInt every)), (''safetyMarginMs'', JNumber (NInt margin))]"

definition decision_verdict :: "renewal_decision \<Rightarrow> verdict" where
  "decision_verdict d =
     (case d of
        Wait n \<Rightarrow> \<lparr>vd_kind = Verdict_wait, vd_checkInMs = n, vd_reason = None\<rparr>
      | Renew_now \<Rightarrow> \<lparr>vd_kind = Verdict_renew_now, vd_checkInMs = 0, vd_reason = None\<rparr>
      | Lost r \<Rightarrow> lost_entry r)"

definition supervised :: "lease_grant \<Rightarrow> corpus_entry \<Rightarrow> verdict" where
  "supervised g entry =
     (case new_supervisor (grant_object (g\<lparr>lg_ttlMs := ce_ttlMs entry\<rparr>))
             (policy_object (ce_renewEveryMs entry) (ce_safetyMarginMs entry)) (NInt (ce_startMs entry)) of
        Inl e \<Rightarrow> invalid_entry (re_reason e)
      | Inr sv \<Rightarrow> decision_verdict (fst (decide (NInt (ce_nowMs entry)) sv)))"

definition safe_entry :: "corpus_entry \<Rightarrow> bool" where
  "safe_entry entry \<longleftrightarrow> list_all (\<lambda>t. \<bar>t\<bar> \<le> MAX_SAFE_INTEGER)
     [ce_startMs entry, ce_ttlMs entry, ce_renewEveryMs entry, ce_safetyMarginMs entry, ce_nowMs entry]"

section \<open>Lemmas\<close>

lemma snapshotPolicy_object:
  assumes "every \<le> MAX_SAFE_INTEGER" and "margin \<le> MAX_SAFE_INTEGER"
  shows "snapshotPolicy (policy_object every margin) =
    (if 0 < every \<and> 0 < margin then Inr \<lparr>rp_renewEveryMs = every, rp_safetyMarginMs = margin\<rparr> else Inl (loss Invalid_policy))"
  using assms
  by (auto simp: snapshotPolicy_def closedOwnDataProperties_def policy_object_def object_literal_def POLICY_FIELDS_def
      has_own_def field_def policy_number_def isPositiveSafeInteger_def
      closed_scan_literal [where fs = "[_, _]", simplified])

lemma snapshotGrant_bad_ttl:
  assumes "valid_grant g" and "\<not> (0 < t \<and> t \<le> MAX_RENEWAL_TTL_MS)"
  shows "snapshotGrant (grant_object (g\<lparr>lg_ttlMs := t\<rparr>)) = Inl (loss Invalid_ttl)"
proof -
  have "grant_ttl (JNumber (NInt t)) = Inl (loss Invalid_ttl)"
    using assms(2) renewal_ttl_bound by (auto simp: grant_ttl_def)
  with assms(1) show ?thesis
    by (cases "lg_leaseExpiresMs g")
      (auto simp: snapshotGrant_def closedOwnDataProperties_def grant_object_def object_literal_def GRANT_FIELDS_def has_own_def
        field_def valid_grant_def closed_scan_literal [where fs = "[_, _, _, _]", simplified]
        closed_scan_literal [where fs = "[_, _, _, _, _]", simplified])
qed

lemma valid_grant_ttl: "valid_grant g \<Longrightarrow> 0 < t \<Longrightarrow> t \<le> MAX_RENEWAL_TTL_MS \<Longrightarrow> valid_grant (g\<lparr>lg_ttlMs := t\<rparr>)"
  by (simp add: valid_grant_def)

text \<open>The constructor on an entry, by cases.\<close>

lemma new_supervisor_entry:
  assumes g: "valid_grant g" and safe: "safe_entry en"
  defines "grant \<equiv> grant_object (g\<lparr>lg_ttlMs := ce_ttlMs en\<rparr>)"
    and "pol \<equiv> policy_object (ce_renewEveryMs en) (ce_safetyMarginMs en)"
    and "deadline \<equiv> ce_startMs en + ce_ttlMs en"
  shows "new_supervisor grant pol (NInt (ce_startMs en)) =
    (if \<not> (0 < ce_ttlMs en \<and> ce_ttlMs en \<le> MAX_RENEWAL_TTL_MS) then Inl (loss Invalid_ttl)
     else if \<not> (0 < ce_renewEveryMs en \<and> 0 < ce_safetyMarginMs en) then Inl (loss Invalid_policy)
     else if ce_startMs en < 0 then Inl (loss Deadline_overflow)
     else if ce_ttlMs en \<le> ce_renewEveryMs en \<or> ce_ttlMs en \<le> ce_safetyMarginMs en then Inl (loss Invalid_policy)
     else if MAX_SAFE_INTEGER < deadline then Inl (loss Deadline_overflow)
     else Inr \<lparr>sv_grant = g\<lparr>lg_ttlMs := ce_ttlMs en\<rparr>,
            sv_policy = \<lparr>rp_renewEveryMs = ce_renewEveryMs en, rp_safetyMarginMs = ce_safetyMarginMs en\<rparr>,
            sv_localDeadlineMs = deadline, sv_nextRenewalMs = min (ce_startMs en + ce_renewEveryMs en) (deadline - ce_safetyMarginMs en),
            sv_lastObservedMs = ce_startMs en, sv_loss = None\<rparr>)"
proof (cases "0 < ce_ttlMs en \<and> ce_ttlMs en \<le> MAX_RENEWAL_TTL_MS")
  case False
  from snapshotGrant_bad_ttl [OF g False] False show ?thesis by (simp add: new_supervisor_def grant_def)
next
  case True
  have bounds: "ce_startMs en \<le> MAX_SAFE_INTEGER" "ce_renewEveryMs en \<le> MAX_SAFE_INTEGER" "ce_safetyMarginMs en \<le> MAX_SAFE_INTEGER"
    using safe by (simp_all add: safe_entry_def abs_le_iff)
  have snap: "snapshotGrant grant = Inr (g\<lparr>lg_ttlMs := ce_ttlMs en\<rparr>)"
    unfolding grant_def by (rule snapshotGrant_object [OF valid_grant_ttl [OF g]]) (use True in simp_all)
  note pol = snapshotPolicy_object [OF bounds(2,3), folded pol_def]
  from True bounds renewal_ttl_bound show ?thesis
    by (auto simp: new_supervisor_def snap pol makeSchedule_def validateClock_def isPositiveSafeInteger_def deadline_def Let_def
        require_def min_def)
qed

lemma decide_fresh:
  assumes "sv_loss sv = None" and "0 \<le> now" and "now \<le> MAX_SAFE_INTEGER"
  shows "fst (decide (NInt now) sv) =
    (if now < sv_lastObservedMs sv then Lost Clock_regression
     else if sv_localDeadlineMs sv \<le> now then Lost Expired
     else if sv_nextRenewalMs sv \<le> now then Renew_now else Wait (sv_nextRenewalMs sv - now))"
  using assms by (simp add: decide_def validateClock_def lose_def record_loss_def Let_def)

section \<open>Properties\<close>

text \<open>C37: the reference schedule of the corpus checker is the supervisor's. For every entry of safe
  integers and every well-formed grant, building a supervisor and deciding once gives the verdict of
  \<open>evaluate\<close>: the same kind and the same time to the next check whatever the clock reads, and the same
  reason for a loss or a refusal whenever the two clock readings are not negative.\<close>

theorem renewal_reference_agrees:
  assumes "valid_grant g" and "safe_entry en"
  shows "vd_kind (supervised g en) = vd_kind (evaluate en) \<and> vd_checkInMs (supervised g en) = vd_checkInMs (evaluate en) \<and>
    (0 \<le> ce_startMs en \<and> 0 \<le> ce_nowMs en \<longrightarrow> supervised g en = evaluate en)"
proof -
  have bounds: "ce_startMs en \<le> MAX_SAFE_INTEGER" "ce_nowMs en \<le> MAX_SAFE_INTEGER" using assms(2) by (simp_all add: safe_entry_def abs_le_iff)
  note limits = MAX_SAFE_INTEGER_def MAX_RENEWAL_TTL_MS_def
  have early: "fst (decide (NInt now) sv) = Lost Deadline_overflow" if "now < 0" "sv_loss sv = None" for now sv
    using that by (simp add: decide_def validateClock_def require_def lose_def record_loss_def)
  show ?thesis
    unfolding supervised_def new_supervisor_entry [OF assms]
    using bounds
    by (cases "0 \<le> ce_nowMs en")
      (auto simp: evaluate_def Let_def invalid_entry_def lost_entry_def decision_verdict_def decide_fresh early limits)
qed

definition sample_entry :: corpus_entry where
  "sample_entry = \<lparr>ce_startMs = 100, ce_ttlMs = 1000, ce_renewEveryMs = 400, ce_safetyMarginMs = 200, ce_nowMs = 150\<rparr>"

theorem renewal_reference_agrees_witness:
  "supervised (sample_grant 1100) sample_entry = evaluate sample_entry \<and>
   evaluate sample_entry = \<lparr>vd_kind = Verdict_wait, vd_checkInMs = 350, vd_reason = None\<rparr>"
  using renewal_reference_agrees [OF sample_grant_valid, of 1100 sample_entry]
  by (simp add: sample_entry_def safe_entry_def MAX_SAFE_INTEGER_def evaluate_def Let_def)

end
