(* ===== verification/Fence_Corpus.thy ===== *)
theory Fence_Corpus
  imports Fence Upstash
begin

text \<open>
  \<open>scripts/generate-fence-adversarial.mjs\<close>: the generator of the corpus that every implementation of
  the fencing decision is tested against. The expected verdicts are written into the corpus by the
  generator, not computed by \<open>evaluateFence\<close>; the theorems say that they are the verdicts of
  \<open>evaluateFence\<close>, for every seed: of each generated decision case, of each step of the generated
  store sequence when it is replayed against a store, and of each malformed input. SHA-256 is the
  argument \<open>digest\<close>, of which only the form of its hexadecimal text is used, and for the cases
  "changed payload" that the two payloads have different digests.
\<close>

unbundle bit_operations_syntax

section \<open>Definitions\<close>

subsection \<open>Numbers and text\<close>

abbreviation unknown_request_field :: thrown where "unknown_request_field \<equiv> Thrown_error 401"
abbreviation sequence_not_started :: thrown where "sequence_not_started \<equiv> Thrown_error 402"
abbreviation sequence_state_missing :: thrown where "sequence_state_missing \<equiv> Thrown_error 403"
abbreviation sequence_wrong_length :: thrown where "sequence_wrong_length \<equiv> Thrown_error 404"

definition U64_MASK :: nat where
  "U64_MASK = 2 ^ 64 - 1"

type_synonym u64 = "64 word"

text \<open>The closure's variable \<open>state\<close> is passed on; masked big-integer operations are operations on 64-bit words.\<close>

definition xorshift_start :: "u64 \<Rightarrow> u64" where
  "xorshift_start seed = (if seed = 0 then 0x9e3779b97f4a7c15 else seed)"

definition xorshift64star :: "u64 \<Rightarrow> u64 \<times> u64" where
  "xorshift64star s0 =
     (let s1 = s0 XOR drop_bit 12 s0;
          s2 = s1 XOR push_bit 25 s1;
          s3 = s2 XOR drop_bit 27 s2
      in (s3 * 0x2545f4914f6cdd1d, s3))"

text \<open>\<open>seed.toString(16)\<close> and \<open>padStart\<close>.\<close>

fun hex_nat :: "nat \<Rightarrow> js_string" where
  "hex_nat n = (if n < 16 then [hex_unit n] else hex_nat (n div 16) @ [hex_unit (n mod 16)])"

declare hex_nat.simps [simp del]

definition padStart :: "nat \<Rightarrow> js_string \<Rightarrow> js_string" where
  "padStart n s = replicate (n - length s) 48 @ s"

definition DIGEST_A :: js_string where "DIGEST_A = replicate 64 97"
definition DIGEST_B :: js_string where "DIGEST_B = replicate 64 98"
definition DIGEST_C :: js_string where "DIGEST_C = concat (replicate 4 (js ''0123456789abcdef''))"

definition PROFILE_ITERATIONS :: "string \<Rightarrow> nat option" where
  "PROFILE_ITERATIONS = [''pr'' \<mapsto> 24, ''scheduled'' \<mapsto> 512]"

definition PROFILE_STORE_SEQUENCE :: "string \<Rightarrow> nat option" where
  "PROFILE_STORE_SEQUENCE = [''pr'' \<mapsto> 128, ''scheduled'' \<mapsto> 2048]"

subsection \<open>Requests and cases\<close>

definition VALID_FIELDS :: "string list" where
  "VALID_FIELDS = [''tenantScope'', ''resourceKey'', ''fencingToken'', ''operationId'', ''payloadSha256'', ''holder'', ''leaseId'']"

text \<open>\<open>{ ...base, ...overrides }\<close>: an existing member keeps its place.\<close>

fun spread :: "(string \<times> 'v) list \<Rightarrow> (string \<times> 'v) list \<Rightarrow> (string \<times> 'v) list" where
  "spread base [] = base"
| "spread base ((n, v) # rest) =
     spread (if n \<in> fst ` set base then map (\<lambda>(m, u). (m, if m = n then v else u)) base else base @ [(n, v)]) rest"

definition request_tenant :: js_string where "request_tenant = js ''tenant/acme''"
definition request_resource :: js_string where "request_resource = js ''example/jobs/rebuild''"

definition request :: "nat \<Rightarrow> js_string \<Rightarrow> js_string \<Rightarrow> (string \<times> js_value) list \<Rightarrow> thrown + js_value" where
  "request tok operationId payloadSha256 overrides =
     (let value = spread [(''tenantScope'', JString request_tenant), (''resourceKey'', JString request_resource),
            (''fencingToken'', JString (dec_nat tok)), (''operationId'', JString operationId),
            (''payloadSha256'', JString payloadSha256)] overrides
      in if list_all (\<lambda>(n, _). n \<in> set VALID_FIELDS) value then Inr (object_literal value) else Inl unknown_request_field)"

definition expected :: "fence_decision_kind \<Rightarrow> nat \<Rightarrow> nat \<Rightarrow> nat option \<Rightarrow> fence_decision" where
  "expected kind incoming current previous =
     \<lparr>fd_kind = kind, fd_shouldApply = (kind = Advanced), fd_incomingToken = dec_nat incoming,
      fd_currentToken = dec_nat current, fd_previousToken = map_option dec_nat previous\<rparr>"

text \<open>A case of the corpus: \<open>expected\<close> is a decision or the code of \<open>expectedError\<close>.\<close>

record corpus_case =
  cc_name :: js_string
  cc_current :: js_value
  cc_incoming :: js_value
  cc_expected :: "fence_code + fence_decision"

definition decisionCase ::
  "js_string \<Rightarrow> thrown + js_value \<Rightarrow> thrown + js_value \<Rightarrow> fence_code + fence_decision \<Rightarrow> thrown + corpus_case" where
  "decisionCase name current incoming result =
     and_then current (\<lambda>c. and_then incoming (\<lambda>i.
     Inr \<lparr>cc_name = name, cc_current = c, cc_incoming = i, cc_expected = result\<rparr>))"

text \<open>Cases are pushed in order; the first exception ends the generator.\<close>

fun collect :: "('e + 'a) list \<Rightarrow> 'e + 'a list" where
  "collect [] = Inr []"
| "collect (x # xs) = and_then x (\<lambda>a. and_then (collect xs) (\<lambda>as. Inr (a # as)))"

definition boundaries :: "nat list" where
  "boundaries = [0, 1, 9, 10, 99, 100, 2 ^ 53 - 1, 2 ^ 53, 2 ^ 53 + 1, 2 ^ 63 - 1, 2 ^ 63, 2 ^ 63 + 1, U64_MASK - 1, U64_MASK]"

definition boundary_cases :: "(js_string \<Rightarrow> js_string) \<Rightarrow> nat \<times> nat \<Rightarrow> (thrown + corpus_case) list" where
  "boundary_cases digest = (\<lambda>(index, tok).
     let op = js ''boundary-first-'' @ dec_nat index;
         replayCurrent = request tok (js ''boundary-replay-'' @ dec_nat index) DIGEST_A [];
         replayIncoming = request tok (js ''boundary-replay-'' @ dec_nat index) DIGEST_A
            [(''holder'', JString (js ''retry-holder-'' @ dec_nat index))];
         reuseIncoming = request tok (js ''boundary-reuse-'' @ dec_nat index) DIGEST_B []
     in [decisionCase (js ''boundary '' @ dec_nat tok @ js '' advances an absent watermark'')
           (Inr JNull) (request tok op (digest op) []) (Inr (expected Advanced tok tok None)),
         decisionCase (js ''boundary '' @ dec_nat tok @ js '' exact replay is a no-op'')
           replayCurrent replayIncoming (Inr (expected Replay tok tok (Some tok))),
         decisionCase (js ''boundary '' @ dec_nat tok @ js '' different operation is token reuse'')
           replayCurrent reuseIncoming (Inr (expected Token_reuse tok tok (Some tok)))])"

definition transition_case :: "nat \<Rightarrow> thrown + corpus_case" where
  "transition_case index =
     (let previous = boundaries ! (index - 1); incomingToken = boundaries ! index in
      decisionCase (js ''boundary transition '' @ dec_nat previous @ js '' to '' @ dec_nat incomingToken @ js '' advances'')
        (request previous (js ''boundary-current-'' @ dec_nat index) DIGEST_A [])
        (request incomingToken (js ''boundary-next-'' @ dec_nat index) DIGEST_B [])
        (Inr (expected Advanced incomingToken incomingToken (Some previous))))"

definition case_prefix :: "u64 \<Rightarrow> nat \<Rightarrow> js_string" where
  "case_prefix seed index = js ''seed-'' @ hex_nat (unat seed) @ js ''-'' @ padStart 4 (dec_nat index)"

definition random_cases ::
  "(js_string \<Rightarrow> js_string) \<Rightarrow> js_string \<Rightarrow> u64 \<Rightarrow> u64 \<Rightarrow> (thrown + corpus_case) list" where
  "random_cases digest prefix left right0 =
     (let right = (if right0 = left then right0 + 1 else right0);
          low = unat (if left < right then left else right);
          high = unat (if left < right then right else left);
          currentOp = prefix @ js ''-current'';
          nextOp = prefix @ js ''-next'';
          replayDigest = digest (prefix @ js '':replay'')
      in [decisionCase (prefix @ js '' newer token advances'')
            (request low currentOp DIGEST_A []) (request high nextOp DIGEST_B [])
            (Inr (expected Advanced high high (Some low))),
          decisionCase (prefix @ js '' older token is stale'')
            (request high nextOp DIGEST_B []) (request low currentOp DIGEST_A [])
            (Inr (expected Stale low high (Some high))),
          decisionCase (prefix @ js '' equal token exact replay'')
            (request high currentOp replayDigest [])
            (request high currentOp replayDigest [(''holder'', JString (prefix @ js ''-retry''))])
            (Inr (expected Replay high high (Some high))),
          decisionCase (prefix @ js '' equal token changed payload'')
            (request high currentOp replayDigest [])
            (request high currentOp (digest (prefix @ js '':changed'')) [])
            (Inr (expected Token_reuse high high (Some high)))])"

text \<open>The loop over the random pairs: \<open>n\<close> rounds from \<open>index\<close> on.\<close>

fun random_rounds ::
  "(js_string \<Rightarrow> js_string) \<Rightarrow> u64 \<Rightarrow> nat \<Rightarrow> nat \<Rightarrow> u64 \<Rightarrow> (thrown + corpus_case) list" where
  "random_rounds digest seed index 0 st = []"
| "random_rounds digest seed index (Suc n) st =
     (case xorshift64star st of (left, st1) \<Rightarrow>
      (case xorshift64star st1 of (right, st2) \<Rightarrow>
         random_cases digest (case_prefix seed index) left right @ random_rounds digest seed (Suc index) n st2))"

definition e_acute :: code_unit where "e_acute = 0xE9"

definition ceiling_case :: "thrown + corpus_case" where
  "ceiling_case =
     decisionCase (js ''exact UTF-8 byte ceilings remain valid'') (Inr JNull)
       (request U64_MASK (replicate 64 e_acute) DIGEST_C
          [(''tenantScope'', JString (replicate 128 e_acute)), (''resourceKey'', JString (replicate 256 e_acute)),
           (''holder'', JString (replicate 128 e_acute)), (''leaseId'', JString (replicate 128 e_acute))])
       (Inr (expected Advanced U64_MASK U64_MASK None))"

definition mismatch_cases :: "(thrown + corpus_case) list" where
  "mismatch_cases =
     [decisionCase (js ''watermark tenant identity mismatch fails validation'')
        (request 42 (js ''identity-current'') DIGEST_A [(''tenantScope'', JString (js ''tenant/other''))])
        (request 43 (js ''identity-incoming'') DIGEST_B []) (Inl Identity_mismatch),
      decisionCase (js ''watermark resource identity mismatch fails validation'')
        (request 42 (js ''identity-current-resource'') DIGEST_A [(''resourceKey'', JString (js ''example/jobs/other''))])
        (request 43 (js ''identity-incoming-resource'') DIGEST_B []) (Inl Identity_mismatch)]"

definition generatedCaseSet :: "(js_string \<Rightarrow> js_string) \<Rightarrow> u64 \<Rightarrow> nat \<Rightarrow> thrown + corpus_case list" where
  "generatedCaseSet digest seed iterations = collect (
     concat (map (boundary_cases digest) (enumerate 0 boundaries)) @
     map transition_case [1..<length boundaries] @
     random_rounds digest seed 0 iterations (xorshift_start seed) @
     [ceiling_case] @ mismatch_cases)"

subsection \<open>The store sequence\<close>

record store_step =
  sp_request :: js_value
  sp_serializedValue :: js_string
  sp_decision :: fence_decision_kind
  sp_shouldApply :: bool
  sp_currentToken :: js_string
  sp_previousToken :: "js_string option"
  sp_stateValue :: js_string

record seq_current =
  sc_token :: nat
  sc_operationId :: js_string
  sc_payloadSha256 :: js_string

record seq_state =
  ss_sequence :: "store_step list"
  ss_current :: "seq_current option"
  ss_value :: "js_string option"

definition serialized_value :: "(js_string \<Rightarrow> js_string) \<Rightarrow> u64 \<Rightarrow> nat \<Rightarrow> js_string" where
  "serialized_value digest seed n =
     js ''state-'' @ dec_nat n @ js ''-'' @ take 20 (digest (dec_nat (unat seed) @ js '':'' @ dec_nat n))"

definition seq_append ::
  "(js_string \<Rightarrow> js_string) \<Rightarrow> u64 \<Rightarrow> fence_decision_kind \<Rightarrow> nat \<Rightarrow> js_string \<Rightarrow> js_string \<Rightarrow> seq_state \<Rightarrow> thrown + seq_state" where
  "seq_append digest seed kind tok operationId payloadSha256 st =
     (let previousToken = map_option sc_token (ss_current st) in
      and_then (request tok operationId payloadSha256 []) (\<lambda>requestValue.
      let serializedValue = serialized_value digest seed (length (ss_sequence st));
          shouldApply = (kind = Advanced);
          current = (if shouldApply then Some \<lparr>sc_token = tok, sc_operationId = operationId, sc_payloadSha256 = payloadSha256\<rparr>
                     else ss_current st);
          stateValue = (if shouldApply then Some serializedValue else ss_value st)
      in case (current, stateValue) of
           (Some c, Some v) \<Rightarrow>
             Inr \<lparr>ss_sequence = ss_sequence st @
                    [\<lparr>sp_request = requestValue, sp_serializedValue = serializedValue, sp_decision = kind,
                      sp_shouldApply = shouldApply, sp_currentToken = dec_nat (sc_token c),
                      sp_previousToken = map_option dec_nat previousToken, sp_stateValue = v\<rparr>],
                  ss_current = current, ss_value = stateValue\<rparr>
         | _ \<Rightarrow> Inl sequence_not_started))"

definition critical :: "nat list" where
  "critical = [0, 1, 2 ^ 53 - 1, 2 ^ 53, 2 ^ 53 + 1, 2 ^ 63 - 1, 2 ^ 63, 2 ^ 63 + 1]"

text \<open>The four steps around one critical token; the last one only when there is a smaller token.\<close>

definition critical_steps :: "(js_string \<Rightarrow> js_string) \<Rightarrow> u64 \<Rightarrow> nat \<times> nat \<Rightarrow> seq_state \<Rightarrow> thrown + seq_state" where
  "critical_steps digest seed = (\<lambda>(index, tok) st.
     let op = js ''sequence-critical-'' @ dec_nat index;
         other = js ''sequence-critical-reuse-'' @ dec_nat index
     in and_then (seq_append digest seed Advanced tok op (digest op) st) (\<lambda>st1.
        and_then (seq_append digest seed Replay tok op (digest op) st1) (\<lambda>st2.
        and_then (seq_append digest seed Token_reuse tok other (digest op) st2) (\<lambda>st3.
        if 0 < tok
        then seq_append digest seed Stale (tok - 1) (js ''sequence-critical-stale-'' @ dec_nat index) DIGEST_A st3
        else Inr st3))))"

fun run_steps :: "('a \<Rightarrow> 's \<Rightarrow> 'e + 's) \<Rightarrow> 'a list \<Rightarrow> 's \<Rightarrow> 'e + 's" where
  "run_steps f [] s = Inr s"
| "run_steps f (x # xs) s = and_then (f x s) (run_steps f xs)"

definition terminalReserve :: nat where "terminalReserve = 8"

text \<open>One round of the random part, with the generator's state.\<close>

definition random_step :: "(js_string \<Rightarrow> js_string) \<Rightarrow> u64 \<Rightarrow> u64 \<Rightarrow> seq_state \<Rightarrow> (thrown + seq_state) \<times> u64" where
  "random_step digest seed g st =
     (case ss_current st of
        None \<Rightarrow> (Inl sequence_state_missing, g)
      | Some c \<Rightarrow>
          (case xorshift64star g of (pick, g1) \<Rightarrow>
           let selector = unat pick mod 4; index = length (ss_sequence st) in
           if selector = 0 \<and> sc_token c < U64_MASK then
             (case xorshift64star g1 of (v, g2) \<Rightarrow>
              let remaining = U64_MASK - sc_token c;
                  delta = 1 + unat v mod (if remaining < 1000000 then remaining else 1000000)
              in (seq_append digest seed Advanced (sc_token c + delta) (js ''sequence-advance-'' @ dec_nat index)
                    (digest (js ''advance:'' @ dec_nat (unat seed) @ js '':'' @ dec_nat index)) st, g2))
           else if selector = 1 \<and> 0 < sc_token c then
             (case xorshift64star g1 of (v, g2) \<Rightarrow>
              (seq_append digest seed Stale (unat v mod sc_token c) (js ''sequence-stale-'' @ dec_nat index)
                 (digest (js ''stale:'' @ dec_nat (unat seed) @ js '':'' @ dec_nat index)) st, g2))
           else if selector = 2 then
             (seq_append digest seed Replay (sc_token c) (sc_operationId c) (sc_payloadSha256 c) st, g1)
           else
             (seq_append digest seed Token_reuse (sc_token c) (js ''sequence-reuse-'' @ dec_nat index)
                (digest (js ''reuse:'' @ dec_nat (unat seed) @ js '':'' @ dec_nat index)) st, g1)))"

lemma seq_append_length:
  "seq_append digest seed kind tok op payload st = Inr st' \<Longrightarrow> length (ss_sequence st') = Suc (length (ss_sequence st))"
  by (cases "request tok op payload []"; cases "ss_current st"; cases "ss_value st"; cases "kind = Advanced")
    (auto simp: seq_append_def Let_def)

lemma random_step_length:
  "random_step digest seed g st = (Inr st', g') \<Longrightarrow> length (ss_sequence st') = Suc (length (ss_sequence st))"
  by (auto simp: random_step_def Let_def dest: seq_append_length split: option.splits prod.splits if_splits)

text \<open>The loop appends one step per round, so it ends.\<close>

function random_loop :: "(js_string \<Rightarrow> js_string) \<Rightarrow> u64 \<Rightarrow> nat \<Rightarrow> u64 \<Rightarrow> seq_state \<Rightarrow> thrown + seq_state" where
  "random_loop digest seed limit g st =
     (if length (ss_sequence st) < limit then
        (case random_step digest seed g st of
           (Inl e, _) \<Rightarrow> Inl e
         | (Inr st', g') \<Rightarrow> random_loop digest seed limit g' st')
      else Inr st)"
  by pat_completeness auto

termination
  by (relation "measure (\<lambda>(digest, seed, limit, g, st). limit - length (ss_sequence st))")
    (auto dest!: random_step_length [OF sym])

declare random_loop.simps [simp del]

definition buildStoreSequence :: "(js_string \<Rightarrow> js_string) \<Rightarrow> u64 \<Rightarrow> nat \<Rightarrow> thrown + store_step list" where
  "buildStoreSequence digest seed requestedCount =
     and_then (run_steps (critical_steps digest seed) (enumerate 0 critical)
        \<lparr>ss_sequence = [], ss_current = None, ss_value = None\<rparr>) (\<lambda>st1.
     and_then (random_loop digest seed (requestedCount - terminalReserve) (xorshift_start (seed XOR 0xd1b54a32d192ed03)) st1) (\<lambda>st2.
     and_then (run_steps (critical_steps digest seed)
        (enumerate (length critical) [U64_MASK - 1, U64_MASK]) st2) (\<lambda>st3.
     if length (ss_sequence st3) \<noteq> requestedCount then Inl sequence_wrong_length else Inr (ss_sequence st3))))"

subsection \<open>The corpus\<close>

definition invalidTokens :: "js_string list" where
  "invalidTokens = [[], js ''00'', js ''01'', js ''+1'', js ''-1'', js ''1.0'', js '' 1'', js ''1 '', js ''1e3'', js ''1E3'',
     js ''1_000'', [0x661], [0xFF11, 0xFF12], [49, 0], [49, 10], js ''18446744073709551616'', js ''99999999999999999999'',
     js ''not-a-token'']"

text \<open>A malformed field: its name, its value and the code it must be refused with.\<close>

definition invalidFields :: "(string \<times> js_value \<times> fence_code) list" where
  "invalidFields =
     [(''tenantScope'', JString (replicate 129 e_acute), Too_long), (''resourceKey'', JString (replicate 257 e_acute), Too_long),
      (''operationId'', JString (replicate 65 e_acute), Too_long), (''holder'', JString (replicate 129 e_acute), Too_long),
      (''leaseId'', JString (replicate 129 e_acute), Too_long), (''tenantScope'', JString [], Empty_field),
      (''resourceKey'', JString [], Empty_field), (''operationId'', JString [], Empty_field), (''holder'', JString [], Empty_field),
      (''leaseId'', JString [], Empty_field)]"

definition wrongTypeCases :: "(string \<times> js_value \<times> fence_code) list" where
  "wrongTypeCases =
     [(''tenantScope'', JNumber (NInt 7), Invalid_type), (''resourceKey'', JArray [JString request_resource], Invalid_type),
      (''fencingToken'', JNumber (NInt 42), Invalid_fencing_token), (''operationId'', JBool False, Invalid_type),
      (''payloadSha256'', JArray [JString DIGEST_A], Invalid_payload_sha256), (''holder'', JNull, Invalid_type),
      (''leaseId'', object_literal [(''value'', JString (js ''lease-1''))], Invalid_type)]"

record corpus =
  co_profile :: string
  co_seed :: js_string
  co_generatedCaseCount :: nat
  co_tokenBoundaries :: "js_string list"
  co_cases :: "corpus_case list"
  co_invalidTokens :: "js_string list"
  co_invalidFields :: "(string \<times> js_value \<times> fence_code) list"
  co_wrongTypeCases :: "(string \<times> js_value \<times> fence_code) list"
  co_storeSequence :: "store_step list"

text \<open>\<open>None\<close>: a profile that the argument parser refuses.\<close>

definition buildCorpus :: "(js_string \<Rightarrow> js_string) \<Rightarrow> string \<Rightarrow> u64 \<Rightarrow> (thrown + corpus) option" where
  "buildCorpus digest profile seed =
     (case (PROFILE_ITERATIONS profile, PROFILE_STORE_SEQUENCE profile) of
        (Some iterations, Some steps) \<Rightarrow> Some (
          and_then (generatedCaseSet digest seed iterations) (\<lambda>cases.
          and_then (buildStoreSequence digest seed steps) (\<lambda>storeSequence.
          Inr \<lparr>co_profile = profile, co_seed = js ''0x'' @ hex_nat (unat seed), co_generatedCaseCount = length cases,
               co_tokenBoundaries = map dec_nat boundaries, co_cases = cases, co_invalidTokens = invalidTokens,
               co_invalidFields = invalidFields, co_wrongTypeCases = wrongTypeCases, co_storeSequence = storeSequence\<rparr>)))
      | _ \<Rightarrow> None)"

text \<open>
  \<open>assertCorpus\<close> of \<open>scripts/test-adversarial-datastores.mjs\<close>: what the test of the datastores checks of
  the sequence before it runs it. \<open>None\<close> is an exception; the state is \<open>current\<close> and \<open>state\<close>.
\<close>

fun check_steps :: "js_string option \<times> js_string option \<Rightarrow> store_step list \<Rightarrow> (js_string option \<times> js_string option) option" where
  "check_steps s [] = Some s"
| "check_steps (current, state) (p # ps) =
     (case get_prop (sp_request p) ''fencingToken'' of
        JString t \<Rightarrow>
          if \<not> canonical_token t then None
          else if (sp_decision p = Advanced) \<noteq> sp_shouldApply p then None
          else let current' = (if sp_shouldApply p then Some t else current);
                   state' = (if sp_shouldApply p then Some (sp_serializedValue p) else state)
               in if current' \<noteq> Some (sp_currentToken p) \<or> state' \<noteq> Some (sp_stateValue p) then None
                  else check_steps (current', state') ps
      | _ \<Rightarrow> None)"

definition assertCorpus :: "store_step list \<Rightarrow> bool" where
  "assertCorpus steps \<longleftrightarrow> 64 \<le> length steps \<and> check_steps (None, None) steps \<noteq> None"

text \<open>The request that the tests mutate one field of, in \<open>test/fence-adversarial.test.mjs\<close>.\<close>

definition valid_fields :: "(string \<times> js_value) list" where
  "valid_fields =
     [(''tenantScope'', JString request_tenant), (''resourceKey'', JString request_resource), (''fencingToken'', JString (js ''1'')),
      (''operationId'', JString (js ''operation-0001'')), (''payloadSha256'', JString DIGEST_A),
      (''holder'', JString (js ''worker-a'')), (''leaseId'', JString (js ''lease-a''))]"

section \<open>Texts\<close>

lemma ascii_bounded: "list_all ascii_unit s \<Longrightarrow> s \<noteq> [] \<Longrightarrow> length s \<le> n \<Longrightarrow> bounded_text n s"
  by (simp add: bounded_text_def ascii_encode_length)

lemma ascii_hex_unit: "d < 16 \<Longrightarrow> ascii_unit (hex_unit d)"
  by (auto simp: ascii_unit_def hex_unit_def word_less_nat_alt unat_of_nat simp del: of_nat_add)

lemma ascii_hex_nat: "list_all ascii_unit (hex_nat n)"
proof (induction n rule: hex_nat.induct)
  case (1 n)
  then show ?case by (subst hex_nat.simps) (simp add: ascii_hex_unit)
qed

lemma hex_nat_nonempty: "hex_nat n \<noteq> []"
  by (subst hex_nat.simps) simp

lemma hex_nat_length: "n < 16 ^ k \<Longrightarrow> 0 < k \<Longrightarrow> length (hex_nat n) \<le> k"
proof (induction n arbitrary: k rule: hex_nat.induct)
  case (1 n)
  show ?case
  proof (cases "n < 16")
    case True
    with "1.prems" show ?thesis by (subst hex_nat.simps) simp
  next
    case False
    with "1.prems" obtain k' where k: "k = Suc k'" "0 < k'" by (cases k; cases "k - 1") auto
    with "1.prems"(1) have "n div 16 < 16 ^ k'" by (intro less_mult_imp_div_less) (simp add: mult.commute)
    from "1.IH" [OF False this k(2)] False k(1) show ?thesis by (subst hex_nat.simps) simp
  qed
qed

lemma dec_nat_length: "n < 10 ^ k \<Longrightarrow> 0 < k \<Longrightarrow> length (dec_nat n) \<le> k"
proof (induction n arbitrary: k rule: dec_nat.induct)
  case (1 n)
  show ?case
  proof (cases "n < 10")
    case True
    with "1.prems" show ?thesis by (subst dec_nat.simps) simp
  next
    case False
    with "1.prems" obtain k' where k: "k = Suc k'" "0 < k'" by (cases k; cases "k - 1") auto
    with "1.prems"(1) have "n div 10 < 10 ^ k'" by (intro less_mult_imp_div_less) (simp add: mult.commute)
    from "1.IH" [OF False this k(2)] False k(1) show ?thesis by (subst dec_nat.simps) simp
  qed
qed

text \<open>Identifiers of the corpus: ASCII, not empty, and short.\<close>

definition short_text :: "nat \<Rightarrow> js_string \<Rightarrow> bool" where
  "short_text n s \<longleftrightarrow> s \<noteq> [] \<and> list_all ascii_unit s \<and> length s \<le> n"

lemma short_bounded: "short_text n s \<Longrightarrow> n \<le> m \<Longrightarrow> bounded_text m s"
  by (auto simp: short_text_def intro: ascii_bounded)

lemma short_append: "short_text m s \<Longrightarrow> short_text n t \<Longrightarrow> short_text (m + n) (s @ t)"
  by (simp add: short_text_def)

lemma short_mono: "short_text m s \<Longrightarrow> m \<le> n \<Longrightarrow> short_text n s"
  by (simp add: short_text_def)

lemma short_dec_nat: "n < 10 ^ k \<Longrightarrow> 0 < k \<Longrightarrow> short_text k (dec_nat n)"
  by (simp add: short_text_def ascii_dec_nat dec_nat_length)

lemma ascii_js: "list_all (\<lambda>c. \<not> digit7 c) s \<Longrightarrow> list_all ascii_unit (js s)"
proof (induction s)
  case (Cons c s)
  then have "ascii_unit (of_char c)" by (cases c) (simp add: ascii_unit_def of_char_def)
  with Cons show ?case by (simp add: js_simps)
qed (simp add: js_simps)

lemma short_js: "s \<noteq> [] \<Longrightarrow> list_all (\<lambda>c. \<not> digit7 c) s \<Longrightarrow> length s \<le> n \<Longrightarrow> short_text n (js s)"
  by (simp add: short_text_def ascii_js)

lemma lower_sha_constants: "lower_sha256 DIGEST_A" "lower_sha256 DIGEST_B" "lower_sha256 DIGEST_C"
proof -
  have "lower_hex 97" "lower_hex 98" "list_all lower_hex (js ''0123456789abcdef'')"
    by (simp_all add: lower_hex_def is_digit_def js_simps)
  then show "lower_sha256 DIGEST_A" "lower_sha256 DIGEST_B" "lower_sha256 DIGEST_C"
    by (auto simp: lower_sha256_def DIGEST_A_def DIGEST_B_def DIGEST_C_def list_all_iff length_concat sum_list_replicate)
qed

lemma digests_distinct: "DIGEST_A \<noteq> DIGEST_B"
  by (simp add: DIGEST_A_def DIGEST_B_def)

section \<open>Requests\<close>

definition corpus_request :: "nat \<Rightarrow> js_string \<Rightarrow> js_string \<Rightarrow> js_string option \<Rightarrow> fenced_write_request" where
  "corpus_request tok op payload holder =
     \<lparr>fw_tenantScope = request_tenant, fw_resourceKey = request_resource, fw_fencingToken = dec_nat tok,
      fw_operationId = op, fw_payloadSha256 = payload, fw_holder = holder, fw_leaseId = None\<rparr>"

lemma request_plain: "request tok op payload [] = Inr (request_object (corpus_request tok op payload None))"
  by (simp add: request_def VALID_FIELDS_def request_object_def corpus_request_def optional_prop_def)

lemma request_holder:
  "request tok op payload [(''holder'', JString h)] = Inr (request_object (corpus_request tok op payload (Some h)))"
  by (simp add: request_def VALID_FIELDS_def request_object_def corpus_request_def optional_prop_def)

lemma corpus_request_valid:
  assumes "tok \<le> U64_MASK" and "bounded_text MAX_OPERATION_ID_BYTES op" and "lower_sha256 payload"
    and "pred_option (bounded_text MAX_FENCE_METADATA_BYTES) holder"
  shows "valid_request (corpus_request tok op payload holder)"
proof -
  have "bounded_text MAX_TENANT_SCOPE_BYTES request_tenant"
    using short_bounded [OF short_js, of "''tenant/acme''" 11 MAX_TENANT_SCOPE_BYTES]
    by (simp add: request_tenant_def MAX_TENANT_SCOPE_BYTES_def)
  moreover have "valid_lock_key request_resource"
  proof -
    have "length (text_encode request_resource) = 20"
      unfolding request_resource_def by (subst ascii_encode_length [OF ascii_js]) simp_all
    then show ?thesis
      by (simp add: valid_lock_key_def js_trim_id_iff MAX_LOCK_KEY_BYTES_def) 
        (simp add: request_resource_def js_simps js_whitespace_def control_unit_def)
  qed
  ultimately show ?thesis
    using assms by (simp add: valid_request_def corpus_request_def token_text_iff U64_MASK_def MAX_FENCING_TOKEN_def)
qed

section \<open>Cases\<close>

fun error_code :: "fence_error \<Rightarrow> fence_code option" where
  "error_code (FenceValidationError c _) = Some c"
| "error_code (Fence_key_error _) = None"

text \<open>The implementation agrees with a case of the corpus.\<close>

definition case_holds :: "corpus_case \<Rightarrow> bool" where
  "case_holds c =
     (case evaluateFence (cc_current c) (cc_incoming c) of
        Inl e \<Rightarrow> (case cc_expected c of Inl code \<Rightarrow> error_code e = Some code | Inr _ \<Rightarrow> False)
      | Inr d \<Rightarrow> cc_expected c = Inr d)"

definition case_ok :: "thrown + corpus_case \<Rightarrow> bool" where
  "case_ok x = (case x of Inl _ \<Rightarrow> False | Inr c \<Rightarrow> case_holds c)"

lemma collect_ok:
  "list_all case_ok xs \<Longrightarrow> \<exists>cases. collect xs = Inr cases \<and> length cases = length xs \<and> list_all case_holds cases"
proof (induction xs)
  case (Cons x xs)
  then obtain cases where "collect xs = Inr cases" "length cases = length xs" "list_all case_holds cases" by auto
  with Cons.prems show ?case by (cases x) (simp_all add: case_ok_def)
qed simp

lemma first_case_ok:
  assumes "valid_request r" and "d = expected Advanced (token_value r) (token_value r) None"
  shows "case_ok (decisionCase name (Inr JNull) (Inr (request_object r)) (Inr d))"
proof -
  have "fw_fencingToken r = dec_nat (token_value r)"
    using assms(1) by (auto simp: token_value_def valid_request_def token_text_def canonical_decimal_parse)
  then show ?thesis
    by (simp add: case_ok_def decisionCase_def case_holds_def evaluateFence_first [OF fencedWriteRequest_object [OF assms(1)]]
        expected_def assms(2))
qed

lemma decision_case_ok:
  assumes "valid_request (corpus_request t op p h)" and "valid_request (corpus_request t' op' p' h')"
    and "kind = decide_kind (corpus_request t op p h) (corpus_request t' op' p' h')"
    and "d = expected kind t' (max t t') (Some t)"
  shows "case_ok (decisionCase name (Inr (request_object (corpus_request t op p h)))
    (Inr (request_object (corpus_request t' op' p' h'))) (Inr d))"
proof -
  have "(if decide_kind (corpus_request t op p h) (corpus_request t' op' p' h') = Advanced then t' else t) = max t t'"
    by (auto simp: decide_kind_def token_value_def corpus_request_def)
  then show ?thesis
    using evaluateFence_valid [OF assms(1) fencedWriteRequest_object [OF assms(2)]]
    by (auto simp: case_ok_def decisionCase_def case_holds_def assms(3,4) expected_def same_identity_def corpus_request_def
        split: if_splits)
qed

lemma corpus_token [simp]: "token_value (corpus_request t op p h) = t"
  by (simp add: token_value_def corpus_request_def)

lemma corpus_kind:
  "decide_kind (corpus_request t op p h) (corpus_request t' op' p' h') =
     (if t < t' then Advanced else if t' < t then Stale else if op = op' \<and> p = p' then Replay else Token_reuse)"
  by (simp add: decide_kind_def token_value_def corpus_request_def same_mutation_def)

text \<open>Labels: a literal followed by the decimal text of a number of at most ten digits.\<close>

lemma label_bounded:
  assumes "short_text 64 (js s)" and "n < 10 ^ 10"
  shows "bounded_text MAX_OPERATION_ID_BYTES (js s @ dec_nat n)" "bounded_text MAX_FENCE_METADATA_BYTES (js s @ dec_nat n)"
  using short_bounded [OF short_append [OF assms(1) short_dec_nat [OF assms(2)]]]
  by (simp_all add: MAX_OPERATION_ID_BYTES_def MAX_FENCE_METADATA_BYTES_def)

lemmas corpus_cases = request_plain request_holder corpus_kind

lemma boundary_cases_ok:
  assumes "\<And>s. lower_sha256 (digest s)" and "index < 10 ^ 10" and "tok \<le> U64_MASK"
  shows "list_all case_ok (boundary_cases digest (index, tok))"
proof -
  note short = label_bounded [OF short_js assms(2)]
  have valid: "valid_request (corpus_request tok (js s @ dec_nat index) p h)"
    if "s \<in> {''boundary-first-'', ''boundary-replay-'', ''boundary-reuse-''}" "lower_sha256 p"
      "h = None \<or> h = Some (js ''retry-holder-'' @ dec_nat index)" for s p h
    using that short(1) [of s] short(2) [of "''retry-holder-''"] by (intro corpus_request_valid [OF assms(3)]) auto
  show ?thesis
    unfolding boundary_cases_def corpus_cases Let_def prod.case list.pred_inject
    by (intro conjI TrueI first_case_ok decision_case_ok valid assms(1) lower_sha_constants)
      (simp_all add: corpus_kind digests_distinct)
qed

lemma boundaries_count: "length boundaries = 14"
  by (simp add: boundaries_def)

lemma boundary_count: "length (concat (map (boundary_cases digest) ps)) = 3 * length ps"
  by (induction ps) (auto simp: boundary_cases_def Let_def)

lemma transition_case_ok:
  assumes "1 \<le> index" and "index < length boundaries"
  shows "case_ok (transition_case index)"
proof -
  have up: "sorted_wrt (<) boundaries" "list_all (\<lambda>t. t \<le> U64_MASK) boundaries"
    by (simp_all add: boundaries_def U64_MASK_def)
  from assms have less: "boundaries ! (index - 1) < boundaries ! index"
    by (intro sorted_wrt_nth_less [OF up(1)]) auto
  have bound: "boundaries ! i \<le> U64_MASK" if "i < length boundaries" for i
    using up(2) that by (simp add: list_all_length)
  have index: "index < 10 ^ 10" using assms(2) by (simp add: boundaries_def)
  note short = label_bounded(1) [OF short_js index]
  have "valid_request (corpus_request (boundaries ! i) (js s @ dec_nat index) p None)"
    if "i < length boundaries" "lower_sha256 p" "s \<in> {''boundary-current-'', ''boundary-next-''}" for i s p
    using that short [of s] by (intro corpus_request_valid [OF bound]) auto
  then show ?thesis
    unfolding transition_case_def corpus_cases Let_def using assms less
    by (intro decision_case_ok) (auto simp: corpus_kind lower_sha_constants)
qed

lemma case_prefix_short:
  assumes "index < 10000"
  shows "short_text 26 (case_prefix seed index)"
proof -
  have "unat seed < 16 ^ 16" using unsigned_less [of seed] by simp
  then have hex: "short_text 16 (hex_nat (unat seed))"
    using hex_nat_length [of "unat seed" 16] by (simp add: short_text_def ascii_hex_nat hex_nat_nonempty)
  have "length (dec_nat index) \<le> 4" using assms by (intro dec_nat_length) simp_all
  then have pad: "short_text 4 (padStart 4 (dec_nat index))"
    using ascii_dec_nat [of index] by (auto simp: short_text_def padStart_def list_all_iff ascii_unit_def)
  have "short_text (5 + (16 + (1 + 4))) (case_prefix seed index)"
    unfolding case_prefix_def by (intro short_append short_js hex pad) simp_all
  then show ?thesis by simp
qed

lemma prefix_bounded:
  assumes "index < 10000" and "short_text 64 (js s)"
  shows "bounded_text MAX_OPERATION_ID_BYTES (case_prefix seed index @ js s)"
    "bounded_text MAX_FENCE_METADATA_BYTES (case_prefix seed index @ js s)"
  using short_bounded [OF short_append [OF case_prefix_short [OF assms(1)] assms(2)]]
  by (simp_all add: MAX_OPERATION_ID_BYTES_def MAX_FENCE_METADATA_BYTES_def)

text \<open>The payload of a "changed payload" case has another digest than the payload it replaces.\<close>

definition payloads_differ :: "(js_string \<Rightarrow> js_string) \<Rightarrow> js_string \<Rightarrow> bool" where
  "payloads_differ digest prefix \<longleftrightarrow> digest (prefix @ js '':replay'') \<noteq> digest (prefix @ js '':changed'')"

lemma random_cases_ok:
  assumes sha: "\<And>s. lower_sha256 (digest s)" and index: "index < 10000"
    and differ: "payloads_differ digest (case_prefix seed index)"
  shows "list_all case_ok (random_cases digest (case_prefix seed index) left right0)"
proof -
  define right where "right = (if right0 = left then right0 + 1 else right0)"
  define low where "low = unat (if left < right then left else right)"
  define high where "high = unat (if left < right then right else left)"
  have "right \<noteq> left" by (simp add: right_def)
  then have "low < high" by (auto simp: low_def high_def word_less_nat_alt word_unat_eq_iff)
  moreover have "unat w \<le> U64_MASK" for w :: u64
  proof -
    have "unat w < 2 ^ 64" using unsigned_less [of w] by simp
    then show ?thesis by (simp add: U64_MASK_def)
  qed
  then have "high \<le> U64_MASK" by (simp add: high_def)
  ultimately have bounds: "low < high" "low \<le> U64_MASK" "high \<le> U64_MASK" by simp_all
  note short = prefix_bounded [OF index short_js, of _ seed]
  have valid: "valid_request (corpus_request t (case_prefix seed index @ js s) p h)"
    if "t \<le> U64_MASK" "s \<in> {''-current'', ''-next''}" "lower_sha256 p" "h = None \<or> h = Some (case_prefix seed index @ js ''-retry'')" for t s p h
    using that short(1) [of s] short(2) [of "''-retry''"] by (intro corpus_request_valid) auto
  show ?thesis
    unfolding random_cases_def corpus_cases Let_def right_def [symmetric] low_def [symmetric] high_def [symmetric] list.pred_inject
    by (intro conjI TrueI decision_case_ok valid sha lower_sha_constants)
      (use bounds differ in \<open>simp_all add: corpus_kind payloads_differ_def\<close>)
qed

lemma random_cases_length: "length (random_cases digest prefix left right) = 4"
  by (simp add: random_cases_def Let_def)

lemma random_rounds_ok:
  assumes sha: "\<And>s. lower_sha256 (digest s)"
  shows "index + n \<le> 10000 \<Longrightarrow> list_all (\<lambda>i. payloads_differ digest (case_prefix seed i)) [index..<index + n] \<Longrightarrow>
    list_all case_ok (random_rounds digest seed index n st) \<and> length (random_rounds digest seed index n st) = 4 * n"
proof (induction n arbitrary: index st)
  case (Suc n)
  have split: "[index..<index + Suc n] = index # [Suc index..<Suc index + n]" by (simp add: upt_conv_Cons)
  obtain l st1 where s1: "xorshift64star st = (l, st1)" by fastforce
  obtain r st2 where s2: "xorshift64star st1 = (r, st2)" by fastforce
  from Suc.IH [of "Suc index" st2] Suc.prems random_cases_ok [where digest = digest and index = index and seed = seed and left = l and ?right0.0 = r, OF sha]
  show ?case unfolding split by (simp add: s1 s2 random_cases_length)
qed simp

lemma e_acute_text:
  assumes "0 < n"
  shows "length (text_encode (replicate n e_acute)) = 2 * n"
proof -
  have "scalars (replicate n e_acute) = replicate n 233"
  proof (induction n)
    case (Suc n)
    then show ?case by (cases n) (simp_all add: e_acute_def is_lead_def is_trail_def)
  qed simp
  then show ?thesis by (simp add: text_encode_def length_concat sum_list_replicate utf8_scalar_def)
qed

lemma ceiling_case_ok: "case_ok ceiling_case"
proof -
  let ?r = "\<lparr>fw_tenantScope = replicate 128 e_acute, fw_resourceKey = replicate 256 e_acute, fw_fencingToken = dec_nat U64_MASK,
     fw_operationId = replicate 64 e_acute, fw_payloadSha256 = DIGEST_C, fw_holder = Some (replicate 128 e_acute),
     fw_leaseId = Some (replicate 128 e_acute)\<rparr>"
  have object: "request U64_MASK (replicate 64 e_acute) DIGEST_C
      [(''tenantScope'', JString (replicate 128 e_acute)), (''resourceKey'', JString (replicate 256 e_acute)),
       (''holder'', JString (replicate 128 e_acute)), (''leaseId'', JString (replicate 128 e_acute))] = Inr (request_object ?r)"
    by (simp add: request_def VALID_FIELDS_def request_object_def optional_prop_def)
  have "valid_lock_key (replicate 256 e_acute)"
    by (simp add: valid_lock_key_def js_trim_id_iff e_acute_text MAX_LOCK_KEY_BYTES_def hd_replicate)
      (simp add: e_acute_def js_whitespace_def control_unit_def)
  then have "valid_request ?r"
    by (simp add: valid_request_def bounded_text_def e_acute_text lower_sha_constants token_text_iff MAX_TENANT_SCOPE_BYTES_def
        MAX_OPERATION_ID_BYTES_def MAX_FENCE_METADATA_BYTES_def U64_MASK_def MAX_FENCING_TOKEN_def)
  from first_case_ok [OF this] show ?thesis
    unfolding ceiling_case_def object by (simp add: token_value_def)
qed

lemma mismatch_cases_ok: "list_all case_ok mismatch_cases"
proof -
  have mismatch: "case_ok (decisionCase name (Inr (request_object w)) (Inr (request_object r)) (Inl Identity_mismatch))"
    if "valid_request w" "valid_request r" "\<not> same_identity w r" for name w r
    using evaluateFence_valid [OF that(1) fencedWriteRequest_object [OF that(2)]] that(3)
    by (simp add: case_ok_def decisionCase_def case_holds_def)
  have valid: "valid_request (corpus_request t (js s) p None)"
    if "t \<in> {42, 43}" "s \<in> {''identity-current'', ''identity-incoming'', ''identity-current-resource'', ''identity-incoming-resource''}"
      "lower_sha256 p" for t s p
    using that short_bounded [OF short_js, of s 64 MAX_OPERATION_ID_BYTES]
    by (intro corpus_request_valid) (auto simp: U64_MASK_def MAX_OPERATION_ID_BYTES_def)
  let ?a = "corpus_request 42 (js ''identity-current'') DIGEST_A None\<lparr>fw_tenantScope := js ''tenant/other''\<rparr>"
  let ?b = "corpus_request 42 (js ''identity-current-resource'') DIGEST_A None\<lparr>fw_resourceKey := js ''example/jobs/other''\<rparr>"
  have objects: "request 42 (js ''identity-current'') DIGEST_A [(''tenantScope'', JString (js ''tenant/other''))] = Inr (request_object ?a)"
    "request 42 (js ''identity-current-resource'') DIGEST_A [(''resourceKey'', JString (js ''example/jobs/other''))] = Inr (request_object ?b)"
    by (simp_all add: request_def VALID_FIELDS_def request_object_def corpus_request_def optional_prop_def)
  have tenant: "bounded_text MAX_TENANT_SCOPE_BYTES (js ''tenant/other'')"
    using short_bounded [OF short_js, of "''tenant/other''" 64 MAX_TENANT_SCOPE_BYTES] by (simp add: MAX_TENANT_SCOPE_BYTES_def)
  have "length (text_encode (js ''example/jobs/other'')) = 18"
    by (subst ascii_encode_length [OF ascii_js]) simp_all
  then have key: "valid_lock_key (js ''example/jobs/other'')"
    by (simp add: valid_lock_key_def js_trim_id_iff MAX_LOCK_KEY_BYTES_def) (simp add: js_simps js_whitespace_def control_unit_def)
  have "valid_request ?a" "valid_request ?b"
    using valid [of 42 "''identity-current''" DIGEST_A] valid [of 42 "''identity-current-resource''" DIGEST_A] tenant key
    by (simp_all add: valid_request_def lower_sha_constants)
  then show ?thesis
    unfolding mismatch_cases_def request_plain objects list.pred_inject
    by (intro conjI TrueI mismatch valid)
      (simp_all add: lower_sha_constants same_identity_def corpus_request_def request_tenant_def request_resource_def)
qed

section \<open>The store sequence replayed\<close>

text \<open>
  The test of a datastore: the requests are sent in order; each answer, and the value in the store
  after it, must be as recorded. \<open>None\<close> is a deviation.
\<close>

fun replay :: "fence_store \<times> js_string option \<Rightarrow> store_step list \<Rightarrow> (fence_store \<times> js_string option) option" where
  "replay s [] = Some s"
| "replay (st, v) (p # ps) =
     (case fence_admit st (sp_request p) of
        (Inl e, _) \<Rightarrow> None
      | (Inr d, st') \<Rightarrow>
          let v' = (if fd_shouldApply d then Some (sp_serializedValue p) else v) in
          if fd_kind d = sp_decision p \<and> fd_shouldApply d = sp_shouldApply p \<and> fd_currentToken d = sp_currentToken p \<and>
             fd_previousToken d = sp_previousToken p \<and> v' = Some (sp_stateValue p)
          then replay (st', v') ps else None)"

lemma replay_append: "replay s (xs @ ys) = Option.bind (replay s xs) (\<lambda>t. replay t ys)"
proof (induction xs arbitrary: s)
  case (Cons p xs)
  obtain st v where s: "s = (st, v)" by fastforce
  obtain r st' where "fence_admit st (sp_request p) = (r, st')" by fastforce
  with Cons.IH show ?case unfolding s by (cases r) (simp_all add: Let_def)
qed simp

lemma check_steps_append: "check_steps s (xs @ ys) = Option.bind (check_steps s xs) (\<lambda>t. check_steps t ys)"
proof (induction xs arbitrary: s)
  case (Cons p xs)
  obtain c v where "s = (c, v)" by fastforce
  with Cons.IH show ?case by (simp add: Let_def split: js_value.split)
qed simp

lemma corpus_request_text: "get_prop (request_object (corpus_request t op p h)) ''fencingToken'' = JString (dec_nat t)"
  by (simp add: request_object_def corpus_request_def object_literal_def field_def optional_prop_def split: option.split)

lemma canonical_token_dec_nat: "n \<le> U64_MASK \<Longrightarrow> canonical_token (dec_nat n)"
proof -
  assume "n \<le> U64_MASK"
  then have t: "token_text (dec_nat n)" by (auto simp: token_text_iff U64_MASK_def MAX_FENCING_TOKEN_def)
  from token_text_length [OF t] t show ?thesis by (auto simp: canonical_token_def token_text_def canonical_decimal_def)
qed

lemma valid_corpus_token: "valid_request (corpus_request t op p h) \<Longrightarrow> canonical_token (dec_nat t)"
  by (rule canonical_token_dec_nat)
    (auto simp: valid_request_def corpus_request_def token_text_iff U64_MASK_def MAX_FENCING_TOKEN_def)

definition current_request :: "seq_current \<Rightarrow> fenced_write_request" where
  "current_request c = corpus_request (sc_token c) (sc_operationId c) (sc_payloadSha256 c) None"

definition advancing_operation :: "js_string \<Rightarrow> bool" where
  "advancing_operation op \<longleftrightarrow> (\<exists>k. op = js ''sequence-critical-'' @ dec_nat k \<or> op = js ''sequence-advance-'' @ dec_nat k)"

text \<open>The generator's state mirrors a store that has replayed the sequence so far.\<close>

definition seq_ok :: "seq_state \<Rightarrow> bool" where
  "seq_ok st \<longleftrightarrow> (\<exists>store. replay (empty_store, None) (ss_sequence st) = Some (store, ss_value st) \<and>
     check_steps (None, None) (ss_sequence st) = Some (map_option (dec_nat \<circ> sc_token) (ss_current st), ss_value st) \<and>
     (case ss_current st of
        None \<Rightarrow> fs_watermark store = None
      | Some c \<Rightarrow> fs_watermark store = Some (current_request c) \<and> valid_request (current_request c) \<and>
          ss_value st \<noteq> None \<and> advancing_operation (sc_operationId c)))"

definition right_kind :: "seq_state \<Rightarrow> nat \<Rightarrow> js_string \<Rightarrow> js_string \<Rightarrow> fence_decision_kind" where
  "right_kind st tok op payload =
     (case ss_current st of None \<Rightarrow> Advanced | Some c \<Rightarrow> decide_kind (current_request c) (corpus_request tok op payload None))"

lemma corpus_fields [simp]:
  "fw_fencingToken (corpus_request t op p h) = dec_nat t" "same_identity (corpus_request t op p h) (corpus_request t' op' p' h')"
  by (simp_all add: corpus_request_def same_identity_def)

lemma seq_append_ok:
  assumes ok: "seq_ok st" and valid: "valid_request (corpus_request tok op payload None)"
    and kind: "kind = right_kind st tok op payload" and op: "kind = Advanced \<Longrightarrow> advancing_operation op"
  obtains st' where "seq_append digest seed kind tok op payload st = Inr st'" "seq_ok st'"
    "length (ss_sequence st') = Suc (length (ss_sequence st))"
    "ss_current st' = (if kind = Advanced then Some \<lparr>sc_token = tok, sc_operationId = op, sc_payloadSha256 = payload\<rparr>
       else ss_current st)"
proof -
  let ?r = "corpus_request tok op payload None"
  from ok obtain store where store: "replay (empty_store, None) (ss_sequence st) = Some (store, ss_value st)"
    and check: "check_steps (None, None) (ss_sequence st) = Some (map_option (dec_nat \<circ> sc_token) (ss_current st), ss_value st)"
    by (auto simp: seq_ok_def)
  note parsed = fencedWriteRequest_object [OF valid] and rendered = corpus_request_text valid_corpus_token [OF valid]
  show thesis
  proof (cases "ss_current st")
    case None
    with ok store have wm: "fs_watermark store = None" by (simp add: seq_ok_def)
    have adm: "fence_admit store (request_object ?r) =
        (Inr (expected Advanced tok tok None), store\<lparr>fs_watermark := Some ?r, fs_applied := fs_applied store @ [?r]\<rparr>)"
      by (simp add: fence_admit_cases wm parsed watermark_value_def evaluateFence_first [OF parsed] expected_def)
    from None kind have "kind = Advanced" by (simp add: right_kind_def)
    with None store check valid op adm show thesis
      by (intro that [of "the (case seq_append digest seed kind tok op payload st of Inl _ \<Rightarrow> None | Inr s \<Rightarrow> Some s)"])
        (simp_all add: seq_append_def request_plain Let_def seq_ok_def replay_append check_steps_append rendered current_request_def expected_def)
  next
    case (Some c)
    from ok store Some have c: "fs_watermark store = Some (current_request c)" "valid_request (current_request c)"
      "advancing_operation (sc_operationId c)" and "ss_value st \<noteq> None" by (simp_all add: seq_ok_def)
    then obtain v where v: "ss_value st = Some v" by auto
    from Some kind have k: "kind = decide_kind (current_request c) ?r" by (simp add: right_kind_def)
    have adm: "fence_admit store (request_object ?r) =
        (Inr (expected kind tok (if kind = Advanced then tok else sc_token c) (Some (sc_token c))),
         if kind = Advanced then store\<lparr>fs_watermark := Some ?r, fs_applied := fs_applied store @ [?r]\<rparr> else store)"
      using c(2) by (simp add: fence_admit_cases c parsed watermark_value_def evaluateFence_valid [OF c(2) parsed] k expected_def)
        (simp add: current_request_def)
    from Some store check valid op v c adm show thesis
      by (intro that [of "the (case seq_append digest seed kind tok op payload st of Inl _ \<Rightarrow> None | Inr s \<Rightarrow> Some s)"])
        (simp_all add: seq_append_def request_plain Let_def seq_ok_def replay_append check_steps_append rendered current_request_def expected_def)
  qed
qed

lemma dec_nat_Cons: "dec_nat n = u # us \<Longrightarrow> is_digit u"
  using dec_nat_digits [of n] by (simp add: list_all_iff)

lemma reuse_operations_differ:
  "advancing_operation op \<Longrightarrow> op \<noteq> js ''sequence-reuse-'' @ dec_nat k"
  "js ''sequence-critical-'' @ dec_nat i \<noteq> js ''sequence-critical-reuse-'' @ dec_nat k"
  by (auto simp: advancing_operation_def js_simps is_digit_def dest: dec_nat_Cons)

lemma sequence_request_valid:
  assumes "tok \<le> U64_MASK" and "lower_sha256 payload" and "short_text 64 (js s)" and "k < 10 ^ 10"
  shows "valid_request (corpus_request tok (js s @ dec_nat k) payload None)"
  using assms label_bounded(1) [OF assms(3,4)] by (intro corpus_request_valid) simp_all

text \<open>The steps around a critical token above the current one.\<close>

definition critical_count :: "nat \<Rightarrow> nat" where
  "critical_count tok = (if 0 < tok then 4 else 3)"

lemma critical_steps_ok:
  assumes ok: "seq_ok st" and sha: "\<And>s. lower_sha256 (digest s)" and tok: "tok \<le> U64_MASK" and index: "index < 10 ^ 10"
    and above: "\<And>c. ss_current st = Some c \<Longrightarrow> sc_token c < tok"
  obtains st' c where "critical_steps digest seed (index, tok) st = Inr st'" "seq_ok st'"
    "length (ss_sequence st') = length (ss_sequence st) + critical_count tok" "ss_current st' = Some c" "sc_token c = tok"
proof -
  let ?op = "js ''sequence-critical-'' @ dec_nat index"
  let ?c = "\<lparr>sc_token = tok, sc_operationId = ?op, sc_payloadSha256 = digest ?op\<rparr>"
  note valid = sequence_request_valid [OF _ _ short_js index]
  have adv: "advancing_operation ?op" by (auto simp: advancing_operation_def)
  have kind: "Advanced = right_kind st tok ?op (digest ?op)"
    using above by (auto simp: right_kind_def current_request_def corpus_kind split: option.split)
  obtain st1 where st1: "seq_append digest seed Advanced tok ?op (digest ?op) st = Inr st1" "seq_ok st1"
      "length (ss_sequence st1) = Suc (length (ss_sequence st))" "ss_current st1 = Some ?c"
    by (rule seq_append_ok [OF ok valid [OF tok sha] kind adv, where digest = digest and seed = seed]) auto
  have right: "right_kind s t op p = (if tok < t then Advanced else if t < tok then Stale else if ?op = op \<and> digest ?op = p
      then Replay else Token_reuse)" if "ss_current s = Some ?c" for s t op p
    using that by (simp add: right_kind_def current_request_def corpus_kind)
  obtain st2 where st2: "seq_append digest seed Replay tok ?op (digest ?op) st1 = Inr st2" "seq_ok st2"
      "length (ss_sequence st2) = Suc (length (ss_sequence st1))" "ss_current st2 = Some ?c"
    by (rule seq_append_ok [OF st1(2) valid [OF tok sha], where kind = Replay and digest = digest and seed = seed])
      (auto simp: right [OF st1(4)] st1(4))
  let ?other = "js ''sequence-critical-reuse-'' @ dec_nat index"
  have v3: "valid_request (corpus_request tok ?other (digest ?op) None)" by (rule valid [OF tok sha]) simp_all
  have k3: "Token_reuse = right_kind st2 tok ?other (digest ?op)"
    using reuse_operations_differ(2) [of index index] by (simp add: right [OF st2(4)])
  obtain st3 where st3: "seq_append digest seed Token_reuse tok ?other (digest ?op) st2 = Inr st3" "seq_ok st3"
      "length (ss_sequence st3) = Suc (length (ss_sequence st2))" "ss_current st3 = Some ?c"
    by (rule seq_append_ok [OF st2(2) v3 k3, where digest = digest and seed = seed]) (simp_all add: st2(4))
  note steps = critical_steps_def Let_def st1(1) st2(1) st3(1)
  show thesis
  proof (cases "tok = 0")
    case True
    with st1 st2 st3 show thesis by (intro that [of st3 ?c]) (simp_all add: steps critical_count_def)
  next
    case False
    let ?old = "js ''sequence-critical-stale-'' @ dec_nat index"
    have less: "tok - 1 \<le> U64_MASK" using tok by simp
    have v4: "valid_request (corpus_request (tok - 1) ?old DIGEST_A None)"
      by (rule valid [OF less lower_sha_constants(1)]) simp_all
    have k4: "Stale = right_kind st3 (tok - 1) ?old DIGEST_A" using False by (simp add: right [OF st3(4)])
    obtain st4 where st4: "seq_append digest seed Stale (tok - 1) ?old DIGEST_A st3 = Inr st4" "seq_ok st4"
      "length (ss_sequence st4) = Suc (length (ss_sequence st3))" "ss_current st4 = Some ?c"
      by (rule seq_append_ok [OF st3(2) v4 k4, where digest = digest and seed = seed]) (simp_all add: st3(4))
    from False st1 st2 st3 st4 show thesis by (intro that [of st4 ?c]) (simp_all add: steps critical_count_def)
  qed
qed

lemma critical_run_ok:
  assumes sha: "\<And>s. lower_sha256 (digest s)"
  shows "seq_ok st \<Longrightarrow> sorted_wrt (<) ts \<Longrightarrow> list_all (\<lambda>t. t \<le> U64_MASK) ts \<Longrightarrow> i + length ts \<le> 10 ^ 10 \<Longrightarrow> ts \<noteq> [] \<Longrightarrow>
    (\<And>c. ss_current st = Some c \<Longrightarrow> sc_token c < hd ts) \<Longrightarrow>
    \<exists>st' c. run_steps (critical_steps digest seed) (enumerate i ts) st = Inr st' \<and> seq_ok st' \<and>
      length (ss_sequence st') = length (ss_sequence st) + sum_list (map critical_count ts) \<and>
      ss_current st' = Some c \<and> sc_token c = last ts"
proof (induction ts arbitrary: i st)
  case (Cons t ts)
  have tok: "t \<le> U64_MASK" and i: "i < 10 ^ 10" using Cons.prems by simp_all
  obtain st' c where st': "critical_steps digest seed (i, t) st = Inr st'" "seq_ok st'"
      "length (ss_sequence st') = length (ss_sequence st) + critical_count t" "ss_current st' = Some c" "sc_token c = t"
    by (rule critical_steps_ok [where digest = digest and seed = seed, OF Cons.prems(1) sha tok i]) (use Cons.prems(6) in auto)
  show ?case
  proof (cases "ts = []")
    case True
    with st' show ?thesis by simp
  next
    case False
    with Cons.prems st'(4,5) have "\<And>c. ss_current st' = Some c \<Longrightarrow> sc_token c < hd ts" by (cases ts) auto
    with Cons.IH [OF st'(2), of "Suc i"] Cons.prems False st'(1,3) show ?thesis by (auto simp: enumerate_Suc_eq)
  qed
qed simp

lemma random_step_ok:
  assumes ok: "seq_ok st" and sha: "\<And>s. lower_sha256 (digest s)" and c: "ss_current st = Some c" "sc_token c \<le> U64_MASK"
    and len: "length (ss_sequence st) < 10 ^ 10"
  obtains st' c' g' where "random_step digest seed g st = (Inr st', g')" "seq_ok st'"
    "length (ss_sequence st') = Suc (length (ss_sequence st))" "ss_current st' = Some c'" "sc_token c' \<le> U64_MASK"
    "sc_token c' \<le> sc_token c + 1000000"
proof -
  let ?k = "length (ss_sequence st)"
  obtain pick g1 where g1: "xorshift64star g = (pick, g1)" by fastforce
  obtain v g2 where g2: "xorshift64star g1 = (v, g2)" by fastforce
  note valid = sequence_request_valid [OF _ sha short_js len]
  from ok c have cur: "valid_request (current_request c)" "advancing_operation (sc_operationId c)" by (auto simp: seq_ok_def)
  have right: "right_kind st t op p = (if sc_token c < t then Advanced else if t < sc_token c then Stale
      else if sc_operationId c = op \<and> sc_payloadSha256 c = p then Replay else Token_reuse)" for t op p
    using c(1) by (simp add: right_kind_def current_request_def corpus_kind)
  note step = random_step_def c(1) g1 g2 Let_def
  consider (adv) "unat pick mod 4 = 0" "sc_token c < U64_MASK"
    | (stale) "\<not> (unat pick mod 4 = 0 \<and> sc_token c < U64_MASK)" "unat pick mod 4 = 1" "0 < sc_token c"
    | (same) "\<not> (unat pick mod 4 = 0 \<and> sc_token c < U64_MASK)" "unat pick mod 4 = 2"
    | (reuse) "\<not> (unat pick mod 4 = 0 \<and> sc_token c < U64_MASK)" "\<not> (unat pick mod 4 = 1 \<and> 0 < sc_token c)" "unat pick mod 4 \<noteq> 2"
    by metis
  then show thesis
  proof cases
    case adv
    define m where "m = (if U64_MASK - sc_token c < 1000000 then U64_MASK - sc_token c else 1000000)"
    define t where "t = sc_token c + (1 + unat v mod m)"
    have "unat v mod m < m" using adv(2) by (simp add: m_def)
    moreover have "m \<le> U64_MASK - sc_token c" "m \<le> 1000000" by (simp_all add: m_def)
    ultimately have t: "sc_token c < t" "t \<le> U64_MASK" "t \<le> sc_token c + 1000000" using adv(2) unfolding t_def by linarith+
    let ?p = "digest (js ''advance:'' @ dec_nat (unat seed) @ js '':'' @ dec_nat ?k)"
    have op: "advancing_operation (js ''sequence-advance-'' @ dec_nat ?k)" by (auto simp: advancing_operation_def)
    obtain st' where st': "seq_append digest seed Advanced t (js ''sequence-advance-'' @ dec_nat ?k) ?p st = Inr st'" "seq_ok st'"
        "length (ss_sequence st') = Suc ?k"
        "ss_current st' = Some \<lparr>sc_token = t, sc_operationId = js ''sequence-advance-'' @ dec_nat ?k, sc_payloadSha256 = ?p\<rparr>"
      by (rule seq_append_ok [OF ok valid [OF t(2)] _ op, where kind = Advanced and digest = digest and seed = seed]) (auto simp: right t(1))
    have "random_step digest seed g st = (Inr st', g2)"
      using adv st'(1) unfolding t_def m_def by (simp add: step)
    from that [OF this st'(2,3,4)] t show thesis by simp
  next
    case stale
    have t: "unat v mod sc_token c < sc_token c" using stale(3) by simp
    with c(2) have le: "unat v mod sc_token c \<le> U64_MASK" by simp
    obtain st' where st': "seq_append digest seed Stale (unat v mod sc_token c) (js ''sequence-stale-'' @ dec_nat ?k)
          (digest (js ''stale:'' @ dec_nat (unat seed) @ js '':'' @ dec_nat ?k)) st = Inr st'" "seq_ok st'"
        "length (ss_sequence st') = Suc ?k" "ss_current st' = Some c"
      by (rule seq_append_ok [OF ok valid [OF le], where kind = Stale and digest = digest and seed = seed]) (use t in \<open>auto simp: right c(1)\<close>)
    have "random_step digest seed g st = (Inr st', g2)"
      using stale st'(1) by (simp add: step)
    from that [OF this st'(2,3,4)] c(2) show thesis by simp
  next
    case same
    obtain st' where st': "seq_append digest seed Replay (sc_token c) (sc_operationId c) (sc_payloadSha256 c) st = Inr st'" "seq_ok st'"
        "length (ss_sequence st') = Suc ?k" "ss_current st' = Some c"
      by (rule seq_append_ok [OF ok cur(1) [unfolded current_request_def], where kind = Replay and digest = digest and seed = seed])
        (auto simp: right c(1))
    have "random_step digest seed g st = (Inr st', g1)"
      using same st'(1) by (simp add: step)
    from that [OF this st'(2,3,4)] c(2) show thesis by simp
  next
    case reuse
    obtain st' where st': "seq_append digest seed Token_reuse (sc_token c) (js ''sequence-reuse-'' @ dec_nat ?k)
          (digest (js ''reuse:'' @ dec_nat (unat seed) @ js '':'' @ dec_nat ?k)) st = Inr st'" "seq_ok st'"
        "length (ss_sequence st') = Suc ?k" "ss_current st' = Some c"
      by (rule seq_append_ok [OF ok valid [OF c(2)], where kind = Token_reuse and digest = digest and seed = seed])
        (use reuse_operations_differ(1) [OF cur(2)] in \<open>auto simp: right c(1)\<close>)
    have "random_step digest seed g st = (Inr st', g1)"
      unfolding step option.case prod.case if_not_P [OF reuse(1)] if_not_P [OF reuse(2)] if_not_P [OF reuse(3)] st'(1) ..
    from that [OF this st'(2,3,4)] c(2) show thesis by simp
  qed
qed

lemma random_loop_ok:
  assumes sha: "\<And>s. lower_sha256 (digest s)" and limit: "limit \<le> 10 ^ 10"
  shows "seq_ok st \<Longrightarrow> ss_current st = Some c \<Longrightarrow> sc_token c \<le> U64_MASK \<Longrightarrow> length (ss_sequence st) \<le> limit \<Longrightarrow>
    \<exists>st' c'. random_loop digest seed limit g st = Inr st' \<and> seq_ok st' \<and> length (ss_sequence st') = limit \<and>
      ss_current st' = Some c' \<and> sc_token c' \<le> sc_token c + 1000000 * (limit - length (ss_sequence st))"
proof (induction "limit - length (ss_sequence st)" arbitrary: g st c)
  case 0
  then show ?case by (intro exI [of _ st] exI [of _ c]) (simp add: random_loop.simps [of digest seed _ g st])
next
  case (Suc n)
  from Suc.hyps(2) have less: "length (ss_sequence st) < limit" by simp
  with limit have len: "length (ss_sequence st) < 10 ^ 10" by simp
  obtain st1 c1 g1 where s1: "random_step digest seed g st = (Inr st1, g1)" "seq_ok st1"
      "length (ss_sequence st1) = Suc (length (ss_sequence st))" "ss_current st1 = Some c1" "sc_token c1 \<le> U64_MASK"
      "sc_token c1 \<le> sc_token c + 1000000"
    by (rule random_step_ok [where digest = digest and seed = seed and g = g, OF Suc.prems(1) sha Suc.prems(2,3) len])
  have n: "n = limit - length (ss_sequence st1)" and le: "length (ss_sequence st1) \<le> limit"
    using Suc.hyps(2) s1(3) less by simp_all
  from Suc.hyps(1) [OF n s1(2,4,5) le, of g1] obtain st' c' where st':
    "random_loop digest seed limit g1 st1 = Inr st'" "seq_ok st'" "length (ss_sequence st') = limit"
    "ss_current st' = Some c'" "sc_token c' \<le> sc_token c1 + 1000000 * n" unfolding n by blast
  have "random_loop digest seed limit g st = random_loop digest seed limit g1 st1"
    using less s1(1) by (simp add: random_loop.simps [of digest seed limit g st])
  moreover have "sc_token c' \<le> sc_token c + 1000000 * (limit - length (ss_sequence st))"
    using st'(5) s1(6) Suc.hyps(2) [symmetric] by simp
  ultimately show ?case using st'(1-4) by (intro exI [of _ st'] exI [of _ c']) simp
qed

lemma critical_facts:
  "sorted_wrt (<) critical" "list_all (\<lambda>t. t \<le> U64_MASK) critical" "length critical = 8"
  "sum_list (map critical_count critical) = 31" "last critical = 2 ^ 63 + 1" "critical \<noteq> []"
  by (simp_all add: critical_def U64_MASK_def critical_count_def)

lemma empty_sequence_ok: "seq_ok \<lparr>ss_sequence = [], ss_current = None, ss_value = None\<rparr>"
  by (simp add: seq_ok_def empty_store_def)

lemma generated_cases_agree:
  assumes "\<And>s. lower_sha256 (digest s)" and "n \<le> 10000"
    and "list_all (\<lambda>i. payloads_differ digest (case_prefix seed i)) [0..<n]"
  shows "\<exists>cases. generatedCaseSet digest seed n = Inr cases \<and> length cases = 58 + 4 * n \<and> list_all case_holds cases"
proof -
  have bounds: "list_all (\<lambda>t. t \<le> U64_MASK) boundaries" by (simp add: boundaries_def U64_MASK_def)
  have "list_all case_ok (boundary_cases digest p)" if "p \<in> set (enumerate 0 boundaries)" for p
  proof -
    obtain i t where it: "p = (i, t)" by fastforce
    with that have p: "p = (i, boundaries ! i)" and i: "i < 14" by (auto simp: in_set_enumerate_eq boundaries_count)
    have "boundaries ! i \<le> U64_MASK" using bounds i by (simp add: list_all_length boundaries_count)
    with i show ?thesis unfolding p by (intro boundary_cases_ok assms(1)) simp_all
  qed
  then have "list_all case_ok (concat (map (boundary_cases digest) (enumerate 0 boundaries)))"
    unfolding list_all_iff by auto
  moreover have "list_all case_ok (map transition_case [1..<length boundaries])"
    using transition_case_ok by (simp add: list_all_iff)
  moreover note random_rounds_ok [where digest = digest and seed = seed and index = 0 and n = n and st = "xorshift_start seed", OF assms(1)]
  ultimately have all: "list_all case_ok (concat (map (boundary_cases digest) (enumerate 0 boundaries)) @
      map transition_case [1..<length boundaries] @ random_rounds digest seed 0 n (xorshift_start seed) @ [ceiling_case] @ mismatch_cases)"
    and rounds: "length (random_rounds digest seed 0 n (xorshift_start seed)) = 4 * n"
    using assms(2,3) ceiling_case_ok mismatch_cases_ok by simp_all
  have "length (concat (map (boundary_cases digest) (enumerate 0 boundaries))) = 42"
    using boundary_count [of digest "enumerate 0 boundaries"] by (simp add: boundaries_count)
  with collect_ok [OF all] rounds show ?thesis
    by (auto simp: generatedCaseSet_def mismatch_cases_def boundaries_count)
qed


lemma store_sequence_replays:
  assumes "\<And>s. lower_sha256 (digest s)" and "39 \<le> count" and "count \<le> 10 ^ 9"
  shows "\<exists>steps store v. buildStoreSequence digest seed count = Inr steps \<and> length steps = count \<and>
    replay (empty_store, None) steps = Some (store, v) \<and> (64 \<le> count \<longrightarrow> assertCorpus steps)"
proof -
  let ?init = "\<lparr>ss_sequence = [], ss_current = None, ss_value = None\<rparr>"
  obtain st1 c1 where st1: "run_steps (critical_steps digest seed) (enumerate 0 critical) ?init = Inr st1" "seq_ok st1"
      "length (ss_sequence st1) = 31" "ss_current st1 = Some c1" "sc_token c1 = 2 ^ 63 + 1"
    using critical_run_ok [where digest = digest and seed = seed and st = ?init and ts = critical and i = 0, OF assms(1) empty_sequence_ok
      critical_facts(1,2)] critical_facts by auto
  have bounds: "sc_token c1 \<le> U64_MASK" "length (ss_sequence st1) \<le> count - terminalReserve" "count - terminalReserve \<le> 10 ^ 10"
    using st1(3,5) assms(2,3) by (simp_all add: U64_MASK_def terminalReserve_def)
  obtain st2 c2 where st2: "random_loop digest seed (count - terminalReserve) (xorshift_start (seed XOR 0xd1b54a32d192ed03)) st1 = Inr st2"
      "seq_ok st2" "length (ss_sequence st2) = count - terminalReserve" "ss_current st2 = Some c2"
      "sc_token c2 \<le> sc_token c1 + 1000000 * (count - terminalReserve - length (ss_sequence st1))"
    using random_loop_ok [where digest = digest and seed = seed, OF assms(1) bounds(3) st1(2,4) bounds(1,2)] by blast
  have "1000000 * (count - terminalReserve - length (ss_sequence st1)) \<le> 10 ^ 15" using assms(3) by simp
  with st2(5) st1(5) have small: "sc_token c2 < U64_MASK - 1" by (simp add: U64_MASK_def)
  have "\<exists>st' c. run_steps (critical_steps digest seed) (enumerate 8 [U64_MASK - 1, U64_MASK]) st2 = Inr st' \<and> seq_ok st' \<and>
      length (ss_sequence st') = length (ss_sequence st2) + sum_list (map critical_count [U64_MASK - 1, U64_MASK]) \<and>
      ss_current st' = Some c \<and> sc_token c = last [U64_MASK - 1, U64_MASK]"
    by (rule critical_run_ok [where digest = digest, OF assms(1) st2(2)]) (use small st2(4) in \<open>simp_all add: U64_MASK_def\<close>)
  then obtain st3 where st3: "run_steps (critical_steps digest seed) (enumerate 8 [U64_MASK - 1, U64_MASK]) st2 = Inr st3" "seq_ok st3"
      "length (ss_sequence st3) = length (ss_sequence st2) + 8"
    by (auto simp: critical_count_def U64_MASK_def)
  have "length (ss_sequence st3) = count" using st3(3) st2(3) assms(2) by (simp add: terminalReserve_def)
  moreover have "buildStoreSequence digest seed count = Inr (ss_sequence st3)"
    using st1(1) st2(1) st3(1) calculation by (simp add: buildStoreSequence_def critical_facts(3))
  ultimately show ?thesis using st3(2) by (auto simp: seq_ok_def assertCorpus_def)
qed


text \<open>Both profiles build a corpus, of at least the 128 cases the tests ask for.\<close>

lemma corpus_built:
  assumes "\<And>s. lower_sha256 (digest s)" and "list_all (\<lambda>i. payloads_differ digest (case_prefix seed i)) [0..<512]"
    and "profile \<in> {''pr'', ''scheduled''}"
  shows "\<exists>c. buildCorpus digest profile seed = Some (Inr c) \<and> 128 \<le> co_generatedCaseCount c \<and>
    list_all case_holds (co_cases c) \<and> replay (empty_store, None) (co_storeSequence c) \<noteq> None"
proof -
  obtain n count where n: "PROFILE_ITERATIONS profile = Some n" "24 \<le> n" "n \<le> 512"
      and count: "PROFILE_STORE_SEQUENCE profile = Some count" "39 \<le> count" "count \<le> 10 ^ 9"
    using assms(3) by (auto simp: PROFILE_ITERATIONS_def PROFILE_STORE_SEQUENCE_def)
  have "list_all (\<lambda>i. payloads_differ digest (case_prefix seed i)) [0..<n]" using assms(2) n(3) by (simp add: list_all_iff)
  moreover have "n \<le> 10000" using n(3) by simp
  ultimately obtain cases where "generatedCaseSet digest seed n = Inr cases" "length cases = 58 + 4 * n" "list_all case_holds cases"
    using generated_cases_agree [where digest = digest and seed = seed, OF assms(1)] by blast
  moreover obtain steps store v where "buildStoreSequence digest seed count = Inr steps"
      "replay (empty_store, None) steps = Some (store, v)"
    using store_sequence_replays [where digest = digest and seed = seed, OF assms(1) count(2,3)] by blast
  ultimately show ?thesis using n(2) by (simp add: buildCorpus_def n(1) count(1))
qed

section \<open>Properties\<close>

text \<open>C35: the generated decision cases are right, for every seed. For any hash whose text is 64 lower-case
  hexadecimal digits and up to ten thousand rounds, the generator ends without an exception, writes
  \<open>58 + 4 n\<close> cases, and the verdict it wrote into each of them is the one \<open>evaluateFence\<close> gives for its
  watermark and its request: kind, whether to apply, and the three tokens, or the error code.
  (Of the hash it is also needed that a changed payload of the corpus changes the digest.)\<close>

theorem corpus_cases_right:
  assumes "\<And>s. lower_sha256 (digest s)" and "n \<le> 10000"
    and "list_all (\<lambda>i. payloads_differ digest (case_prefix seed i)) [0..<n]"
  shows "\<exists>cases. generatedCaseSet digest seed n = Inr cases \<and> length cases = 58 + 4 * n \<and> list_all case_holds cases"
  using assms by (rule generated_cases_agree)

definition sample_digest :: "js_string \<Rightarrow> js_string" where
  "sample_digest s = replicate 63 97 @ [if s \<noteq> [] \<and> last s = 121 then 97 else 98]"

lemma sample_digest_hex: "lower_sha256 (sample_digest s)"
  by (simp add: sample_digest_def lower_sha256_def list_all_iff lower_hex_def)

theorem corpus_cases_right_witness:
  "\<exists>cases. generatedCaseSet sample_digest 0x2050f3ce5eed 2 = Inr cases \<and> length cases = 66 \<and> list_all case_holds cases"
proof -
  have "payloads_differ sample_digest p" for p
    by (simp add: payloads_differ_def sample_digest_def js_simps)
  with corpus_cases_right [of sample_digest 2 "0x2050f3ce5eed", OF sample_digest_hex] show ?thesis
    by (simp add: list_all_iff)
qed

text \<open>C36: the generated store sequence is right, for every seed and every length from 39 up to a thousand
  million. The generator ends without an exception and with exactly the requested number of
  steps; and a store that starts empty and follows \<open>evaluateFence\<close>, sent the requests in order,
  answers each of them with the recorded decision, current token and previous token, and holds
  the recorded value after it. A sequence of at least 64 steps also passes the consistency checks
  that the test of the datastores makes before it runs it. The random tokens never run into the
  two that end the sequence, \<open>2^64 - 2\<close> and \<open>2^64 - 1\<close>.\<close>

theorem store_sequence_right:
  assumes "\<And>s. lower_sha256 (digest s)" and "39 \<le> count" and "count \<le> 10 ^ 9"
  shows "\<exists>steps store v. buildStoreSequence digest seed count = Inr steps \<and> length steps = count \<and>
    replay (empty_store, None) steps = Some (store, v) \<and> (64 \<le> count \<longrightarrow> assertCorpus steps)"
  using assms by (rule store_sequence_replays)

theorem store_sequence_right_witness:
  "\<exists>steps store v. buildStoreSequence sample_digest 0x2050f3ce5eed 128 = Inr steps \<and> length steps = 128 \<and>
     replay (empty_store, None) steps = Some (store, v) \<and> assertCorpus steps"
  using store_sequence_right [of sample_digest 128 "0x2050f3ce5eed", OF sample_digest_hex] by simp

text \<open>The valid request with one field replaced: the check of that field decides.\<close>

lemma valid_fields_ok:
  "bounded_text MAX_TENANT_SCOPE_BYTES request_tenant" "valid_lock_key request_resource"
  "bounded_text MAX_OPERATION_ID_BYTES (js ''operation-0001'')" "bounded_text MAX_FENCE_METADATA_BYTES (js ''worker-a'')"
  "bounded_text MAX_FENCE_METADATA_BYTES (js ''lease-a'')" "token_text (js ''1'')"
proof -
  show bounded: "bounded_text MAX_OPERATION_ID_BYTES (js ''operation-0001'')" "bounded_text MAX_FENCE_METADATA_BYTES (js ''worker-a'')"
    "bounded_text MAX_FENCE_METADATA_BYTES (js ''lease-a'')"
    using short_bounded [OF short_js, of "''operation-0001''" 64 128] short_bounded [OF short_js, of "''worker-a''" 64 256]
      short_bounded [OF short_js, of "''lease-a''" 64 256]
    by (simp_all add: MAX_OPERATION_ID_BYTES_def MAX_FENCE_METADATA_BYTES_def)
  have "valid_request (corpus_request 1 (js ''operation-0001'') DIGEST_A None)"
    by (rule corpus_request_valid) (simp_all add: bounded U64_MASK_def lower_sha_constants)
  then show "bounded_text MAX_TENANT_SCOPE_BYTES request_tenant" "valid_lock_key request_resource"
    by (simp_all add: valid_request_def corpus_request_def)
  show "token_text (js ''1'')"
    by (simp add: token_text_def canonical_decimal_def positive_decimal_def all_digits_def is_digit_def js_simps parse_dec_def
        digit_value_def MAX_FENCING_TOKEN_def)
qed

lemma requestRecord_fields:
  assumes "list_all (\<lambda>(n, _). n \<in> set VALID_FIELDS) fs"
  shows "requestRecord (object_literal fs) = Inr (map (\<lambda>(n, v). (js n, v)) fs)"
proof -
  from assms have "set (map fst fs) \<subseteq> set VALID_FIELDS" by (auto simp: list_all_iff)
  with request_snapshot_literal [of fs "[]"] show ?thesis by (simp add: requestRecord_def object_literal_def VALID_FIELDS_def)
qed

definition probe :: "string \<Rightarrow> js_value \<Rightarrow> fence_error + fenced_write_request" where
  "probe n v = fencedWriteRequest (object_literal (spread valid_fields [(n, v)]))"

lemma probe_refused:
  "validateField ''tenantScope'' v MAX_TENANT_SCOPE_BYTES = Inl e \<Longrightarrow> probe ''tenantScope'' v = Inl e"
  "validateField ''resourceKey'' v MAX_LOCK_KEY_BYTES = Inl e \<Longrightarrow> probe ''resourceKey'' v = Inl e"
  "validateField ''operationId'' v MAX_OPERATION_ID_BYTES = Inl e \<Longrightarrow> probe ''operationId'' v = Inl e"
  "v \<noteq> JUndefined \<Longrightarrow> validateField ''holder'' v MAX_FENCE_METADATA_BYTES = Inl e \<Longrightarrow> probe ''holder'' v = Inl e"
  "v \<noteq> JUndefined \<Longrightarrow> validateField ''leaseId'' v MAX_FENCE_METADATA_BYTES = Inl e \<Longrightarrow> probe ''leaseId'' v = Inl e"
  "payload_field v = Inl e \<Longrightarrow> probe ''payloadSha256'' v = Inl e"
  "\<not> string_or_bigint v \<Longrightarrow> probe ''fencingToken'' v = Inl token_error"
  using valid_fields_ok bounded_valid_lock_key [OF valid_fields_ok(2)] lower_sha_constants(1)
  by (simp_all add: probe_def fencedWriteRequest_def valid_fields_def requestRecord_fields VALID_FIELDS_def field_def
      validateOptionalField_def)

lemma validateField_refusals:
  "m < 2 * n \<Longrightarrow> 0 < n \<Longrightarrow> validateField f (JString (replicate n e_acute)) m = Inl (FenceValidationError Too_long (Some (js f)))"
  "validateField f (JString []) m = Inl (FenceValidationError Empty_field (Some (js f)))"
  "validateField f (JNumber x) m = Inl (FenceValidationError Invalid_type (Some (js f)))"
  "validateField f (JBool b) m = Inl (FenceValidationError Invalid_type (Some (js f)))"
  "validateField f JNull m = Inl (FenceValidationError Invalid_type (Some (js f)))"
  "validateField f (JArray vs) m = Inl (FenceValidationError Invalid_type (Some (js f)))"
  "validateField f (JObject ps) m = Inl (FenceValidationError Invalid_type (Some (js f)))"
  by (simp_all add: validateField_def e_acute_text)

text \<open>Every malformed input of the corpus is refused with the code that the corpus records. A request
  that is valid except for one field, which is too long in UTF-8 bytes, empty, or of the wrong
  run-time type, is refused by \<open>fencedWriteRequest\<close> with exactly the recorded code; and none of the
  token texts (leading zeros, signs, fractions, exponents, spaces, non-ASCII digits, control
  characters, values of 2^64 and above) is taken for a token.\<close>

theorem corpus_rejections_right:
  "list_all (\<lambda>(n, v, code). map_sum error_code id (fencedWriteRequest (object_literal (spread valid_fields [(n, v)]))) = Inl (Some code))
     (invalidFields @ wrongTypeCases) \<and>
   list_all (\<lambda>s. fencingTokenText (JString s) = Inl token_error) invalidTokens"
proof
  note limits = MAX_TENANT_SCOPE_BYTES_def MAX_LOCK_KEY_BYTES_def MAX_OPERATION_ID_BYTES_def MAX_FENCE_METADATA_BYTES_def
  show "list_all (\<lambda>(n, v, code). map_sum error_code id (fencedWriteRequest (object_literal (spread valid_fields [(n, v)]))) = Inl (Some code))
     (invalidFields @ wrongTypeCases)"
    unfolding probe_def [symmetric] invalidFields_def wrongTypeCases_def
    by (simp add: probe_refused(1-3) [OF validateField_refusals(1)] probe_refused(1-3) [OF validateField_refusals(2)]
        probe_refused(4,5) [OF _ validateField_refusals(1)] probe_refused(4,5) [OF _ validateField_refusals(2)]
        probe_refused(1) [OF validateField_refusals(3)] probe_refused(2) [OF validateField_refusals(6)]
        probe_refused(3) [OF validateField_refusals(4)] probe_refused(4) [OF _ validateField_refusals(5)]
        probe_refused(5) [OF _ validateField_refusals(7)] probe_refused(6,7) payload_field_def string_or_bigint_def limits
        object_literal_def)
  have "list_all (\<lambda>s. \<not> token_text s) invalidTokens"
    by (simp add: invalidTokens_def token_text_def canonical_decimal_def positive_decimal_def all_digits_def is_digit_def js_simps
        parse_dec_def digit_value_def MAX_FENCING_TOKEN_def)
  then show "list_all (\<lambda>s. fencingTokenText (JString s) = Inl token_error) invalidTokens"
    by (simp add: fencingTokenText_string list_all_iff)
qed

end
