(* ===== verification/Resp.thy ===== *)
theory Resp
  imports Js_Values
begin

text \<open>
  The Redis client of \<open>scripts/test-adversarial-datastores.mjs\<close>, which sends the store sequence of the
  corpus to a server: the encoder of commands, the incremental parser of replies and the class
  \<open>RedisClient\<close> that matches replies to the promises of its commands. A buffer and an offset into it are
  the bytes from the offset on. \<open>Buffer.toString\<close> on malformed UTF-8 and \<open>Number\<close> on texts other than
  plain integers of the safe range are arguments of the model.
\<close>

section \<open>Definitions\<close>

subsection \<open>Text and numbers\<close>

record resp_runtime =
  rr_lossy :: "byte list \<Rightarrow> js_string"
  rr_number :: "js_string \<Rightarrow> js_number"

text \<open>\<open>buffer.toString("utf8", start, end)\<close>; a byte order mark is kept.\<close>

definition buffer_text :: "resp_runtime \<Rightarrow> byte list \<Rightarrow> js_string" where
  "buffer_text rt bs = (case utf8_decode bs of Some cs \<Rightarrow> concat (map scalar_units cs) | None \<Rightarrow> rr_lossy rt bs)"

text \<open>\<open>Number(text)\<close>.\<close>

definition plain_digits :: "js_string \<Rightarrow> bool" where
  "plain_digits s \<longleftrightarrow> all_digits s \<and> int (parse_dec s) \<le> MAX_SAFE_INTEGER"

definition number_text :: "resp_runtime \<Rightarrow> js_string \<Rightarrow> js_number" where
  "number_text rt s =
     (let t = js_trim s in
      if t = [] then NInt 0
      else if plain_digits t then NInt (int (parse_dec t))
      else if hd t = 45 \<and> plain_digits (tl t) then NInt (- int (parse_dec (tl t)))
      else rr_number rt s)"

subsection \<open>Commands and replies\<close>

definition command_part :: "js_string \<Rightarrow> byte list" where
  "command_part part =
     (let value = text_encode part
      in text_encode (js ''$'' @ dec_nat (length value) @ [13, 10]) @ value @ text_encode [13, 10])"

definition encodeCommand :: "js_string list \<Rightarrow> byte list" where
  "encodeCommand parts = text_encode (js ''*'' @ dec_nat (length parts) @ [13, 10]) @ concat (map command_part parts)"

fun lineEnd :: "byte list \<Rightarrow> nat option" where
  "lineEnd [] = None"
| "lineEnd [b] = None"
| "lineEnd (a # b # bs) = (if a = 13 \<and> b = 10 then Some 0 else map_option Suc (lineEnd (b # bs)))"

datatype resp_value = Resp_text js_string | Resp_number js_number | Resp_null | Resp_array "resp_value list"

datatype resp_error =
    Redis_error js_string
  | Bad_bulk_length | Bad_bulk_terminator | Bad_array_length | Unsupported_reply
  | Unsolicited_reply | Connection_closed | Socket_failed

text \<open>
  A result of \<open>parseReply\<close>: \<open>null\<close>, a value or an error with the bytes from \<open>next\<close> on, or an exception.
\<close>

datatype resp_parsed =
    Parsed_none
  | Parsed_value resp_value "byte list"
  | Parsed_error resp_error "byte list"
  | Parsed_throws resp_error

text \<open>
  \<open>parse_items\<close> is the loop over the items of an array. That an item has consumed bytes is tested so that
  the recursion is seen to end; \<open>parse_items_Suc\<close> shows that the test never fails.
\<close>

function parseReply :: "resp_runtime \<Rightarrow> byte list \<Rightarrow> resp_parsed"
  and parse_items :: "resp_runtime \<Rightarrow> nat \<Rightarrow> resp_value list \<Rightarrow> byte list \<Rightarrow> resp_parsed" where
  "parseReply rt bs =
     (case bs of
        [] \<Rightarrow> Parsed_none
      | t # line \<Rightarrow>
          (case lineEnd line of
             None \<Rightarrow> Parsed_none
           | Some e \<Rightarrow>
               let header = buffer_text rt (take e line); body = drop (e + 2) line in
               if t = 43 then Parsed_value (Resp_text header) body
               else if t = 45 then Parsed_error (Redis_error header) body
               else if t = 58 then Parsed_value (Resp_number (number_text rt header)) body
               else if t = 36 then
                 (let len = number_text rt header; n = nat (int_of_number len) in
                  if len = NInt (- 1) then Parsed_value Resp_null body
                  else if \<not> is_safe_integer len \<or> int_of_number len < 0 then Parsed_throws Bad_bulk_length
                  else if length body < n + 2 then Parsed_none
                  else if body ! n \<noteq> 13 \<or> body ! (n + 1) \<noteq> 10 then Parsed_throws Bad_bulk_terminator
                  else Parsed_value (Resp_text (buffer_text rt (take n body))) (drop (n + 2) body))
               else if t = 42 then
                 (let len = number_text rt header in
                  if len = NInt (- 1) then Parsed_value Resp_null body
                  else if \<not> is_safe_integer len \<or> int_of_number len < 0 then Parsed_throws Bad_array_length
                  else parse_items rt (nat (int_of_number len)) [] body)
               else Parsed_throws Unsupported_reply))"
| "parse_items rt 0 vs bs = Parsed_value (Resp_array vs) bs"
| "parse_items rt (Suc n) vs bs =
     (case parseReply rt bs of
        Parsed_value v rest \<Rightarrow>
          if length rest < length bs then parse_items rt n (vs @ [v]) rest else Parsed_none
      | stop \<Rightarrow> stop)"
  by pat_completeness auto

termination
  by (relation "measures [\<lambda>x. case x of Inl (rt, bs) \<Rightarrow> length bs | Inr (rt, n, vs, bs) \<Rightarrow> length bs,
      \<lambda>x. case x of Inl _ \<Rightarrow> 0 | Inr _ \<Rightarrow> 1]") auto

declare parseReply.simps [simp del] parse_items.simps(2) [simp del]

section \<open>The parser\<close>

lemma lineEnd_SomeD: "lineEnd bs = Some e \<Longrightarrow> e + 2 \<le> length bs \<and> lineEnd (bs @ ext) = Some e"
proof (induction bs arbitrary: e rule: lineEnd.induct)
  case (3 a b bs)
  then show ?case by (fastforce split: if_splits)
qed simp_all

lemma lineEnd_line: "13 \<notin> set l \<Longrightarrow> lineEnd (l @ 13 # 10 # r) = Some (length l)"
proof (induction l)
  case (Cons a l)
  then show ?case by (cases l) auto
qed simp

text \<open>A reply takes bytes off the buffer, so the loop's test never fails.\<close>

lemma parse_consumes:
  "parseReply rt bs = Parsed_value v rest \<or> parseReply rt bs = Parsed_error err rest \<Longrightarrow> length rest < length bs"
  "parse_items rt n vs bs = Parsed_value v rest \<or> parse_items rt n vs bs = Parsed_error err rest \<Longrightarrow> length rest \<le> length bs"
proof (induction rt bs and rt n vs bs arbitrary: v err rest and v err rest rule: parseReply_parse_items.induct)
  case (1 rt bs)
  show ?case
  proof (cases bs)
    case (Cons t line)
    show ?thesis
    proof (cases "lineEnd line")
      case (Some e)
      then have "e + 2 \<le> length line" using lineEnd_SomeD by blast
      with "1.prems" "1.IH" [OF Cons Some refl refl] Cons Some show ?thesis
        by (subst (asm) (1 2) parseReply.simps) (fastforce simp: Let_def split: if_splits)
    qed (use "1.prems" Cons in \<open>simp add: parseReply.simps\<close>)
  qed (use "1.prems" in \<open>simp add: parseReply.simps\<close>)
next
  case (3 rt n vs bs)
  then show ?case
    by (cases "parseReply rt bs") (fastforce simp: parse_items.simps split: if_splits)+
qed auto


lemmas value_consumes = parse_consumes(1) [OF disjI1]
lemmas error_consumes = parse_consumes(1) [OF disjI2]

lemma parse_items_Suc:
  "parse_items rt (Suc n) vs bs =
     (case parseReply rt bs of Parsed_value v rest \<Rightarrow> parse_items rt n (vs @ [v]) rest | stop \<Rightarrow> stop)"
  by (auto simp: parse_items.simps split: resp_parsed.split dest: value_consumes)

text \<open>A result other than \<open>null\<close> does not change when more bytes arrive.\<close>

fun extended :: "byte list \<Rightarrow> resp_parsed \<Rightarrow> resp_parsed" where
  "extended ext (Parsed_value v rest) = Parsed_value v (rest @ ext)"
| "extended ext (Parsed_error err rest) = Parsed_error err (rest @ ext)"
| "extended ext p = p"

lemma parse_stable:
  "parseReply rt bs \<noteq> Parsed_none \<Longrightarrow> parseReply rt (bs @ ext) = extended ext (parseReply rt bs)"
  "parse_items rt n vs bs \<noteq> Parsed_none \<Longrightarrow> parse_items rt n vs (bs @ ext) = extended ext (parse_items rt n vs bs)"
proof (induction rt bs and rt n vs bs rule: parseReply_parse_items.induct)
  case (1 rt bs)
  show ?case
  proof (cases bs)
    case (Cons t line)
    show ?thesis
    proof (cases "lineEnd line")
      case (Some e)
      from lineEnd_SomeD [OF this, of ext] have "e + 2 \<le> length line" "lineEnd (line @ ext) = Some e" by auto
      with "1.prems" "1.IH" [OF Cons Some refl refl] Cons Some show ?thesis
        by (subst (asm) (1) parseReply.simps, subst (1 2) parseReply.simps)
          (auto simp: Let_def nth_append split: if_splits)
    qed (use "1.prems" Cons in \<open>simp add: parseReply.simps\<close>)
  qed (use "1.prems" in \<open>simp add: parseReply.simps\<close>)
next
  case (3 rt n vs bs)
  then show ?case
    by (cases "parseReply rt bs") (auto simp: parse_items_Suc value_consumes)
qed auto

text \<open>Hence a proper prefix of a complete reply is never taken for a reply.\<close>

lemma parse_prefix_none:
  assumes "parseReply rt (bs @ ext) = Parsed_value v [] \<or> parseReply rt (bs @ ext) = Parsed_error err []" and "ext \<noteq> []"
  shows "parseReply rt bs = Parsed_none"
proof (rule ccontr)
  assume "parseReply rt bs \<noteq> Parsed_none"
  from parse_stable(1) [OF this, of ext] assms show False
    by (cases "parseReply rt bs") auto
qed

subsection \<open>The client\<close>

text \<open>
  \<open>rc_pending\<close> names the promises in order; \<open>rc_settled\<close> records how each was settled, \<open>Inr\<close> for
  \<open>resolve\<close>; \<open>rc_sent\<close> is what was written to the socket.
\<close>

record redis_client =
  rc_buffer :: "byte list"
  rc_pending :: "nat list"
  rc_settled :: "(nat \<times> (resp_error + resp_value)) list"
  rc_sent :: "byte list"

definition new_client :: redis_client where
  "new_client = \<lparr>rc_buffer = [], rc_pending = [], rc_settled = [], rc_sent = []\<rparr>"

definition client_fail :: "resp_error \<Rightarrow> redis_client \<Rightarrow> redis_client" where
  "client_fail err c =
     c\<lparr>rc_pending := [], rc_settled := rc_settled c @ map (\<lambda>p. (p, Inl err)) (rc_pending c)\<rparr>"

definition client_command :: "nat \<Rightarrow> js_string list \<Rightarrow> redis_client \<Rightarrow> redis_client" where
  "client_command p parts c = c\<lparr>rc_pending := rc_pending c @ [p], rc_sent := rc_sent c @ encodeCommand parts\<rparr>"

text \<open>One round of the loop over the parsed replies: \<open>None\<close> when it ends.\<close>

definition settle_first :: "resp_error + resp_value \<Rightarrow> byte list \<Rightarrow> redis_client \<Rightarrow> redis_client option" where
  "settle_first outcome rest c =
     (case rc_pending c of
        [] \<Rightarrow> None
      | p # ps \<Rightarrow> Some (c\<lparr>rc_buffer := rest, rc_pending := ps, rc_settled := rc_settled c @ [(p, outcome)]\<rparr>))"

lemma settle_first_buffer: "settle_first outcome rest c = Some c' \<Longrightarrow> rc_buffer c' = rest"
  by (auto simp: settle_first_def split: list.splits)

function drain :: "resp_runtime \<Rightarrow> redis_client \<Rightarrow> redis_client" where
  "drain rt c =
     (case parseReply rt (rc_buffer c) of
        Parsed_none \<Rightarrow> c
      | Parsed_throws err \<Rightarrow> client_fail err c
      | Parsed_value v rest \<Rightarrow>
          (case settle_first (Inr v) rest c of
             None \<Rightarrow> client_fail Unsolicited_reply (c\<lparr>rc_buffer := rest\<rparr>)
           | Some c' \<Rightarrow> drain rt c')
      | Parsed_error err rest \<Rightarrow>
          (case settle_first (Inl err) rest c of
             None \<Rightarrow> client_fail Unsolicited_reply (c\<lparr>rc_buffer := rest\<rparr>)
           | Some c' \<Rightarrow> drain rt c'))"
  by pat_completeness auto

termination
  by (relation "measure (\<lambda>(rt, c). length (rc_buffer c))")
    (auto dest: value_consumes error_consumes settle_first_buffer)

declare drain.simps [simp del]

text \<open>The events of a client: its own commands, and the socket's.\<close>

datatype client_event = Command nat "js_string list" | Data "byte list" | Socket_error | Socket_closed

fun client_step :: "resp_runtime \<Rightarrow> client_event \<Rightarrow> redis_client \<Rightarrow> redis_client" where
  "client_step rt (Command p parts) c = client_command p parts c"
| "client_step rt (Data chunk) c = drain rt (c\<lparr>rc_buffer := rc_buffer c @ chunk\<rparr>)"
| "client_step rt Socket_error c = client_fail Socket_failed c"
| "client_step rt Socket_closed c = (if rc_pending c \<noteq> [] then client_fail Connection_closed c else c)"

definition run_client :: "resp_runtime \<Rightarrow> client_event list \<Rightarrow> redis_client \<Rightarrow> redis_client" where
  "run_client rt evs c = fold (client_step rt) evs c"

section \<open>What a server sends\<close>

fun resp_bytes :: "resp_value \<Rightarrow> byte list" where
  "resp_bytes (Resp_text s) = command_part s"
| "resp_bytes (Resp_number n) = text_encode (js '':'' @ dec_int (int_of_number n) @ [13, 10])"
| "resp_bytes Resp_null = text_encode (js ''$-1'' @ [13, 10])"
| "resp_bytes (Resp_array vs) = text_encode (js ''*'' @ dec_nat (length vs) @ [13, 10]) @ concat (map resp_bytes vs)"

definition sendable_text :: "js_string \<Rightarrow> bool" where
  "sendable_text s \<longleftrightarrow> well_formed s \<and> int (length (text_encode s)) \<le> MAX_SAFE_INTEGER"

fun sendable :: "resp_value \<Rightarrow> bool" where
  "sendable (Resp_text s) = sendable_text s"
| "sendable (Resp_number n) = is_safe_integer n"
| "sendable Resp_null = True"
| "sendable (Resp_array vs) = (int (length vs) \<le> MAX_SAFE_INTEGER \<and> list_all sendable vs)"

lemma buffer_text_encode: "well_formed s \<Longrightarrow> buffer_text rt (text_encode s) = s"
proof -
  have "utf8_decode (text_encode s) = Some (scalars s)"
    unfolding text_encode_def using scalars_valid by (intro utf8_decode_encode) blast
  then show "well_formed s \<Longrightarrow> ?thesis" by (simp add: buffer_text_def scalars_units_roundtrip)
qed

lemma ascii_well_formed: "list_all ascii_unit s \<Longrightarrow> well_formed s"
  by (induction s rule: well_formed.induct)
    (auto simp: ascii_unit_def is_lead_def is_trail_def word_less_nat_alt word_le_nat_alt)

lemma digit_not_white: "is_digit u \<Longrightarrow> \<not> js_whitespace u"
  by (auto simp: is_digit_def js_whitespace_def word_le_nat_alt)

lemma digits_ends: "list_all is_digit s \<Longrightarrow> s \<noteq> [] \<Longrightarrow> is_digit (hd s) \<and> is_digit (last s)"
  by (simp add: list_all_iff)

lemma dec_int_ascii: "list_all ascii_unit (dec_int i)"
  by (simp add: dec_int_def ascii_dec_nat) (simp add: ascii_unit_def)

lemma number_text_dec_int:
  assumes "\<bar>i\<bar> \<le> MAX_SAFE_INTEGER"
  shows "number_text rt (dec_int i) = NInt i"
proof -
  have ends: "is_digit (hd (dec_nat n))" "is_digit (last (dec_nat n))" for n
    using digits_ends [OF dec_nat_digits] by auto
  have "js_trim (dec_int i) = dec_int i"
    using ends by (auto simp: js_trim_id_iff dec_int_def digit_not_white) (simp add: js_whitespace_def)
  moreover have "plain_digits (dec_nat (nat \<bar>i\<bar>))"
    using assms by (simp add: plain_digits_def all_digits_def dec_nat_digits)
  moreover have "\<not> plain_digits (45 # s)" for s by (simp add: plain_digits_def all_digits_def is_digit_def)
  ultimately show ?thesis
    by (auto simp: number_text_def Let_def dec_int_def)
qed

lemma dec_int_count: "dec_int (int n) = dec_nat n"
  by (simp add: dec_int_def)


lemma line_bytes:
  assumes "ascii_unit t" and "list_all ascii_unit s"
  shows "text_encode (t # s @ [13, 10]) = ucast t # text_encode s @ [13, 10]"
proof -
  have "list_all ascii_unit (t # s @ [13, 10])" using assms by (simp add: ascii_unit_def)
  then show ?thesis using assms by (simp add: ascii_encode)
qed

lemma ascii_no_return:
  assumes "list_all ascii_unit s" and "13 \<notin> set s"
  shows "13 \<notin> set (text_encode s)"
proof -
  have "u = 13" if "ucast u = (13 :: byte)" "ascii_unit u" for u :: code_unit
    using that by (auto simp: ascii_unit_def word_unat_eq_iff word_less_nat_alt unsigned_ucast_eq unsigned_take_bit_eq take_bit_nat_def)
  with assms show ?thesis by (auto simp: ascii_encode list_all_iff)
qed

text \<open>The header of a reply: its type, a number and the end of the line.\<close>

definition header_bytes :: "byte \<Rightarrow> int \<Rightarrow> byte list" where
  "header_bytes t i = t # text_encode (dec_int i) @ [13, 10]"

lemma dec_int_no_return: "13 \<notin> set (dec_int i)"
proof -
  have "13 \<notin> set (dec_nat n)" for n
    using dec_nat_digits [of n] by (auto simp: list_all_iff is_digit_def)
  then show ?thesis by (simp add: dec_int_def)
qed

lemma parse_header:
  assumes "\<bar>i\<bar> \<le> MAX_SAFE_INTEGER"
  shows "lineEnd (text_encode (dec_int i) @ 13 # 10 # r) = Some (length (text_encode (dec_int i)))"
    and "number_text rt (buffer_text rt (text_encode (dec_int i))) = NInt i"
  using assms by (simp_all add: lineEnd_line ascii_no_return dec_int_ascii dec_int_no_return
      buffer_text_encode ascii_well_formed number_text_dec_int)

lemma parse_number:
  "\<bar>i\<bar> \<le> MAX_SAFE_INTEGER \<Longrightarrow> parseReply rt (header_bytes 58 i @ r) = Parsed_value (Resp_number (NInt i)) r"
  by (subst parseReply.simps) (simp add: header_bytes_def parse_header)

lemma parse_null: "parseReply rt (header_bytes 36 (- 1) @ r) = Parsed_value Resp_null r"
  using parse_header [where i = "- 1"]
  by (subst parseReply.simps) (simp add: header_bytes_def MAX_SAFE_INTEGER_def Let_def)

lemma parse_array:
  "int n \<le> MAX_SAFE_INTEGER \<Longrightarrow> parseReply rt (header_bytes 42 (int n) @ r) = parse_items rt n [] r"
  by (subst parseReply.simps) (simp add: header_bytes_def parse_header Let_def)

lemma parse_bulk:
  assumes "sendable_text s"
  shows "parseReply rt (header_bytes 36 (int (length (text_encode s))) @ text_encode s @ [13, 10] @ r) = Parsed_value (Resp_text s) r"
  using assms
  by (subst parseReply.simps) (simp add: header_bytes_def parse_header Let_def nth_append sendable_text_def buffer_text_encode)

lemma resp_headers:
  "command_part s = header_bytes 36 (int (length (text_encode s))) @ text_encode s @ [13, 10]"
  "text_encode (js '':'' @ dec_int i @ [13, 10]) = header_bytes 58 i"
  "text_encode (js ''$-1'' @ [13, 10]) = header_bytes 36 (- 1)"
  "text_encode (js ''*'' @ dec_nat n @ [13, 10]) = header_bytes 42 (int n)"
proof -
  have m: "js ''-1'' = dec_int (- 1)" by (simp add: dec_int_def js_simps dec_nat.simps digit_unit_def)
  have "text_encode [13, 10] = [13, 10]" by (simp add: ascii_encode ascii_unit_def)
  then show "command_part s = header_bytes 36 (int (length (text_encode s))) @ text_encode s @ [13, 10]"
    using line_bytes [of 36] by (simp add: command_part_def Let_def js_simps header_bytes_def ascii_dec_nat dec_int_count ascii_unit_def)
  show "text_encode (js '':'' @ dec_int i @ [13, 10]) = header_bytes 58 i"
    "text_encode (js ''*'' @ dec_nat n @ [13, 10]) = header_bytes 42 (int n)"
    using line_bytes [of 58] line_bytes [of 42]
    by (simp_all add: js_simps header_bytes_def dec_int_ascii ascii_dec_nat dec_int_count ascii_unit_def)
  show "text_encode (js ''$-1'' @ [13, 10]) = header_bytes 36 (- 1)"
    using line_bytes [of 36 "dec_int (- 1)"] m by (simp add: js_simps header_bytes_def dec_int_ascii ascii_unit_def)
qed

text \<open>Every sendable value is read back, with the bytes after it left in the buffer.\<close>

lemma parse_items_all:
  assumes "\<And>v r. v \<in> set vs \<Longrightarrow> parseReply rt (resp_bytes v @ r) = Parsed_value v r"
  shows "parse_items rt (length vs) us (concat (map resp_bytes vs) @ r) = Parsed_value (Resp_array (us @ vs)) r"
  using assms by (induction vs arbitrary: us) (simp_all add: parse_items_Suc)

lemma parse_resp_bytes: "sendable v \<Longrightarrow> parseReply rt (resp_bytes v @ r) = Parsed_value v r"
proof (induction v arbitrary: r)
  case (Resp_text s)
  then show ?case using parse_bulk by (simp add: resp_headers(1))
next
  case (Resp_number n)
  then show ?case by (cases n) (simp_all add: resp_headers(2) parse_number abs_le_iff)
next
  case Resp_null
  then show ?case by (simp add: resp_headers(3) [simplified] resp_headers(3) parse_null)
next
  case (Resp_array vs)
  then have "parse_items rt (length vs) [] (concat (map resp_bytes vs) @ r) = Parsed_value (Resp_array ([] @ vs)) r"
    by (intro parse_items_all) (auto simp: list_all_iff)
  with Resp_array.prems show ?case by (simp add: resp_headers(4) parse_array)
qed

lemma encodeCommand_bytes: "encodeCommand parts = resp_bytes (Resp_array (map Resp_text parts))"
  by (simp add: encodeCommand_def comp_def)


section \<open>Replies in chunks\<close>

text \<open>A reply of a server: a line of status or failure, or a value.\<close>

datatype server_reply = Reply_status js_string | Reply_failure js_string | Reply_value resp_value

definition line_text :: "js_string \<Rightarrow> bool" where
  "line_text s \<longleftrightarrow> well_formed s \<and> 13 \<notin> set (text_encode s)"

fun reply_ok :: "server_reply \<Rightarrow> bool" where
  "reply_ok (Reply_status s) = line_text s"
| "reply_ok (Reply_failure s) = line_text s"
| "reply_ok (Reply_value v) = sendable v"

fun reply_bytes :: "server_reply \<Rightarrow> byte list" where
  "reply_bytes (Reply_status s) = 43 # text_encode s @ [13, 10]"
| "reply_bytes (Reply_failure s) = 45 # text_encode s @ [13, 10]"
| "reply_bytes (Reply_value v) = resp_bytes v"

fun reply_outcome :: "server_reply \<Rightarrow> resp_error + resp_value" where
  "reply_outcome (Reply_status s) = Inr (Resp_text s)"
| "reply_outcome (Reply_failure s) = Inl (Redis_error s)"
| "reply_outcome (Reply_value v) = Inr v"

definition outcome_parsed :: "resp_error + resp_value \<Rightarrow> byte list \<Rightarrow> resp_parsed" where
  "outcome_parsed out rest = (case out of Inl err \<Rightarrow> Parsed_error err rest | Inr v \<Rightarrow> Parsed_value v rest)"

lemma parse_line:
  assumes "line_text s" and "t = 43 \<or> t = 45"
  shows "parseReply rt (t # text_encode s @ 13 # 10 # rest) =
    (if t = 43 then Parsed_value (Resp_text s) rest else Parsed_error (Redis_error s) rest)"
  using assms by (subst parseReply.simps) (auto simp: line_text_def lineEnd_line buffer_text_encode)

lemma parse_reply_bytes: "reply_ok r \<Longrightarrow> parseReply rt (reply_bytes r @ rest) = outcome_parsed (reply_outcome r) rest"
  by (cases r) (simp_all add: outcome_parsed_def parse_resp_bytes parse_line)

lemma parse_reply_part:
  assumes "reply_ok r" and "reply_bytes r = bs @ ext" and "ext \<noteq> []"
  shows "parseReply rt bs = Parsed_none"
proof -
  from parse_reply_bytes [OF assms(1), of rt "[]"] assms(2)
  have "parseReply rt (bs @ ext) = outcome_parsed (reply_outcome r) []" by simp
  then have "(\<exists>v. parseReply rt (bs @ ext) = Parsed_value v []) \<or> (\<exists>err. parseReply rt (bs @ ext) = Parsed_error err [])"
    by (cases "reply_outcome r") (simp_all add: outcome_parsed_def)
  with parse_prefix_none [OF _ assms(3)] show ?thesis by blast
qed

lemma drain_reply:
  assumes "reply_ok r" and "rc_buffer c = reply_bytes r @ rest" and "rc_pending c = p # ps"
  shows "drain rt c = drain rt (c\<lparr>rc_buffer := rest, rc_pending := ps, rc_settled := rc_settled c @ [(p, reply_outcome r)]\<rparr>)"
  using assms by (subst drain.simps) (simp add: parse_reply_bytes outcome_parsed_def settle_first_def split: sum.split)

lemma reply_bytes_nonempty: "reply_ok r \<Longrightarrow> reply_bytes r \<noteq> []"
  using parse_reply_bytes [of r undefined "[]"] by (cases "reply_outcome r") (auto simp: outcome_parsed_def parseReply.simps [of _ "[]"])

text \<open>Draining a buffer that holds a part of the stream settles exactly the complete replies.\<close>

abbreviation stream :: "server_reply list \<Rightarrow> byte list" where
  "stream rs \<equiv> concat (map reply_bytes rs)"

lemma append_covers:
  assumes "xs @ ys = us @ vs" and "length us \<le> length xs"
  shows "\<exists>b. xs = us @ b \<and> b @ ys = vs"
proof -
  from assms obtain b where "xs = us @ b" by (metis append_eq_append_conv_if append_take_drop_id le_antisym nat_le_linear take_all)
  with assms(1) show ?thesis by simp
qed

lemma drain_stream:
  assumes "list_all reply_ok rs" and "rc_buffer c @ rest = stream rs"
    and "length (rc_buffer c) \<le> length (stream (take (length (rc_pending c)) rs))"
  obtains j b where "j \<le> length rs" "j \<le> length (rc_pending c)" "rc_buffer c = stream (take j rs) @ b" "b @ rest = stream (drop j rs)"
    "j < length rs \<Longrightarrow> length b < length (reply_bytes (rs ! j))"
    "drain rt c = c\<lparr>rc_buffer := b, rc_pending := drop j (rc_pending c),
       rc_settled := rc_settled c @ zip (take j (rc_pending c)) (map reply_outcome rs)\<rparr>"
  using assms
proof (induction rs arbitrary: c thesis)
  case Nil
  then show ?case by (intro Nil.prems(1) [of 0 "[]"]) (simp_all add: drain.simps [of rt c] parseReply.simps)
next
  case (Cons r rs)
  show ?case
  proof (cases "length (rc_buffer c) < length (reply_bytes r)")
    case True
    with Cons.prems(3) obtain ext where "reply_bytes r = rc_buffer c @ ext"
      by (metis append_eq_append_conv_if append_take_drop_id less_imp_le_nat list.simps(9) concat.simps(2))
    with True Cons.prems(2) have "parseReply rt (rc_buffer c) = Parsed_none"
      by (intro parse_reply_part [of r _ ext]) auto
    then have "drain rt c = c" by (subst drain.simps) simp
    with True Cons.prems(3) show ?thesis by (intro Cons.prems(1) [of 0 "rc_buffer c"]) simp_all
  next
    case False
    with Cons.prems(3) obtain b where b: "rc_buffer c = reply_bytes r @ b" "b @ rest = stream rs"
      using append_covers [of "rc_buffer c" rest "reply_bytes r" "stream rs"] by auto
    from Cons.prems(2,4) b(1) obtain p ps where p: "rc_pending c = p # ps"
      using reply_bytes_nonempty [of r] by (cases "rc_pending c") auto
    let ?c = "c\<lparr>rc_buffer := b, rc_pending := ps, rc_settled := rc_settled c @ [(p, reply_outcome r)]\<rparr>"
    have step: "drain rt c = drain rt ?c" using Cons.prems(2) b(1) p by (intro drain_reply) auto
    show ?thesis
    proof (rule Cons.IH [of ?c])
      fix j b'
      assume "j \<le> length rs" "j \<le> length (rc_pending ?c)" "rc_buffer ?c = stream (take j rs) @ b'" "b' @ rest = stream (drop j rs)"
        "j < length rs \<Longrightarrow> length b' < length (reply_bytes (rs ! j))"
        "drain rt ?c = ?c\<lparr>rc_buffer := b', rc_pending := drop j (rc_pending ?c),
           rc_settled := rc_settled ?c @ zip (take j (rc_pending ?c)) (map reply_outcome rs)\<rparr>"
      then show thesis using b p step by (intro Cons.prems(1) [of "Suc j" b']) simp_all
    qed (use Cons.prems b p in simp_all)
  qed
qed


text \<open>The commands issued, the bytes written for them and the bytes received in a run.\<close>

fun issued :: "client_event list \<Rightarrow> nat list" where
  "issued [] = []"
| "issued (Command p parts # evs) = p # issued evs"
| "issued (_ # evs) = issued evs"

fun written :: "client_event list \<Rightarrow> byte list" where
  "written [] = []"
| "written (Command p parts # evs) = encodeCommand parts @ written evs"
| "written (_ # evs) = written evs"

fun received :: "client_event list \<Rightarrow> byte list" where
  "received [] = []"
| "received (Data chunk # evs) = chunk @ received evs"
| "received (_ # evs) = received evs"

fun connected :: "client_event \<Rightarrow> bool" where
  "connected Socket_error = False"
| "connected Socket_closed = False"
| "connected _ = True"

text \<open>At no time has the server sent more than the replies to the commands issued so far.\<close>

definition causal :: "server_reply list \<Rightarrow> client_event list \<Rightarrow> bool" where
  "causal rs evs \<longleftrightarrow>
     list_all (\<lambda>n. length (received (take n evs)) \<le> length (stream (take (length (issued (take n evs))) rs))) [0..<Suc (length evs)]"

lemma event_append [simp]:
  "issued (es @ fs) = issued es @ issued fs" "written (es @ fs) = written es @ written fs" "received (es @ fs) = received es @ received fs"
  by (induction es rule: issued.induct; simp; fail)+

lemma causal_snoc:
  "causal rs (evs @ [e]) \<Longrightarrow> causal rs evs \<and>
    length (received (evs @ [e])) \<le> length (stream (take (length (issued (evs @ [e]))) rs))"
  unfolding causal_def by (auto simp: list_all_iff)

definition client_progress :: "server_reply list \<Rightarrow> client_event list \<Rightarrow> redis_client \<Rightarrow> nat \<Rightarrow> bool" where
  "client_progress rs evs c j \<longleftrightarrow>
     j \<le> length rs \<and> j \<le> length (issued evs) \<and> received evs = stream (take j rs) @ rc_buffer c \<and>
     (j < length rs \<longrightarrow> length (rc_buffer c) < length (reply_bytes (rs ! j))) \<and>
     rc_pending c = drop j (issued evs) \<and> rc_settled c = zip (issued evs) (map reply_outcome (take j rs)) \<and> rc_sent c = written evs"

lemma stream_drop: "j \<le> n \<Longrightarrow> stream (take n rs) = stream (take j rs) @ stream (take (n - j) (drop j rs))"
  by (metis append_eq_conv_conj concat_append le_add_diff_inverse map_append take_add)

lemma zip_takes: "zip xs (take n ys) = take n (zip xs ys)" "zip (take n xs) ys = take n (zip xs ys)"
  by (induction xs arbitrary: n ys; case_tac ys; case_tac n; simp)+

lemma zip_take_add: "zip xs (take (j + k) ys) = zip xs (take j ys) @ zip (take k (drop j xs)) (drop j ys)"
  unfolding zip_takes by (simp add: take_add drop_zip)

lemma client_progress_data:
  assumes "list_all reply_ok rs" and "client_progress rs evs c j" and "received evs @ chunk @ rest = stream rs"
    and "length (received evs @ chunk) \<le> length (stream (take (length (issued evs)) rs))"
  shows "\<exists>k. client_progress rs (evs @ [Data chunk]) (client_step rt (Data chunk) c) k"
proof -
  let ?c = "c\<lparr>rc_buffer := rc_buffer c @ chunk\<rparr>"
  note p = assms(2) [unfolded client_progress_def]
  have buf: "rc_buffer ?c @ rest = stream (drop j rs)"
    using p assms(3) stream_drop [of j "length rs" rs] by simp
  have len: "length (rc_buffer ?c) \<le> length (stream (take (length (rc_pending ?c)) (drop j rs)))"
    using p assms(4) stream_drop [of j "length (issued evs)" rs] by simp
  have ok: "list_all reply_ok (drop j rs)" using assms(1) by (auto simp: list_all_iff dest: in_set_dropD)
  obtain k b where k: "k \<le> length (drop j rs)" "k \<le> length (rc_pending ?c)" "rc_buffer ?c = stream (take k (drop j rs)) @ b"
      "k < length (drop j rs) \<Longrightarrow> length b < length (reply_bytes (drop j rs ! k))"
      "drain rt ?c = ?c\<lparr>rc_buffer := b, rc_pending := drop k (rc_pending ?c),
         rc_settled := rc_settled ?c @ zip (take k (rc_pending ?c)) (map reply_outcome (drop j rs))\<rparr>"
    using drain_stream [where rt = rt, OF ok buf len] by metis
  have "zip (issued evs) (map reply_outcome (take (j + k) rs)) =
      zip (issued evs) (map reply_outcome (take j rs)) @ zip (take k (drop j (issued evs))) (map reply_outcome (drop j rs))"
    using zip_take_add [of "issued evs" j k "map reply_outcome rs"] by (simp add: take_map drop_map)
  with p k show ?thesis
    by (intro exI [of _ "j + k"]) (auto simp: client_progress_def stream_drop [of j "j + k"] add.commute)
qed


lemma client_progress_run:
  assumes "list_all reply_ok rs" and "list_all connected evs" and "causal rs evs" and "received evs @ rest = stream rs"
  shows "\<exists>j. client_progress rs evs (run_client rt evs new_client) j"
  using assms(2-4)
proof (induction evs arbitrary: rest rule: rev_induct)
  case Nil
  have "client_progress rs [] new_client 0"
    using assms(1) reply_bytes_nonempty [of "rs ! 0"]
    by (auto simp: client_progress_def new_client_def list_all_length)
  then show ?case by (auto simp: run_client_def)
next
  case (snoc e evs)
  note c = causal_snoc [OF snoc.prems(2)]
  obtain j where j: "client_progress rs evs (run_client rt evs new_client) j"
    using snoc.IH [of "received [e] @ rest"] snoc.prems c by auto
  show ?case
  proof (cases e)
    case (Command p parts)
    with j have "client_progress rs (evs @ [e]) (client_step rt e (run_client rt evs new_client)) j"
      by (auto simp: client_progress_def client_command_def zip_append1)
    then show ?thesis by (auto simp: run_client_def)
  next
    case (Data chunk)
    with snoc.prems c show ?thesis
      using client_progress_data [OF assms(1) j, of chunk rest rt] by (auto simp: run_client_def)
  qed (use snoc.prems in simp_all)
qed

text \<open>An array in which an item is an error: the items after it stay in the buffer.\<close>

lemma parse_items_error:
  assumes "list_all sendable vs" and "line_text e" and "length vs < n"
  shows "parse_items rt n us (concat (map resp_bytes vs) @ reply_bytes (Reply_failure e) @ rest) = Parsed_error (Redis_error e) rest"
  using assms
proof (induction vs arbitrary: us n)
  case Nil
  then show ?case
    using parse_reply_bytes [of "Reply_failure e" rt rest] by (cases n) (simp_all add: parse_items_Suc outcome_parsed_def)
next
  case (Cons v vs)
  then show ?case by (cases n) (simp_all add: parse_items_Suc parse_resp_bytes)
qed

section \<open>Properties\<close>

text \<open>C40: commands are framed without ambiguity. Whatever bytes follow, the bytes of a command are read back
  as the array of its parts, with exactly the following bytes left over: no part can end early, hide
  a separator or run into the next command, whatever characters it contains.\<close>

theorem encodeCommand_roundtrip:
  assumes "list_all sendable_text parts" and "int (length parts) \<le> MAX_SAFE_INTEGER"
  shows "parseReply rt (encodeCommand parts @ rest) = Parsed_value (Resp_array (map Resp_text parts)) rest"
  using parse_resp_bytes [of "Resp_array (map Resp_text parts)"] assms
  by (simp add: encodeCommand_bytes list_all_iff del: resp_bytes.simps)

definition sample_runtime :: resp_runtime where
  "sample_runtime = \<lparr>rr_lossy = (\<lambda>_. []), rr_number = (\<lambda>_. NNaN)\<rparr>"

theorem encodeCommand_roundtrip_witness:
  "parseReply sample_runtime (encodeCommand [js ''GET'', [13, 10, 36]] @ [42]) = Parsed_value (Resp_array [Resp_text (js ''GET''), Resp_text [13, 10, 36]]) [42]"
  using encodeCommand_roundtrip [of "[js ''GET'', [13, 10, 36]]" sample_runtime "[42]"]
  by (simp add: sendable_text_def js_simps ascii_encode ascii_unit_def is_lead_def is_trail_def MAX_SAFE_INTEGER_def)

text \<open>C39: however the bytes of the replies are cut into chunks, and however chunks and commands interleave,
  promises are settled in the order of their commands. While the connection is up and the server
  sends the replies \<open>rs\<close> one after the other, none before its command, the client has after any events
  settled the first \<open>j\<close> promises with the first \<open>j\<close> replies, a value or an error, where \<open>j\<close> is the number of
  replies received completely; the others are pending, the buffer holds just the bytes of the
  incomplete reply, and what was written is the commands in order.\<close>

theorem replies_settle_in_order:
  assumes "list_all reply_ok rs" and "list_all connected evs" and "causal rs evs" and "received evs @ rest = stream rs"
  shows "\<exists>j c. run_client rt evs new_client = c \<and> j \<le> length rs \<and> received evs = stream (take j rs) @ rc_buffer c \<and>
    (j < length rs \<longrightarrow> length (rc_buffer c) < length (reply_bytes (rs ! j))) \<and>
    rc_settled c = zip (issued evs) (map reply_outcome (take j rs)) \<and> rc_pending c = drop j (issued evs) \<and>
    rc_sent c = written evs"
  using client_progress_run [OF assms, of rt] by (auto simp: client_progress_def)

definition sample_events :: "client_event list" where
  "sample_events = [Command 1 [js ''PING''], Data [43, 79], Command 2 [js ''GET''], Data [75, 13, 10, 36, 45], Data [49, 13, 10]]"

theorem replies_settle_in_order_witness:
  "rc_settled (run_client sample_runtime sample_events new_client) = [(1, Inr (Resp_text (js ''OK''))), (2, Inr Resp_null)] \<and>
   rc_pending (run_client sample_runtime sample_events new_client) = []"
proof -
  let ?rs = "[Reply_status (js ''OK''), Reply_value Resp_null]"
  have bytes: "reply_bytes (Reply_status (js ''OK'')) = [43, 79, 75, 13, 10]" "resp_bytes Resp_null = [36, 45, 49, 13, 10]"
    by (simp_all add: js_simps ascii_encode ascii_unit_def)
  note bytes_only = resp_bytes.simps reply_bytes.simps(1)
  have all: "received sample_events = [43, 79, 75, 13, 10, 36, 45, 49, 13, 10]" "issued sample_events = [1, 2]"
    by (simp_all add: sample_events_def)
  have ok: "list_all reply_ok ?rs" by (simp add: line_text_def js_simps ascii_encode ascii_unit_def is_lead_def is_trail_def)
  have up: "list_all connected sample_events" and order: "causal ?rs sample_events"
    by (simp_all add: sample_events_def causal_def bytes upt_rec del: bytes_only)
  have whole: "received sample_events @ [] = stream ?rs" by (simp add: all bytes del: bytes_only)
  from replies_settle_in_order [OF ok up order whole, of sample_runtime]
  obtain j c where c: "run_client sample_runtime sample_events new_client = c" and "j \<le> length ?rs"
    and j: "received sample_events = stream (take j ?rs) @ rc_buffer c"
      "j < length ?rs \<longrightarrow> length (rc_buffer c) < length (reply_bytes (?rs ! j))"
      "rc_settled c = zip (issued sample_events) (map reply_outcome (take j ?rs))" "rc_pending c = drop j (issued sample_events)"
    by blast
  then consider "j = 0" | "j = 1" | "j = 2" by fastforce
  then show ?thesis
    unfolding c using j(1) [symmetric] j(2-4)
    by cases (simp_all add: all bytes del: bytes_only)
qed

text \<open>A defect: an error inside an array reply is returned without skipping the items after it. The promise of
  the command is rejected with the error, as for an error of its own, but the item \<open>w\<close> that followed
  the error in the same reply is then taken for the reply to the next command, which is resolved
  with it although nothing was received for it.\<close>

theorem nested_error_misattributes:
  assumes "list_all sendable vs" and "line_text e" and "sendable w" and "int (length vs) + 2 \<le> MAX_SAFE_INTEGER"
  shows "rc_settled (run_client rt [Command p a, Command q b,
      Data (header_bytes 42 (int (length vs) + 2) @ concat (map resp_bytes vs) @ reply_bytes (Reply_failure e) @ resp_bytes w)] new_client) =
    [(p, Inl (Redis_error e)), (q, Inr w)]"
proof -
  have h: "header_bytes 42 (int (length vs) + 2) = header_bytes 42 (int (length vs + 2))" by (simp add: add.commute)
  have "parseReply rt (header_bytes 42 (int (length vs + 2)) @ concat (map resp_bytes vs) @ reply_bytes (Reply_failure e) @ resp_bytes w) =
      Parsed_error (Redis_error e) (resp_bytes w)"
    using assms parse_array [of "length vs + 2" rt] parse_items_error [OF assms(1,2), of "length vs + 2" rt "[]"]
    by (simp del: reply_bytes.simps of_nat_add)
  moreover have "parseReply rt (resp_bytes w) = Parsed_value w []" using parse_resp_bytes [OF assms(3), of rt "[]"] by simp
  moreover have "parseReply rt [] = Parsed_none" by (simp add: parseReply.simps)
  ultimately show ?thesis
    unfolding h by (simp add: run_client_def client_command_def new_client_def drain.simps settle_first_def del: reply_bytes.simps)
qed

theorem nested_error_misattributes_witness:
  "rc_settled (run_client sample_runtime [Command 1 [], Command 2 [],
      Data (header_bytes 42 2 @ reply_bytes (Reply_failure (js ''ERR'')) @ resp_bytes (Resp_number (NInt 7)))] new_client) =
    [(1, Inl (Redis_error (js ''ERR''))), (2, Inr (Resp_number (NInt 7)))]"
  using nested_error_misattributes [of "[]" "js ''ERR''" "Resp_number (NInt 7)" sample_runtime 1 "[]" 2 "[]"]
  by (simp add: line_text_def js_simps ascii_encode ascii_unit_def is_lead_def is_trail_def MAX_SAFE_INTEGER_def del: resp_bytes.simps reply_bytes.simps)

end
