(* ===== verification/Redis_Run.thy ===== *)
theory Redis_Run
  imports Fence_Corpus Resp
begin

text \<open>
  \<open>runRedis\<close> of \<open>scripts/test-adversarial-datastores.mjs\<close>: the store sequence of the corpus is sent to a Redis
  server whose script guards a value by the fencing decision. \<open>call\<close> is \<open>RedisClient.command\<close>, whose
  promises are settled as theory \<open>Resp\<close> shows; the connection's parameters are not modelled.
\<close>

section \<open>Definitions\<close>

datatype run_error = Call_failed resp_error | Malformed_reply nat | Reply_mismatch nat | State_mismatch nat

definition redis_tag :: "js_string \<Rightarrow> js_string \<Rightarrow> js_string" where
  "redis_tag tenant resource =
     map (\<lambda>u. if u = 123 \<or> u = 125 then 95 else u) (js ''adversarial:'' @ tenant @ js '':'' @ resource)"

definition watermark_key :: "js_string \<Rightarrow> js_string" where
  "watermark_key tag = js ''ores-locks:{'' @ tag @ js ''}:fence''"

definition state_key :: "js_string \<Rightarrow> js_string" where
  "state_key tag = js ''ores-locks:{'' @ tag @ js ''}:state''"

text \<open>\<open>String(part)\<close> of a value that is not a string is the argument \<open>str\<close>; \<open>holder ?? ""\<close>.\<close>

definition string_part :: "(js_value \<Rightarrow> js_string) \<Rightarrow> js_value \<Rightarrow> js_string" where
  "string_part str v = (case v of JString s \<Rightarrow> s | _ \<Rightarrow> str v)"

definition optional_part :: "(js_value \<Rightarrow> js_string) \<Rightarrow> js_value \<Rightarrow> js_string" where
  "optional_part str v = (if v = JUndefined \<or> v = JNull then [] else string_part str v)"

definition reply_part :: "(resp_value \<Rightarrow> js_string) \<Rightarrow> resp_value \<Rightarrow> js_string" where
  "reply_part str v = (case v of Resp_text s \<Rightarrow> s | _ \<Rightarrow> str v)"

fun decision_text :: "fence_decision_kind \<Rightarrow> js_string" where
  "decision_text Advanced = js ''advanced''"
| "decision_text Replay = js ''replay''"
| "decision_text Stale = js ''stale''"
| "decision_text Token_reuse = js ''token_reuse''"

definition evalsha_parts :: "(js_value \<Rightarrow> js_string) \<Rightarrow> js_string \<Rightarrow> js_string \<Rightarrow> js_string \<Rightarrow> store_step \<Rightarrow> js_string list" where
  "evalsha_parts str sha watermark state item =
     (let request = sp_request item in
      [js ''EVALSHA'', sha, js ''2'', watermark, state,
       string_part str (get_prop request ''fencingToken''), string_part str (get_prop request ''operationId''),
       string_part str (get_prop request ''payloadSha256''), sp_serializedValue item,
       optional_part str (get_prop request ''holder''), optional_part str (get_prop request ''leaseId'')])"

text \<open>The comparison of a reply with what the corpus expects; \<open>Some\<close> is the exception.\<close>

definition reply_error :: "nat \<Rightarrow> store_step \<Rightarrow> resp_value \<Rightarrow> run_error option" where
  "reply_error index item reply =
     (case reply of
        Resp_array [r0, r1, r2, r3] \<Rightarrow>
          let normalizedPrevious = (if r3 = Resp_text [] then Resp_null else r3) in
          if r0 \<noteq> Resp_text (decision_text (sp_decision item)) \<or>
             r1 \<noteq> Resp_text (if sp_shouldApply item then js ''1'' else js ''0'') \<or>
             r2 \<noteq> Resp_text (sp_currentToken item) \<or>
             normalizedPrevious \<noteq> (case sp_previousToken item of None \<Rightarrow> Resp_null | Some t \<Rightarrow> Resp_text t)
          then Some (Reply_mismatch index) else None
      | _ \<Rightarrow> Some (Malformed_reply index))"

type_synonym 'w redis_call = "js_string list \<Rightarrow> ('w, run_error, resp_value) action"

fun redis_loop ::
  "'w redis_call \<Rightarrow> (js_value \<Rightarrow> js_string) \<Rightarrow> js_string \<Rightarrow> js_string \<Rightarrow> js_string \<Rightarrow> nat \<Rightarrow> store_step list \<Rightarrow> ('w, run_error, unit) action" where
  "redis_loop call str sha watermark state index [] = return_st ()"
| "redis_loop call str sha watermark state index (item # items) =
     bind_st (call (evalsha_parts str sha watermark state item)) (\<lambda>reply.
     case reply_error index item reply of
       Some e \<Rightarrow> throw_st e
     | None \<Rightarrow>
         bind_st (call [js ''GET'', state]) (\<lambda>observedState.
         if observedState \<noteq> Resp_text (sp_stateValue item) then throw_st (State_mismatch index)
         else redis_loop call str sha watermark state (Suc index) items))"

definition runRedis ::
  "'w redis_call \<Rightarrow> ('w, run_error, unit) action \<Rightarrow> (js_value \<Rightarrow> js_string) \<Rightarrow> (resp_value \<Rightarrow> js_string) \<Rightarrow>
   js_string \<Rightarrow> js_string \<Rightarrow> js_string \<Rightarrow> store_step list \<Rightarrow> ('w, run_error, nat) action" where
  "runRedis call close str str' tenant resource scriptText steps =
     (let tag = redis_tag tenant resource; watermark = watermark_key tag; state = state_key tag in
      finally_st
        (bind_st (call [js ''SCRIPT'', js ''LOAD'', scriptText]) (\<lambda>scriptSha.
         bind_st (call [js ''DEL'', watermark, state]) (\<lambda>_.
         bind_st (redis_loop call str (reply_part str' scriptSha) watermark state 0 steps) (\<lambda>_.
         return_st (length steps)))))
        (finally_st (bind_st (call [js ''DEL'', watermark, state]) (\<lambda>_. return_st ())) close))"

text \<open>
  The server that the script promises: the watermark and the value are only changed by an admitted
  write, and the reply is the decision.
\<close>

record fence_server =
  sv_store :: fence_store
  sv_value :: "js_string option"
  sv_open :: bool

definition given_text :: "js_string \<Rightarrow> js_string option" where
  "given_text s = (if s = [] then None else Some s)"

definition decision_reply :: "fence_decision \<Rightarrow> resp_value" where
  "decision_reply d = Resp_array
     [Resp_text (decision_text (fd_kind d)), Resp_text (if fd_shouldApply d then js ''1'' else js ''0''),
      Resp_text (fd_currentToken d), Resp_text (case fd_previousToken d of None \<Rightarrow> [] | Some t \<Rightarrow> t)]"

definition serve_script :: "js_string list \<Rightarrow> fence_server \<Rightarrow> (run_error + resp_value) \<times> fence_server" where
  "serve_script args s =
     (case args of
        [tok, op, payload, value, holder, lease] \<Rightarrow>
          (case fence_admit (sv_store s) (request_object
              \<lparr>fw_tenantScope = request_tenant, fw_resourceKey = request_resource, fw_fencingToken = tok, fw_operationId = op,
               fw_payloadSha256 = payload, fw_holder = given_text holder, fw_leaseId = given_text lease\<rparr>) of
             (Inl e, _) \<Rightarrow> (Inl (Call_failed (Redis_error [])), s)
           | (Inr d, st) \<Rightarrow>
               (Inr (decision_reply d), s\<lparr>sv_store := st, sv_value := if fd_shouldApply d then Some value else sv_value s\<rparr>))
      | _ \<Rightarrow> (Inl (Call_failed (Redis_error [])), s))"

definition serve :: "js_string \<Rightarrow> js_string \<Rightarrow> js_string \<Rightarrow> js_string \<Rightarrow> fence_server redis_call" where
  "serve script sha watermark state parts s =
     (if parts = [js ''SCRIPT'', js ''LOAD'', script] then (Inr (Resp_text sha), s)
      else if parts = [js ''DEL'', watermark, state] then (Inr (Resp_number (NInt 0)), s\<lparr>sv_store := empty_store, sv_value := None\<rparr>)
      else if parts = [js ''GET'', state] then (Inr (case sv_value s of None \<Rightarrow> Resp_null | Some v \<Rightarrow> Resp_text v), s)
      else if take 5 parts = [js ''EVALSHA'', sha, js ''2'', watermark, state] then serve_script (drop 5 parts) s
      else (Inl (Call_failed (Redis_error [])), s))"

definition close_server :: "(fence_server, run_error, unit) action" where
  "close_server s = (Inr (), s\<lparr>sv_open := False\<rparr>)"

section \<open>Lemmas\<close>

text \<open>Every step of the sequence carries a plain request, without holder and lease; a previous token has digits.\<close>

definition plain_step :: "store_step \<Rightarrow> bool" where
  "plain_step p \<longleftrightarrow>
     (\<exists>t op payload. sp_request p = request_object (corpus_request t op payload None)) \<and> sp_previousToken p \<noteq> Some []"

lemma plain_stepI:
  "sp_request p = request_object (corpus_request t op payload None) \<Longrightarrow> sp_previousToken p \<noteq> Some [] \<Longrightarrow> plain_step p"
  by (auto simp: plain_step_def)

lemma seq_append_plain:
  "seq_append digest seed kind tok op payload st = Inr st' \<Longrightarrow> list_all plain_step (ss_sequence st) \<Longrightarrow>
    list_all plain_step (ss_sequence st')"
  by (cases "ss_current st"; cases "ss_value st"; cases "kind = Advanced")
    (auto simp: seq_append_def request_plain Let_def intro!: plain_stepI)

lemma run_steps_keep:
  assumes "\<And>x s s'. f x s = Inr s' \<Longrightarrow> P s \<Longrightarrow> P s'" and "run_steps f xs s = Inr s'" and "P s"
  shows "P s'"
  using assms(2,3) by (induction xs arbitrary: s) (auto simp: and_then_eq_Inr dest: assms(1))

lemma critical_steps_plain:
  "critical_steps digest seed it st = Inr st' \<Longrightarrow> list_all plain_step (ss_sequence st) \<Longrightarrow> list_all plain_step (ss_sequence st')"
  by (cases it) (auto simp: critical_steps_def Let_def and_then_eq_Inr dest!: seq_append_plain split: if_splits)

lemma random_step_plain:
  "random_step digest seed g st = (Inr st', g') \<Longrightarrow> list_all plain_step (ss_sequence st) \<Longrightarrow> list_all plain_step (ss_sequence st')"
  by (auto simp: random_step_def Let_def dest: seq_append_plain split: option.splits prod.splits if_splits)

lemma random_loop_plain:
  "random_loop digest seed limit g st = Inr st' \<Longrightarrow> list_all plain_step (ss_sequence st) \<Longrightarrow> list_all plain_step (ss_sequence st')"
proof (induction digest seed limit g st rule: random_loop.induct)
  case (1 digest seed limit g st)
  show ?case
  proof (cases "length (ss_sequence st) < limit")
    case True
    with "1.prems"(1) obtain st1 g1 where "random_step digest seed g st = (Inr st1, g1)" "random_loop digest seed limit g1 st1 = Inr st'"
      by (subst (asm) random_loop.simps) (auto split: prod.splits sum.splits)
    with "1.IH" [OF True] random_step_plain "1.prems"(2) show ?thesis by metis
  qed (use "1.prems" in \<open>simp add: random_loop.simps [of digest seed limit g st]\<close>)
qed

lemma store_sequence_plain:
  assumes "buildStoreSequence digest seed count = Inr steps"
  shows "list_all plain_step steps"
proof -
  have keep: "list_all plain_step (ss_sequence s')"
    if "run_steps (critical_steps digest seed) xs s = Inr s'" "list_all plain_step (ss_sequence s)" for xs s s'
    using run_steps_keep [where f = "critical_steps digest seed" and P = "\<lambda>st. list_all plain_step (ss_sequence st)"]
      critical_steps_plain that by blast
  from assms obtain st1 st2 st3 where st:
      "run_steps (critical_steps digest seed) (enumerate 0 critical) \<lparr>ss_sequence = [], ss_current = None, ss_value = None\<rparr> = Inr st1"
      "random_loop digest seed (count - terminalReserve) (xorshift_start (seed XOR 0xd1b54a32d192ed03)) st1 = Inr st2"
      "run_steps (critical_steps digest seed) (enumerate (length critical) [U64_MASK - 1, U64_MASK]) st2 = Inr st3"
      "steps = ss_sequence st3"
    unfolding buildStoreSequence_def and_then_eq_Inr by (auto split: if_splits simp del: run_steps.simps enumerate_simps)
  have "list_all plain_step (ss_sequence st1)" by (rule keep [OF st(1)]) simp
  from random_loop_plain [OF st(2) this] have "list_all plain_step (ss_sequence st3)" by (rule keep [OF st(3)])
  with st(4) show ?thesis by simp
qed

lemma corpus_request_props:
  "get_prop (request_object (corpus_request t op payload None)) ''operationId'' = JString op"
  "get_prop (request_object (corpus_request t op payload None)) ''payloadSha256'' = JString payload"
  "get_prop (request_object (corpus_request t op payload None)) ''holder'' = JUndefined"
  "get_prop (request_object (corpus_request t op payload None)) ''leaseId'' = JUndefined"
  by (simp_all add: request_object_def corpus_request_def object_literal_def field_def optional_prop_def)

lemma serve_plain:
  assumes "sp_request item = request_object (corpus_request t op payload None)"
  shows "serve script sha watermark state (evalsha_parts str sha watermark state item) s =
    (case fence_admit (sv_store s) (sp_request item) of
       (Inl e, _) \<Rightarrow> (Inl (Call_failed (Redis_error [])), s)
     | (Inr d, st) \<Rightarrow> (Inr (decision_reply d),
         s\<lparr>sv_store := st, sv_value := if fd_shouldApply d then Some (sp_serializedValue item) else sv_value s\<rparr>))"
  unfolding assms
  by (simp add: serve_def evalsha_parts_def assms Let_def corpus_request_text corpus_request_props string_part_def optional_part_def
      serve_script_def given_text_def)
    (simp add: corpus_request_def)


lemma reply_error_decision:
  assumes "fd_kind d = sp_decision item" and "fd_shouldApply d = sp_shouldApply item" and "fd_currentToken d = sp_currentToken item"
    and "fd_previousToken d = sp_previousToken item" and "fd_previousToken d \<noteq> Some []"
  shows "reply_error index item (decision_reply d) = None"
  using assms by (auto simp: reply_error_def decision_reply_def Let_def split: option.split)

text \<open>A run of the loop against the server is the replay of the sequence.\<close>

lemma redis_loop_replay:
  assumes "replay (sv_store s, sv_value s) steps = Some (store, v)" and "list_all plain_step steps"
  shows "redis_loop (serve script sha watermark state) str sha watermark state index steps s =
    (Inr (), s\<lparr>sv_store := store, sv_value := v\<rparr>)"
  using assms
proof (induction steps arbitrary: s index)
  case (Cons item items)
  from Cons.prems obtain t op payload where "sp_request item = request_object (corpus_request t op payload None)"
    by (auto simp: plain_step_def)
  note served = serve_plain [OF this]
  from Cons.prems(1) obtain d st where d: "fence_admit (sv_store s) (sp_request item) = (Inr d, st)"
    by (auto simp: Let_def split: prod.splits sum.splits)
  let ?s = "s\<lparr>sv_store := st, sv_value := if fd_shouldApply d then Some (sp_serializedValue item) else sv_value s\<rparr>"
  from Cons.prems(1) d have ok: "fd_kind d = sp_decision item" "fd_shouldApply d = sp_shouldApply item" "fd_currentToken d = sp_currentToken item"
      "fd_previousToken d = sp_previousToken item" "sv_value ?s = Some (sp_stateValue item)"
    and rest: "replay (sv_store ?s, sv_value ?s) items = Some (store, v)"
    by (simp_all add: Let_def split: if_splits)
  have "serve script sha watermark state [js ''GET'', state] ?s = (Inr (Resp_text (sp_stateValue item)), ?s)"
    using ok(5) by (simp add: serve_def)
  moreover have "reply_error index item (decision_reply d) = None"
    using ok Cons.prems(2) by (intro reply_error_decision) (simp_all add: plain_step_def)
  ultimately show ?case
    using Cons.IH [OF rest] Cons.prems d by (simp add: served bind_st_def)
qed (simp add: return_st_def)

section \<open>Properties\<close>



end
