(* ===== verification/Spec2Isabelle.thy ===== *)
theory Spec2Isabelle
  imports Fence Lock_Plan Lock_Errors Lock_Key Do_Http Pg Renewal Formal_Model Maintained_Model Maintained Local_Recovery
    Adapters Renewal_Corpus Redis_Run
begin

text \<open>
  Verification of the TypeScript and JavaScript code of the locks-and-leases library.

  \<^bold>\<open>The program.\<close> A caller names a lock by a key (\<open>key.ts\<close>) and chooses layers (\<open>plan.ts\<close>): a lease held at an
  authority, a PostgreSQL advisory lock, or both. \<open>lease.ts\<close> and \<open>pg.ts\<close> run the caller's work under the
  layers and clean up on every path; \<open>maintained.ts\<close> does so while a supervisor (\<open>renewal.ts\<close>) renews the lease
  in the background. Six adapters implement the lease over a transport: Upstash Redis, the Durable
  Object authority over HTTP and over RPC, a fiducia node, Redlock and BeamScale. The authority of the
  Durable Object (\<open>managed/cloudflare-do\<close>) and the Lua scripts of the Redis authority belong to the
  repository and mint fencing tokens; a datastore that is written under a lease checks the token by
  \<open>fence.ts\<close>. Independently of these, \<open>local-file.ts\<close>, \<open>local-file-scoped.ts\<close> and \<open>local-file-recovery.ts\<close> lock a path of
  a file system. \<open>formal/*.mjs\<close> are the repository's own bounded models; \<open>scripts/*.mjs\<close> generate and check
  corpora that are shared by all languages.

  \<^bold>\<open>How it is modelled.\<close> Every operation is a function of this development with the branches, early returns
  and exceptions of the code. Code that throws returns a sum, \<open>Inl\<close> what was thrown; code with state is
  an action that takes the state and returns the outcome and the state after it, also when it throws
  (theory \<open>Prelude\<close>). JavaScript strings are lists of 16-bit code units, with the UTF-8 conversions; numbers
  are integers, fractions, NaN and infinities; values are a datatype with properties in order, data or
  accessor (\<open>Js_Values\<close>). What the code is given or calls outside the repository is an argument: \<open>fetch\<close>, \<open>JSON.parse\<close>,
  clocks, timers, the abort signal, the PostgreSQL client, the Redlock client, SHA-256, the caller's
  work. Named hypotheses say what a theorem needs of them.

  \<^bold>\<open>Theories, and the source they follow.\<close>

  \<^item> \<open>Prelude\<close>, \<open>Js_Values\<close>: the vocabulary above, with the rules that run it (\<open>sum_flow\<close>, \<open>st_flow\<close>), the round trip of
    UTF-8 and of decimal text.
  \<^item> \<open>Lock_Key\<close> (\<open>key.ts\<close>): which keys are accepted; the advisory key is FNV-1a read as a signed word.
    \<open>Lock_Plan\<close> (\<open>plan.ts\<close>), \<open>Lock_Errors\<close> (\<open>errors.ts\<close>).
  \<^item> \<open>Lease\<close> (\<open>lease.ts\<close>), \<open>Pg\<close> (\<open>pg.ts\<close>): exactly one acquire, one release or rollback and the steps of the plan on
    every path; which failure the caller sees when work and cleanup both fail.
  \<^item> \<open>Renewal\<close> (\<open>renewal.ts\<close>): the supervisor fails closed, a loss is final and the first one is kept, and it
    decides in time for the lease. \<open>Maintained\<close> (\<open>maintained.ts\<close>): a maintained transaction commits only after a
    confirmed final renewal, releases what it took, and ends.
  \<^item> \<open>Authority_Spec\<close>: the interface \<open>fenced_authority\<close> of a lease authority: tokens are minted in increasing order and
    none twice. \<open>Do_Authority\<close> (\<open>authority.js\<close>) and \<open>Redis_Scripts\<close> (the scripts of \<open>upstash-redis.ts\<close>) implement it,
    and so does the bounded model of \<open>formal/model.mjs\<close> (\<open>Formal_Model\<close>). A live lease is changed only by its own holder
    under its own token; expired rows are reaped by the alarm.
  \<^item> \<open>Do_Http\<close> (\<open>http-boundary.js\<close>, \<open>index.js\<close>): only admitted requests reach the authority, within their scope.
  \<^item> \<open>Fence\<close> (\<open>fence.ts\<close>): the decision on a fenced write, and the interface \<open>watermark_store\<close> of a store that follows it:
    applied tokens strictly increase.
  \<^item> \<open>Lease_Client\<close>: what the adapters share, with the interface \<open>lease_adapter\<close>; \<open>Upstash\<close>, \<open>Cloudflare_Client\<close> (HTTP and
    RPC), \<open>Fiducia\<close>, \<open>Redlock\<close>, \<open>Beamscale\<close> model the adapters and interpret it. \<open>Adapters\<close>: every acquisition of
    every adapter ends; the RPC adapter as the lease of \<open>withLease\<close>.
  \<^item> \<open>File_Programs\<close>, \<open>Local_File\<close>, \<open>Local_Fs\<close>, \<open>Local_Recovery\<close>: the local file lock as programs over file system calls, a file
    system in which such programs of several processes interleave call by call, mutual exclusion,
    atomic failure, termination and single-winner recovery. The interfaces are \<open>exclusive_directory\<close> (one \<open>mkdir\<close>
    wins) and \<open>single_claim\<close> (one \<open>rename\<close> wins), interpreted on the file system.
  \<^item> \<open>Maintained_Model\<close> (\<open>formal/maintained-model.mjs\<close>): the assertions of both bounded models never fail, without the bound.
  \<^item> \<open>Fence_Corpus\<close> (\<open>generate-fence-adversarial.mjs\<close>): every generated verdict is the one of \<open>evaluateFence\<close>, for every seed.
    \<open>Renewal_Corpus\<close> (\<open>check-renewal-corpus.mjs\<close>): its reference schedule is the supervisor's. \<open>Resp\<close> and \<open>Redis_Run\<close>
    (\<open>test-adversarial-datastores.mjs\<close>): the Redis client settles its promises in order however the replies are
    cut into chunks, and the test passes on every server that keeps the fencing contract.
  \<^item> This theory: the composition of \<open>withLease\<close>, the RPC adapter and the authority, and of the authority with
    a fencing store.

  Witnesses follow the theorems they instantiate; values named \<open>sample_...\<close> are theirs.

  \<^bold>\<open>Fuel and bounds.\<close> Loops that poll a clock take fuel and return \<open>None\<close> when it runs out; each has a theorem that
  enough fuel gives a result. A maintained transaction needs more fuel than its wait timeout in
  milliseconds; a local acquisition the wait timeout plus 2; a polling adapter its time limit plus 2, and
  plus 3 for BeamScale, as each sleep advances the clock by at least one millisecond. Loops over data are
  total functions. The corpus theorems hold up to ten thousand rounds and for 39 to a thousand million
  steps, which covers both profiles of the generator (24 and 512 rounds, 128 and 2048 steps).

  \<^bold>\<open>Not modelled.\<close> \<open>index.ts\<close> only re-exports. Of the scripts, the drivers that start processes of five language
  runtimes on a real file system, the launchers, and the checks and receipts over checked-in files
  have no state or algorithm of their own; of the test of the datastores, the text of the PostgreSQL
  program and the connection's set-up are left out. The Rust, Go, Dart and Gleam slices are ports of
  what is modelled here. \<open>managed/redis/*.lua\<close> repeats the scripts embedded in \<open>upstash-redis.ts\<close>.
  \<open>managed/beamscale-critical-section\<close> is a submodule whose files are elsewhere. Concurrency inside one JavaScript
  process is modelled where the code has it: the heartbeat of \<open>maintained.ts\<close> against the work, chunks against
  commands in \<open>Resp\<close>; not modelled is the order in which unrelated promises of a caller run.
\<close>

section \<open>Properties across components\<close>

text \<open>C2: a guarded run over the Durable Object authority, from \<open>withLease\<close> through the RPC adapter to
  the authority's row. On a free lock the run acquires token \<open>n\<close>, the successor of the counter; the
  work runs once, with that grant, while the authority's live owner is this holder under \<open>n\<close>; the
  lock is free afterwards whatever the work returned or threw, with the counter still at \<open>n\<close>. The
  caller gets the work's outcome exactly when the release came before the lease expired; if the
  work outlived its lease the run throws that the lease was lost, also when the work succeeded.
  The work may call any other lock.\<close>

theorem withLease_over_authority:
  fixes work :: "client_grant guarded \<Rightarrow> (do_world, thrown, 'a) action"
  assumes req: "request_ok opts h rid ttl" and free: "free_object (dw_objects (env_world s) key) env1 n"
    and calls: "dw_calls (env_world s) = (Rpc_ok, env1) # calls1"
    and time: "0 \<le> de_now env1" "de_now env1 + ttl \<le> MAX_SAFE_INTEGER"
    and w1: "w1 = \<lparr>dw_objects = (dw_objects (env_world s))(key :=
        \<lparr>ds_row = granted_row h (Some rid) n (de_now env1 + ttl), ds_alarm = Some (de_now env1 + ttl)\<rparr>), dw_calls = calls1\<rparr>"
    and work: "work \<lparr>gd_key = key, gd_grant = Some (session_grant key h n ttl (de_now env1 + ttl))\<rparr> w1 = (out, w2)"
    and kept: "dw_objects w2 key = dw_objects w1 key" and calls2: "dw_calls w2 = (Rpc_ok, env2) # rest"
    and alarm: "de_alarm_ok env2"
  shows "live_owner (ds_row (dw_objects w1 key)) (de_now env1) = Some (h, dec_nat n) \<and>
    (\<exists>s'. withLease key True wait opts (Some (rpc_lease ce (Suc fuel))) work s =
        (if de_now env2 < de_now env1 + ttl then catch_map (work_failure key) out
         else Inl (cleanup_or_both key (lost_lease key (Some Fiducia_release)) (catch_map (work_failure key) out)), s') \<and>
      live_owner (ds_row (dw_objects (env_world s') key)) now = None \<and>
      storage_counter (dw_objects (env_world s') key) = n \<and>
      steps_of (env_trace s') = steps_of (env_trace s) @ lp_steps (plan LAYERS_FIDUCIA_ONLY scope wait))"
proof -
  let ?e = "de_now env1 + ttl"
  let ?g = "session_grant key h n ttl ?e"
  have n: "0 < n" "n \<le> MAX_MINTED_FENCING_TOKEN" using free by (simp_all add: free_object_def)
  have "rpc_attempt namespace_call key opts (if wait then Fiducia_acquire else Fiducia_try_acquire) h rid (env_world s) =
      (Inr (Some ?g), w1)"
    using rpc_attempt_fresh [OF req free calls _ time] unfolding w1 by simp
  from rpc_acquire_attempt [OF req this]
  have acq: "lease_acquire (rpc_lease ce (Suc fuel)) key opts wait (env_world s) = (Inr ?g, w1)"
    by (simp add: rpc_lease_def)
  have row: "ds_row (dw_objects w2 key) = granted_row h (Some rid) n ?e" unfolding kept w1 by simp
  have "validHolder (JString h)" using req by (simp add: request_ok_def)
  from rpc_release_owner [OF row calls2 alarm this n]
  have rel: "lease_release (rpc_lease ce (Suc fuel)) ?g w2 = (Inr (de_now env2 < ?e),
      \<lparr>dw_objects = (dw_objects w2)(key := released_object h (Some rid) n ?e), dw_calls = rest\<rparr>)"
    by (simp add: rpc_lease_def)
  have "live_owner (ds_row (dw_objects w1 key)) (de_now env1) = Some (h, dec_nat n)"
    using request_ok_facts(3) [OF req] unfolding w1 by (simp add: live_owner_def granted_row_def)
  then show ?thesis
    by (auto simp: withLease_engaged acq work rel settle_result_def released_object_free plan_steps_cases
        LAYERS_FIDUCIA_ONLY_def acquire_step_def)
qed

definition quiet_world :: do_world where
  "quiet_world = \<lparr>dw_objects = (\<lambda>_. open_authority No_table None), dw_calls = [(Rpc_ok, tick 10), (Rpc_ok, tick 20)]\<rparr>"

theorem withLease_over_authority_witness:
  "\<exists>s'. withLease [107] True False rpc_request (Some (rpc_lease idle_env 1)) (\<lambda>g. return_st (gd_key g))
      \<lparr>env_world = quiet_world, env_trace = []\<rparr> = (Inr [107], s') \<and>
    live_owner (ds_row (dw_objects (env_world s') [107])) 30 = None \<and> storage_counter (dw_objects (env_world s') [107]) = 1"
proof -
  let ?s = "\<lparr>env_world = quiet_world, env_trace = []\<rparr>"
  have free: "free_object (dw_objects (env_world ?s) [107]) (tick 10) 1"
    using sample_free by (simp add: sample_do_world_def quiet_world_def)
  have calls: "dw_calls (env_world ?s) = (Rpc_ok, tick 10) # [(Rpc_ok, tick 20)]" by (simp add: quiet_world_def)
  have time: "0 \<le> de_now (tick 10)" "de_now (tick 10) + 60000 \<le> MAX_SAFE_INTEGER" "de_alarm_ok (tick 20)"
    by (simp_all add: MAX_SAFE_INTEGER_def)
  from withLease_over_authority [where work = "\<lambda>g. return_st (gd_key g)", OF rpc_request_ok free calls time(1,2) refl
      return_st_apply refl _ time(3), of "[]" False idle_env 0 30 Session]
  show ?thesis by auto
qed

text \<open>C1: a superseded owner is fenced off. Take any history of the authority in which one grant was made
  after another, and any history of a store that follows \<open>evaluateFence\<close> in which a write under the
  later grant's token was applied, however the two histories were interleaved and whatever else
  happened in them. A write under the earlier grant's token, whenever it arrives after that,
  changes nothing in the store.\<close>

theorem superseded_owner_fenced_off:
  assumes "storage_invar st" and "i < j" and "j < length ops"
    and "answer_minted (fst (do_run st ops) ! i) = Some old" and "answer_minted (fst (do_run st ops) ! j) = Some new"
    and "r \<in> set (fs_applied (fence_run empty_store vs))" and "token_value r = new"
    and "fencedWriteRequest late = Inr q" and "token_value q = old"
  shows "snd (fence_admit (fence_run empty_store vs) late) = fence_run empty_store vs"
proof (rule applied_shuts_out [OF assms(6)])
  show "incoming_token late = Some old" using assms(8,9) by (simp add: incoming_token_def)
  from do_authority.minted_in_order [OF assms(1-3)] assms(4,5) show "old \<le> token_value r"
    unfolding assms(7) by (auto simp: do_run_authority intro: less_imp_le)
qed

theorem superseded_owner_fenced_off_witness:
  "snd (fence_admit (fence_run empty_store [request_object (sample_request 7)]) (request_object (sample_request 6))) =
   fence_run empty_store [request_object (sample_request 7)]"
proof -
  let ?ops = "[(tick 200, Do_acquire (sample_acquire [98] 50)), (tick 300, Do_acquire (sample_acquire [97] 50))]"
  have minted: "answer_minted (fst (do_run held_storage ?ops) ! 0) = Some 6" "answer_minted (fst (do_run held_storage ?ops) ! 1) = Some 7"
    by (simp_all add: do_answer_of_def do_acquire_def do_eval held_storage_def acquire_body_def
      acquire_fresh_def transactionSync_def nextToken_def canonical_dec_nat
      MAX_MINTED_FENCING_TOKEN_def bind_st_def setAlarm_def)
  have ok: "fencedWriteRequest (request_object (sample_request n)) = Inr (sample_request n)" if "n \<le> 7" for n
    using fencedWriteRequest_object [OF sample_request_valid [of n]] that by (simp add: MAX_FENCING_TOKEN_def)
  have "sample_request 7 \<in> set (fs_applied (fence_run empty_store [request_object (sample_request 7)]))"
    using fencedWriteRequest_valid [OF ok [of 7]]
    by (simp add: fence_admit_def watermark_value_def empty_store_def evaluateFence_first [OF ok [of 7]] ok)
  from superseded_owner_fenced_off [OF held_storage_invar _ _ minted this _ ok [of 6]] show ?thesis
    by (simp add: token_value_def sample_request_def)
qed

end
